(* ===== verification/Prelude.thy ===== *)
theory Prelude
  imports Complex_Main "HOL-Library.Word" "HOL-Library.Log_Nat"
begin

text \<open>
  Shared material of the development: the collections of rewrite rules that carry the component
  proofs and the generic facts on rational powers of two, lists and options that more than one
  component needs.
\<close>

named_theorems fval
  \<open>values of the results of float64 operations on finite arguments\<close>

named_theorems fsafe
  \<open>facts that a float64 result is not a NaN, or is finite\<close>

lemma not_in_image: "(\<And>x. x \<in> A \<Longrightarrow> f x \<noteq> y) \<Longrightarrow> y \<notin> f ` A"
  by blast

section \<open>Powers of two over the rationals\<close>

lemma p2_pos [simp]: "0 < (2::rat) powi i"
  by (rule zero_less_power_int) simp

lemma p2_nonneg [simp]: "0 \<le> (2::rat) powi i"
  by (simp add: less_imp_le)

lemma p2_not_neg [simp]: "\<not> (2::rat) powi i < 0"
  by (simp add: not_less)

lemma p2_nonzero [simp]: "(2::rat) powi i \<noteq> 0"
  by (simp add: power_int_not_zero)

lemma p2_add: "(2::rat) powi (i + j) = 2 powi i * 2 powi j"
  by (simp add: power_int_add)

lemma p2_neg_cancel [simp]: "(2::rat) powi (- i) * 2 powi i = 1" "(2::rat) powi i * 2 powi (- i) = 1"
  by (simp_all flip: p2_add)

lemma p2_mono: "i \<le> j \<Longrightarrow> (2::rat) powi i \<le> 2 powi j"
  by (rule power_int_increasing) auto

lemma p2_strict_mono: "i < j \<Longrightarrow> (2::rat) powi i < 2 powi j"
  by (rule power_int_strict_increasing) auto

lemma p2_le_iff [simp]: "(2::rat) powi i \<le> 2 powi j \<longleftrightarrow> i \<le> j"
  using p2_mono [of i j] p2_strict_mono [of j i] by (cases "i \<le> j") auto

lemma p2_less_iff [simp]: "(2::rat) powi i < 2 powi j \<longleftrightarrow> i < j"
  using p2_le_iff [of j i] by (simp add: not_le [symmetric] del: p2_le_iff)

lemma p2_nat: "0 \<le> i \<Longrightarrow> (2::rat) powi i = of_int (2 ^ nat i)"
  by (simp add: power_int_def)

end
