(* ===== verification/Float64.thy ===== *)
theory Float64
  imports Prelude
begin

text \<open>
  Go's float64 as IEEE 754 binary64, bit for bit: a value is its 64-bit pattern, \<open>f_val\<close>
  its rational value (the infinities at \<open>2^1024\<close>), and every operation rounds the exact
  result once, to nearest with ties to even. The operators of the type classes are those of the
  language: comparisons with a NaN are false, division by zero gives an infinity or a NaN. One NaN
  pattern is produced. The lemmas give the value of each operation on finite arguments as the
  rounding \<open>R\<close> of the exact result, and the order, error and exactness facts of \<open>R\<close>.
\<close>

section \<open>Representation\<close>

datatype f64 = F64 (Float64bits: "64 word")

definition f_sign :: "f64 \<Rightarrow> bool" where
  "f_sign x \<longleftrightarrow> 2 ^ 63 \<le> uint (Float64bits x)"

definition f_bits :: "f64 \<Rightarrow> int" where
  "f_bits x = uint (Float64bits x) mod 2 ^ 63"

definition f_nan :: "f64 \<Rightarrow> bool" where
  "f_nan x \<longleftrightarrow> 2047 * 2 ^ 52 < f_bits x"

definition f_inf :: "f64 \<Rightarrow> bool" where
  "f_inf x \<longleftrightarrow> f_bits x = 2047 * 2 ^ 52"

definition f_fin :: "f64 \<Rightarrow> bool" where
  "f_fin x \<longleftrightarrow> f_bits x < 2047 * 2 ^ 52"

definition mag :: "int \<Rightarrow> rat" where
  "mag b = (let e = b div 2 ^ 52; f = b mod 2 ^ 52 in
     if e = 0 then of_int f * 2 powi (- 1074) else of_int (2 ^ 52 + f) * 2 powi (e - 1075))"

definition f_val :: "f64 \<Rightarrow> rat" where
  "f_val x = (if f_sign x then - mag (f_bits x) else mag (f_bits x))"

section \<open>Rounding\<close>

definition round_even :: "rat \<Rightarrow> int" where
  "round_even y = (let n = \<lfloor>y\<rfloor>; r = y - of_int n in
     if r < 1 / 2 then n else if 1 / 2 < r then n + 1 else if even n then n else n + 1)"

definition ilog2 :: "rat \<Rightarrow> int" where
  "ilog2 y = (if 1 \<le> y then bitlen \<lfloor>y\<rfloor> - 1 else - bitlen (\<lceil>1 / y\<rceil> - 1))"

definition ulp_exp :: "rat \<Rightarrow> int" where
  "ulp_exp y = max (ilog2 y - 52) (- 1074)"

definition rmant :: "rat \<Rightarrow> int" where
  "rmant y = round_even (y * 2 powi (- ulp_exp y))"

definition rmag :: "rat \<Rightarrow> rat" where
  "rmag y = of_int (rmant y) * 2 powi ulp_exp y"

definition rne :: "rat \<Rightarrow> rat" where
  "rne x = (if x = 0 then 0 else if x < 0 then - rmag (- x) else rmag x)"

definition f_lim :: rat where
  "f_lim = 2 powi 1024"

definition R :: "rat \<Rightarrow> rat" where
  "R x = max (- (f_lim)) (min (f_lim) (rne x))"

definition pack :: "bool \<Rightarrow> int \<Rightarrow> f64" where
  "pack s b = F64 (word_of_int (if s then 2 ^ 63 + b else b))"

definition rnd :: "rat \<Rightarrow> f64" where
  "rnd x = (if x = 0 then pack False 0
     else pack (x < 0) (min ((ulp_exp \<bar>x\<bar> + 1074) * 2 ^ 52 + rmant \<bar>x\<bar>) (2047 * 2 ^ 52)))"

section \<open>Rounding lemmas\<close>

lemma f_lim_pos [simp]: "0 < f_lim" "0 \<le> f_lim" "f_lim \<noteq> 0"
  unfolding f_lim_def using p2_pos [of 1024] by linarith+

lemma f_lim_not_le [simp]: "\<not> f_lim \<le> 0"
  by (simp add: not_le)

lemma round_even_of_int [simp]: "round_even (of_int n) = n"
  by (simp add: round_even_def)

lemma round_even_bounds: "\<lfloor>y\<rfloor> \<le> round_even y \<and> round_even y \<le> \<lfloor>y\<rfloor> + 1"
  by (simp add: round_even_def Let_def)

lemma round_even_mono:
  assumes "x \<le> y"
  shows "round_even x \<le> round_even y"
proof (cases "\<lfloor>x\<rfloor> = \<lfloor>y\<rfloor>")
  case True
  with assms show ?thesis by (auto simp: round_even_def Let_def)
next
  case False
  with assms have "\<lfloor>x\<rfloor> + 1 \<le> \<lfloor>y\<rfloor>" using floor_mono [OF assms] by linarith
  then show ?thesis using round_even_bounds [of x] round_even_bounds [of y] by linarith
qed

lemma round_even_ge: "of_int n \<le> y \<Longrightarrow> n \<le> round_even y"
  using round_even_mono [of "of_int n" y] by simp

lemma round_even_le: "y \<le> of_int n \<Longrightarrow> round_even y \<le> n"
  using round_even_mono [of y "of_int n"] by simp

lemma round_even_err: "\<bar>of_int (round_even y) - y\<bar> \<le> 1 / 2"
proof -
  have "of_int \<lfloor>y\<rfloor> \<le> y" "y < of_int \<lfloor>y\<rfloor> + 1" by linarith+
  then show ?thesis by (simp add: round_even_def Let_def abs_if) linarith
qed

lemma bitlen_p2:
  assumes "1 \<le> n"
  shows "2 powi (bitlen n - 1) \<le> (of_int n :: rat) \<and> (of_int n :: rat) + 1 \<le> 2 powi bitlen n"
proof -
  have b: "2 ^ nat (bitlen n - 1) \<le> n \<and> n < 2 ^ nat (bitlen n)" 
    using assms by (intro bitlen_bounds) auto
  have k: "0 \<le> bitlen n - 1" using assms by (simp add: bitlen_def floorlog_def)
  have "(of_int (2 ^ nat (bitlen n - 1)) :: rat) \<le> of_int n"
    using b by (simp only: of_int_le_iff)
  moreover have "(of_int (n + 1) :: rat) \<le> of_int (2 ^ nat (bitlen n))"
    using b by (subst of_int_le_iff) linarith
  ultimately show ?thesis using k by (simp add: p2_nat)
qed

lemma ilog2_bounds:
  assumes "0 < y"
  shows "2 powi ilog2 y \<le> y \<and> y < 2 powi (ilog2 y + 1)"
proof (cases "1 \<le> y")
  case True
  then have "1 \<le> \<lfloor>y\<rfloor>" by simp
  from bitlen_p2 [OF this] floor_correct [of y] True show ?thesis
    by (simp add: ilog2_def) linarith
next
  case False
  define n where "n = \<lceil>1 / y\<rceil> - 1"
  have "1 < 1 / y" using False assms by simp
  then have n1: "1 \<le> n" unfolding n_def by linarith
  have c: "of_int n < 1 / y" "1 / y \<le> of_int n + 1" unfolding n_def by linarith+
  let ?k = "bitlen n"
  have hi: "1 / y \<le> 2 powi ?k" and lo: "2 powi (?k - 1) < 1 / y"
    using bitlen_p2 [OF n1] c by linarith+
  have "2 powi (- ?k) \<le> y"
    using hi assms by (simp add: power_int_minus field_simps)
  moreover have "y < 2 powi (1 - ?k)"
  proof -
    have "y * 2 powi (?k - 1) < 1" using lo assms by (simp add: field_simps)
    then have "y * 2 powi (?k - 1) * 2 powi (1 - ?k) < 1 * 2 powi (1 - ?k)"
      by (rule mult_strict_right_mono) simp
    then show ?thesis by (simp add: mult.assoc flip: p2_add)
  qed
  ultimately show ?thesis using False by (simp add: ilog2_def n_def add.commute)
qed

lemma ilog2_le: "0 < y \<Longrightarrow> y < 2 powi (e + 1) \<Longrightarrow> ilog2 y \<le> e"
  using ilog2_bounds [of y] p2_less_iff [of "ilog2 y" "e + 1"]
  by (meson le_less_trans zle_add1_eq_le)

lemma ilog2_ge: "0 < y \<Longrightarrow> 2 powi e \<le> y \<Longrightarrow> e \<le> ilog2 y"
  using ilog2_bounds [of y] p2_less_iff [of e "ilog2 y + 1"]
  by (meson le_less_trans zle_add1_eq_le)

lemma ilog2_unique: "2 powi e \<le> y \<Longrightarrow> y < 2 powi (e + 1) \<Longrightarrow> ilog2 y = e"
  using less_le_trans [OF p2_pos [of e], of y] by (intro antisym ilog2_le ilog2_ge) auto

lemma ilog2_mono: "0 < x \<Longrightarrow> x \<le> y \<Longrightarrow> ilog2 x \<le> ilog2 y"
  using ilog2_bounds [of x] by (intro ilog2_ge) auto

lemma ulp_exp_ge: "- 1074 \<le> ulp_exp y"
  by (simp add: ulp_exp_def)

lemma ulp_exp_mono: "0 < x \<Longrightarrow> x \<le> y \<Longrightarrow> ulp_exp x \<le> ulp_exp y"
  using ilog2_mono [of x y] by (simp add: ulp_exp_def)

lemma ulp_exp_upper:
  assumes "0 < y"
  shows "y < 2 powi (ulp_exp y + 53)"
proof -
  have "y < 2 powi (ilog2 y + 1)" using ilog2_bounds [OF assms] by simp
  also have "\<dots> \<le> 2 powi (ulp_exp y + 53)" by (simp add: ulp_exp_def)
  finally show ?thesis .
qed

lemma ulp_exp_lower:
  assumes "0 < y" "- 1074 < ulp_exp y"
  shows "2 powi (ulp_exp y + 52) \<le> y"
proof -
  have "ulp_exp y + 52 = ilog2 y" using assms by (simp add: ulp_exp_def split: if_splits)
  then show ?thesis using ilog2_bounds [OF assms(1)] by simp
qed

lemma rmant_nonneg: "0 < y \<Longrightarrow> 0 \<le> rmant y"
  unfolding rmant_def by (rule round_even_ge) simp

lemma rmant_le:
  assumes "0 < y"
  shows "rmant y \<le> 2 ^ 53"
proof -
  have "y * 2 powi (- ulp_exp y) \<le> 2 powi (ulp_exp y + 53) * 2 powi (- ulp_exp y)"
    using ulp_exp_upper [OF assms] by (intro mult_right_mono) auto
  also have "\<dots> = of_int (2 ^ 53)" by (simp add: p2_nat flip: p2_add)
  finally show ?thesis unfolding rmant_def by (rule round_even_le)
qed

lemma rmant_ge:
  assumes "0 < y" "- 1074 < ulp_exp y"
  shows "2 ^ 52 \<le> rmant y"
proof -
  have "of_int (2 ^ 52) = (2::rat) powi (ulp_exp y + 52) * 2 powi (- ulp_exp y)"
    by (simp add: p2_nat flip: p2_add)
  also have "\<dots> \<le> y * 2 powi (- ulp_exp y)"
    using ulp_exp_lower [OF assms] by (intro mult_right_mono) auto
  finally show ?thesis unfolding rmant_def by (rule round_even_ge)
qed

lemma rmag_nonneg: "0 < y \<Longrightarrow> 0 \<le> rmag y"
  by (simp add: rmag_def rmant_nonneg)

lemma rmag_mono:
  assumes "0 < x" "x \<le> y"
  shows "rmag x \<le> rmag y"
proof (cases "ulp_exp x = ulp_exp y")
  case True
  have "rmant x \<le> rmant y"
    unfolding rmant_def True using assms by (intro round_even_mono mult_right_mono) auto
  then show ?thesis by (simp add: rmag_def True)
next
  case False
  have y: "0 < y" using assms by simp
  from False ulp_exp_mono [OF assms] have lt: "ulp_exp x + 1 \<le> ulp_exp y" by simp
  then have big: "- 1074 < ulp_exp y" using ulp_exp_ge [of x] by simp
  have "rmag x \<le> of_int (2 ^ 53) * 2 powi ulp_exp x"
    unfolding rmag_def using rmant_le [OF assms(1)]
    by (intro mult_right_mono) (simp_all only: of_int_le_iff p2_nonneg)
  also have "\<dots> = 2 powi (53 + ulp_exp x)" by (simp add: p2_add p2_nat)
  also have "\<dots> \<le> 2 powi (52 + ulp_exp y)" using lt by simp
  also have "\<dots> = of_int (2 ^ 52) * 2 powi ulp_exp y" by (simp add: p2_add p2_nat)
  also have "\<dots> \<le> rmag y"
    unfolding rmag_def using rmant_ge [OF y big]
    by (intro mult_right_mono) (simp_all only: of_int_le_iff p2_nonneg)
  finally show ?thesis .
qed

lemma rmag_exact:
  assumes y: "y = of_int m * 2 powi q" "0 < y" and m: "m < 2 ^ 53" and q: "- 1074 \<le> q"
  shows "rmag y = y"
proof -
  have "(of_int m :: rat) < 2 powi 53" using m by (simp add: p2_nat)
  then have "y < 2 powi 53 * 2 powi q" unfolding y by (intro mult_strict_right_mono) auto
  then have "y < 2 powi ((q + 52) + 1)" by (simp only: flip: p2_add) (simp add: add.commute)
  from ilog2_le [OF y(2) this] q have le: "ulp_exp y \<le> q" by (simp add: ulp_exp_def)
  have "y * 2 powi (- ulp_exp y) = of_int m * (2 powi q * 2 powi (- ulp_exp y))"
    by (simp add: y(1))
  also have "\<dots> = of_int m * 2 powi (q - ulp_exp y)" by (simp flip: p2_add)
  also have "\<dots> = of_int (m * 2 ^ nat (q - ulp_exp y))" using le by (simp add: p2_nat)
  finally have eq: "y * 2 powi (- ulp_exp y) = of_int (m * 2 ^ nat (q - ulp_exp y))" .
  have "of_int (rmant y) = y * 2 powi (- ulp_exp y)"
    unfolding rmant_def eq by (simp only: round_even_of_int)
  then show ?thesis by (simp add: rmag_def mult.assoc)
qed

lemma rmag_p2:
  assumes "- 1074 \<le> e"
  shows "rmag (2 powi e) = 2 powi e"
  by (rule rmag_exact [where m = 1 and q = e]) (use assms in auto)

lemma rne_mono:
  assumes "x \<le> y"
  shows "rne x \<le> rne y"
proof -
  consider "x < 0" "y < 0" | "x \<le> 0" "0 \<le> y" | "0 < x" "0 < y" using assms by linarith
  then show ?thesis
  proof cases
    case 1
    then show ?thesis using rmag_mono [of "- y" "- x"] assms by (simp add: rne_def)
  next
    case 2
    then have "rne x \<le> 0" "0 \<le> rne y"
      using rmag_nonneg [of "- x"] rmag_nonneg [of y] by (auto simp: rne_def)
    then show ?thesis by linarith
  next
    case 3
    then show ?thesis using rmag_mono [of x y] assms by (simp add: rne_def)
  qed
qed

lemma rne_minus: "rne (- x) = - rne x"
  by (simp add: rne_def)

lemma rne_0 [simp]: "rne 0 = 0"
  by (simp add: rne_def)

lemma R_mono: "x \<le> y \<Longrightarrow> R x \<le> R y"
  unfolding R_def using rne_mono [of x y] by linarith

lemma R_minus: "R (- x) = - R x"
  unfolding R_def rne_minus using f_lim_pos(1) by linarith

lemma R_0 [simp]: "R 0 = 0"
  by (simp add: R_def)

lemma R_nonneg: "0 \<le> x \<Longrightarrow> 0 \<le> R x"
  using R_mono [of 0 x] by simp

lemma R_nonpos: "x \<le> 0 \<Longrightarrow> R x \<le> 0"
  using R_mono [of x 0] by simp

lemma R_bounded: "\<bar>R x\<bar> \<le> f_lim"
  by (simp add: R_def abs_le_iff)

lemma R_less: "R x < R y \<Longrightarrow> x < y"
  using R_mono [of y x] by linarith

section \<open>Bits and values\<close>

lemma f_bits_range: "0 \<le> f_bits x \<and> f_bits x < 2 ^ 63"
  by (simp add: f_bits_def)

lemma uint64_range: "0 \<le> uint (w :: 64 word) \<and> uint w < 2 ^ 64"
  using uint_lt2p [of w] by simp

lemma uint_split: "uint (Float64bits x) = (if f_sign x then 2 ^ 63 else 0) + f_bits x"
proof (cases "f_sign x")
  case True
  have "uint (Float64bits x) mod 2 ^ 63 = (uint (Float64bits x) - 2 ^ 63) mod 2 ^ 63"
    by (simp only: minus_mod_self2)
  also have "\<dots> = uint (Float64bits x) - 2 ^ 63"
    using True uint64_range [of "Float64bits x"]
    by (intro mod_pos_pos_trivial) (simp_all add: f_sign_def)
  finally show ?thesis using True by (simp add: f_bits_def)
next
  case False
  then have "uint (Float64bits x) mod 2 ^ 63 = uint (Float64bits x)"
    using uint64_range [of "Float64bits x"]
    by (intro mod_pos_pos_trivial) (simp_all add: f_sign_def)
  with False show ?thesis by (simp add: f_bits_def)
qed

lemma f_eqI:
  assumes "f_sign x = f_sign y" "f_bits x = f_bits y"
  shows "x = y"
proof -
  have "uint (Float64bits x) = uint (Float64bits y)"
    by (simp only: uint_split assms)
  then show "x = y" by (cases x; cases y) (simp add: word_uint_eq_iff)
qed

lemma uint_pack:
  assumes "0 \<le> b" "b < 2 ^ 63"
  shows "uint (Float64bits (pack s b)) = (if s then 2 ^ 63 + b else b)"
  using assms by (simp add: pack_def uint_word_of_int)

lemma f_sign_pack [simp]: "0 \<le> b \<Longrightarrow> b < 2 ^ 63 \<Longrightarrow> f_sign (pack s b) = s"
  by (simp add: f_sign_def uint_pack)

lemma f_bits_pack [simp]: "0 \<le> b \<Longrightarrow> b < 2 ^ 63 \<Longrightarrow> f_bits (pack s b) = b"
  by (simp add: f_bits_def uint_pack)

lemma mag_zero [simp]: "mag 0 = 0"
  by (simp add: mag_def)

lemma mag_inf: "mag (2047 * 2 ^ 52) = f_lim"
  by (simp add: mag_def power_int_def f_lim_def)

lemma mag_parts:
  assumes "0 \<le> b"
  obtains m q where "mag b = of_int m * 2 powi q" "0 \<le> m" "m < 2 ^ 53" "- 1074 \<le> q"
    "b = (q + 1074) * 2 ^ 52 + m" "q = - 1074 \<or> 2 ^ 52 \<le> m"
proof (cases "b div 2 ^ 52 = 0")
  case True
  with assms have "b < 2 ^ 52" by (simp add: div_eq_0_iff)
  then show ?thesis using assms True by (intro that [of b "- 1074"]) (auto simp: mag_def)
next
  case False
  have f: "0 \<le> b mod 2 ^ 52" "b mod 2 ^ 52 < 2 ^ 52" by simp_all
  have "0 \<le> b div 2 ^ 52" using assms by simp
  with False have e: "1 \<le> b div 2 ^ 52" by linarith
  have "b = b div 2 ^ 52 * 2 ^ 52 + b mod 2 ^ 52" by simp
  then show ?thesis using f e
    by (intro that [of "2 ^ 52 + b mod 2 ^ 52" "b div 2 ^ 52 - 1075"])
       (simp_all add: mag_def Let_def algebra_simps)
qed

lemma mag_pack:
  assumes m: "0 \<le> m" "m \<le> 2 ^ 53" and q: "- 1074 \<le> q" "q = - 1074 \<or> 2 ^ 52 \<le> m"
  shows "mag ((q + 1074) * 2 ^ 52 + m) = of_int m * 2 powi q"
proof -
  consider "m < 2 ^ 52" "q = - 1074" | "2 ^ 52 \<le> m" "m < 2 ^ 53" | "m = 2 ^ 53"
    using m q by linarith
  then show ?thesis
  proof cases
    case 1
    then show ?thesis using m by (simp add: mag_def)
  next
    case 2
    have e: "((q + 1074) * 2 ^ 52 + m) div 2 ^ 52 = q + 1075" using 2 by simp
    have f: "((q + 1074) * 2 ^ 52 + m) mod 2 ^ 52 = m - 2 ^ 52"
      unfolding minus_div_mult_eq_mod [symmetric] e by simp
    show ?thesis using q unfolding mag_def Let_def e f by simp
  next
    case 3
    have e: "((q + 1074) * 2 ^ 52 + m) div 2 ^ 52 = q + 1076" using 3 by simp
    have f: "((q + 1074) * 2 ^ 52 + m) mod 2 ^ 52 = 0" using 3 by simp
    show ?thesis using q 3 p2_add [of q 1] unfolding mag_def Let_def e f by (simp add: add.commute)
  qed
qed

lemma mag_exact:
  assumes "0 \<le> b"
  shows "rne (mag b) = mag b"
proof -
  obtain m q where p: "mag b = of_int m * 2 powi q" "0 \<le> m" "m < 2 ^ 53" "- 1074 \<le> q"
    using mag_parts [OF assms] by metis
  show ?thesis
  proof (cases "m = 0")
    case False
    with p have "0 < mag b" by simp
    with rmag_exact [OF p(1) this p(3,4)] show ?thesis by (simp add: rne_def)
  qed (simp add: p)
qed

lemma mag_nonneg: "0 \<le> b \<Longrightarrow> 0 \<le> mag b"
  by (simp add: mag_def Let_def)

lemma mag_fin:
  assumes "0 \<le> b" "b < 2047 * 2 ^ 52"
  shows "mag b < f_lim"
proof -
  obtain m q where p: "mag b = of_int m * 2 powi q" "0 \<le> m" "m < 2 ^ 53" "- 1074 \<le> q"
    "b = (q + 1074) * 2 ^ 52 + m" "q = - 1074 \<or> 2 ^ 52 \<le> m"
    using mag_parts [OF assms(1)] by metis
  have "q \<le> 971" using p(2-) assms(2) by auto
  have "mag b < of_int (2 ^ 53) * 2 powi q"
    unfolding p(1) using p(3) by (intro mult_strict_right_mono) (simp_all only: of_int_less_iff p2_pos)
  also have "\<dots> = 2 powi (53 + q)" by (simp add: p2_add p2_nat)
  also have "\<dots> \<le> f_lim" unfolding f_lim_def p2_le_iff using \<open>q \<le> 971\<close> by simp
  finally show ?thesis .
qed

lemma pack_overflow:
  assumes m: "0 \<le> m" "m \<le> 2 ^ 53" and q: "- 1074 \<le> q" "q = - 1074 \<or> 2 ^ 52 \<le> m"
  shows "mag (min ((q + 1074) * 2 ^ 52 + m) (2047 * 2 ^ 52)) = min (of_int m * 2 powi q) (f_lim)"
proof -
  let ?b = "(q + 1074) * 2 ^ 52 + m"
  have "0 \<le> ?b" using m q by simp
  show ?thesis
  proof (cases "?b < 2047 * 2 ^ 52")
    case True
    then show ?thesis
      using mag_fin [OF \<open>0 \<le> ?b\<close> True] mag_pack [OF m q] by (simp add: min_def)
  next
    case False
    have "f_lim \<le> (of_int m :: rat) * 2 powi q"
    proof (cases "972 \<le> q")
      case True
      with q have "2 ^ 52 \<le> m" by auto
      then have "of_int (2 ^ 52) \<le> (of_int m :: rat)"
        by (simp only: of_int_le_iff)
      then have "of_int (2 ^ 52) * 2 powi 972 \<le> (of_int m :: rat) * 2 powi q"
        using p2_mono [OF True] m by (intro mult_mono) (simp_all only: p2_nonneg of_int_0_le_iff)
      then show ?thesis by (simp add: p2_nat f_lim_def)
    next
      case small: False
      with False m q have "m = 2 ^ 53" "q = 971" by auto
      then show ?thesis by (simp add: p2_nat f_lim_def)
    qed
    then have "min (of_int m * 2 powi q) f_lim = f_lim" by (rule min_absorb2)
    moreover have "min ?b (2047 * 2 ^ 52) = 2047 * 2 ^ 52" using False by linarith
    ultimately show ?thesis by (simp only: mag_inf)
  qed
qed

lemma mag_Suc:
  assumes "0 \<le> b"
  shows "mag b < mag (b + 1)"
proof -
  obtain m q where p: "mag b = of_int m * 2 powi q" "0 \<le> m" "m < 2 ^ 53" "- 1074 \<le> q"
    "b = (q + 1074) * 2 ^ 52 + m" "q = - 1074 \<or> 2 ^ 52 \<le> m"
    using mag_parts [OF assms] by metis
  have "mag ((q + 1074) * 2 ^ 52 + (m + 1)) = of_int (m + 1) * 2 powi q"
    using p by (intro mag_pack) auto
  then show ?thesis using p(1) p(5) by (simp add: distrib_right algebra_simps)
qed

lemma mag_strict_mono:
  assumes "0 \<le> b" "b < c"
  shows "mag b < mag c"
proof -
  have "mag b < mag (b + 1 + int k)" for k
  proof (induction k)
    case 0
    show ?case using mag_Suc [OF assms(1)] by simp
  next
    case (Suc k)
    have "mag (b + 1 + int k) < mag (b + 1 + int k + 1)" using assms by (intro mag_Suc) simp
    with Suc show ?case by (simp add: algebra_simps)
  qed
  from this [of "nat (c - b - 1)"] assms show ?thesis by simp
qed

lemma mag_less_iff: "0 \<le> b \<Longrightarrow> 0 \<le> c \<Longrightarrow> mag b < mag c \<longleftrightarrow> b < c"
  using mag_strict_mono [of b c] mag_strict_mono [of c b] by (cases b c rule: linorder_cases) auto

lemma mag_eq_iff: "0 \<le> b \<Longrightarrow> 0 \<le> c \<Longrightarrow> mag b = mag c \<longleftrightarrow> b = c"
  using mag_strict_mono [of b c] mag_strict_mono [of c b] by (cases b c rule: linorder_cases) auto

lemma rnd_bits_range:
  "0 < y \<Longrightarrow> 0 \<le> min ((ulp_exp y + 1074) * 2 ^ 52 + rmant y) (2047 * 2 ^ 52)"
  "min ((ulp_exp y + 1074) * 2 ^ 52 + rmant y) (2047 * 2 ^ 52) < (2 ^ 63 :: int)"
  using rmant_nonneg [of y] ulp_exp_ge [of y] by (auto simp: min_def)

lemma f_sign_rnd: "f_sign (rnd x) \<longleftrightarrow> x < 0"
proof (cases "x = 0")
  case False
  then show ?thesis
    unfolding rnd_def using rnd_bits_range [of "\<bar>x\<bar>"] by (simp only: if_False f_sign_pack zero_less_abs_iff not_False_eq_True)
qed (simp add: rnd_def)

lemma f_bits_rnd: "f_bits (rnd x) \<le> 2047 * 2 ^ 52"
proof (cases "x = 0")
  case False
  then show ?thesis
    unfolding rnd_def using rnd_bits_range [of "\<bar>x\<bar>"] by (simp only: if_False f_bits_pack zero_less_abs_iff not_False_eq_True min.cobounded2)
qed (simp add: rnd_def)

lemma mag_rnd:
  assumes "x \<noteq> 0"
  shows "mag (f_bits (rnd x)) = min (rmag \<bar>x\<bar>) (f_lim)"
proof -
  let ?y = "\<bar>x\<bar>"
  have y: "0 < ?y" using assms by simp
  have "f_bits (rnd x) = min ((ulp_exp ?y + 1074) * 2 ^ 52 + rmant ?y) (2047 * 2 ^ 52)"
    unfolding rnd_def using assms rnd_bits_range [of ?y] by (simp only: if_False f_bits_pack zero_less_abs_iff not_False_eq_True)
  moreover have "ulp_exp ?y = - 1074 \<or> 2 ^ 52 \<le> rmant ?y"
    using rmant_ge [OF y] ulp_exp_ge [of ?y] by (cases "ulp_exp ?y = - 1074") auto
  ultimately show ?thesis
    using pack_overflow [OF rmant_nonneg [OF y] rmant_le [OF y] ulp_exp_ge] by (simp add: rmag_def)
qed

lemma f_val_rnd [fval]: "f_val (rnd x) = R x"
proof (cases "x = 0")
  case True
  then show ?thesis by (simp add: rnd_def f_val_def)
next
  case False
  have n: "0 \<le> rmag \<bar>x\<bar>" using False by (intro rmag_nonneg) simp
  show ?thesis
  proof (cases "x < 0")
    case True
    then have "f_val (rnd x) = - min (rmag (- x)) f_lim" "R x = max (- f_lim) (min f_lim (- rmag (- x)))"
      using mag_rnd [OF False] by (simp_all add: f_val_def f_sign_rnd R_def rne_def)
    then show ?thesis using n True f_lim_pos(1) by (simp only: abs_of_neg)
  next
    case pos: False
    then show ?thesis
      using mag_rnd [OF False] n False
      by (simp add: f_val_def f_sign_rnd R_def rne_def min_def max_def)
  qed
qed

lemma f_nan_rnd [fsafe, simp]: "\<not> f_nan (rnd x)"
  using f_bits_rnd [of x] by (simp add: f_nan_def)

lemma f_val_abs_le: "\<not> f_nan x \<Longrightarrow> \<bar>f_val x\<bar> \<le> f_lim"
  using f_bits_range [of x] mag_fin [of "f_bits x"] mag_inf mag_nonneg [of "f_bits x"]
  by (cases "f_bits x = 2047 * 2 ^ 52") (auto simp: f_val_def f_nan_def)

lemma R_f_val [simp]: "\<not> f_nan x \<Longrightarrow> R (f_val x) = f_val x"
  using f_val_abs_le [of x] mag_exact [of "f_bits x"] f_bits_range [of x]
  by (auto simp: R_def f_val_def rne_minus)

lemma f_fin_iff: "f_fin x \<longleftrightarrow> \<not> f_nan x \<and> \<bar>f_val x\<bar> < f_lim"
  using f_bits_range [of x] mag_fin [of "f_bits x"] mag_inf mag_nonneg [of "f_bits x"]
  by (cases "f_bits x" "2047 * 2 ^ 52 :: int" rule: linorder_cases)
     (auto simp: f_val_def f_nan_def f_fin_def)

section \<open>Go's operations\<close>

definition f_NaN :: f64 where
  "f_NaN = F64 0x7FF8000000000001"

definition f_Inf :: "bool \<Rightarrow> f64" where
  "f_Inf s = pack s (2047 * 2 ^ 52)"

instantiation f64 :: "{zero, one, plus, uminus, minus, times, divide, inverse, ord}"
begin

definition "(0 :: f64) = pack False 0"

definition "(1 :: f64) = rnd 1"

definition "- x = F64 (Float64bits x + 2 ^ 63)"

definition
  "x + y = (if f_nan x \<or> f_nan y then f_NaN
     else if f_inf x then (if f_inf y \<and> f_sign x \<noteq> f_sign y then f_NaN else x)
     else if f_inf y then y
     else if f_val x + f_val y = 0 then pack (f_sign x \<and> f_sign y) 0
     else rnd (f_val x + f_val y))"

definition "x - y = x + (- y :: f64)"

definition
  "x * y = (let s = (f_sign x \<noteq> f_sign y) in
     if f_nan x \<or> f_nan y then (f_NaN :: f64)
     else if f_inf x \<or> f_inf y then (if f_val x = 0 \<or> f_val y = 0 then f_NaN else f_Inf s)
     else if f_val x = 0 \<or> f_val y = 0 then pack s 0
     else rnd (f_val x * f_val y))"

definition
  "x div y = (let s = (f_sign x \<noteq> f_sign y) in
     if f_nan x \<or> f_nan y then f_NaN
     else if f_inf x then (if f_inf y then f_NaN else f_Inf s)
     else if f_inf y then pack s 0
     else if f_val y = 0 then (if f_val x = 0 then f_NaN else f_Inf s)
     else if f_val x = 0 then pack s 0
     else rnd (f_val x / f_val y) :: f64)"

definition "inverse x = 1 div (x :: f64)"

definition "x < y \<longleftrightarrow> \<not> f_nan x \<and> \<not> f_nan y \<and> f_val x < f_val y"

definition "x \<le> y \<longleftrightarrow> \<not> f_nan x \<and> \<not> f_nan y \<and> f_val x \<le> f_val y"

instance ..

end

definition feq :: "f64 \<Rightarrow> f64 \<Rightarrow> bool" where
  "feq x y \<longleftrightarrow> \<not> f_nan x \<and> \<not> f_nan y \<and> f_val x = f_val y"

definition f_of_int :: "int \<Rightarrow> f64" where
  "f_of_int i = rnd (of_int i)"

definition lit :: "int \<Rightarrow> int \<Rightarrow> f64" where
  "lit n d = rnd (of_int n / of_int d)"

definition f_round :: "f64 \<Rightarrow> f64" where
  "f_round x = (if f_nan x \<or> f_inf x \<or> f_val x = 0 then x
     else let n = \<lfloor>\<bar>f_val x\<bar> + 1 / 2\<rfloor> in
       if n = 0 then pack (f_sign x) 0 else rnd (if f_sign x then - of_int n else of_int n))"

definition f_max :: "f64 \<Rightarrow> f64 \<Rightarrow> f64" where
  "f_max x y = (if f_inf x \<and> \<not> f_sign x \<or> f_inf y \<and> \<not> f_sign y then f_Inf False
     else if f_nan x \<or> f_nan y then f_NaN
     else if feq x 0 \<and> feq x y then (if f_sign x then y else x)
     else if y < x then x else y)"

definition f_trunc :: "f64 \<Rightarrow> 64 word" where
  "f_trunc x = (let t = (if f_sign x then - \<lfloor>\<bar>f_val x\<bar>\<rfloor> else \<lfloor>\<bar>f_val x\<bar>\<rfloor>) in
     if f_nan x \<or> f_inf x \<or> t < - (2 ^ 63) \<or> 2 ^ 63 \<le> t then word_of_int (- (2 ^ 63)) else word_of_int t)"

section \<open>Laws of the operations\<close>

lemma f_nan_cases: "f_fin x \<or> f_inf x \<or> f_nan x"
  unfolding f_fin_def f_inf_def f_nan_def by linarith

lemma f_fin_not: "f_fin x \<Longrightarrow> \<not> f_nan x" "f_fin x \<Longrightarrow> \<not> f_inf x"
  unfolding f_fin_def f_inf_def f_nan_def by linarith+

lemma f_val_inf: "f_inf x \<Longrightarrow> f_val x = (if f_sign x then - f_lim else f_lim)"
  by (simp add: f_inf_def f_val_def mag_inf [simplified])

lemma pack_simps [simp]:
  "f_nan (pack s 0) = False" "f_inf (pack s 0) = False" "f_fin (pack s 0)" "f_val (pack s 0) = 0"
  "f_nan (f_Inf s) = False" "f_inf (f_Inf s)" "\<not> f_fin (f_Inf s)"
  "f_sign (f_Inf s) = s"
  by (simp_all add: f_nan_def f_inf_def f_fin_def f_val_def f_Inf_def)

lemma f_val_Inf [simp]: "f_val (f_Inf s) = (if s then - f_lim else f_lim)"
  using f_val_inf [of "f_Inf s"] by simp

lemma f_nan_NaN [simp]: "f_nan f_NaN"
  by (simp add: f_nan_def f_bits_def f_NaN_def)

lemma f_nan_0 [simp]: "\<not> f_nan 0" "f_fin 0" "f_val 0 = 0" "\<not> f_sign 0" 
  by (simp_all add: zero_f64_def)

lemma f_val_1 [simp]: "f_val 1 = 1" and f_fin_1 [simp]: "f_fin 1" and f_nan_1 [simp]: "\<not> f_nan 1"
proof -
  have "rmag 1 = 1" using rmag_p2 [of 0] by simp
  then have "R 1 = max (- f_lim) (min f_lim 1)" by (simp add: R_def rne_def)
  moreover have "1 < f_lim" unfolding f_lim_def using p2_strict_mono [of 0 1024] by simp
  ultimately show "f_val 1 = 1" "f_fin 1" "\<not> f_nan 1"
    by (simp_all add: one_f64_def f_val_rnd f_fin_iff)
qed

lemma f_val_uminus [fval, simp]: "f_val (- x) = - f_val x"
  and f_nan_uminus [fsafe, simp]: "f_nan (- x) = f_nan x"
  and f_fin_uminus [fsafe, simp]: "f_fin (- x) = f_fin x"
  and f_inf_uminus [simp]: "f_inf (- x) = f_inf x"
  and f_sign_uminus [simp]: "f_sign (- x) = (\<not> f_sign x)"
proof -
  have u: "uint (Float64bits (- x)) = (if f_sign x then 0 else 2 ^ 63) + f_bits x"
  proof -
    have "uint (Float64bits (- x)) = (uint (Float64bits x) + 2 ^ 63) mod 2 ^ 64"
      by (simp add: uminus_f64_def uint_word_ariths)
    also have "\<dots> = (if f_sign x then 0 else 2 ^ 63) + f_bits x"
      using f_bits_range [of x] by (simp add: uint_split)
    finally show ?thesis .
  qed
  show s: "f_sign (- x) = (\<not> f_sign x)" using f_bits_range [of x] by (simp add: f_sign_def [of "- x"] u)
  have b: "f_bits (- x) = f_bits x"
    using uint_split [of "- x"] unfolding s u by (auto split: if_splits)
  show "f_val (- x) = - f_val x" "f_nan (- x) = f_nan x" "f_fin (- x) = f_fin x" "f_inf (- x) = f_inf x"
    by (simp_all add: f_val_def f_nan_def f_fin_def f_inf_def s b)
qed

lemma f_val_add [fval]: "f_fin x \<Longrightarrow> f_fin y \<Longrightarrow> f_val (x + y) = R (f_val x + f_val y)"
  by (auto simp: plus_f64_def f_val_rnd dest: f_fin_not)

lemma f_val_sub [fval]: "f_fin x \<Longrightarrow> f_fin y \<Longrightarrow> f_val (x - y) = R (f_val x - f_val y)"
  by (simp add: minus_f64_def f_val_add)

lemma f_val_mul [fval]: "f_fin x \<Longrightarrow> f_fin y \<Longrightarrow> f_val (x * y) = R (f_val x * f_val y)"
  by (auto simp: times_f64_def f_val_rnd Let_def dest: f_fin_not)

lemma f_val_div [fval]: "f_fin x \<Longrightarrow> f_fin y \<Longrightarrow> f_val y \<noteq> 0 \<Longrightarrow> f_val (x / y) = R (f_val x / f_val y)"
  by (auto simp: divide_f64_def f_val_rnd Let_def dest: f_fin_not)

lemma f_nan_add [fsafe]: "f_fin x \<Longrightarrow> f_fin y \<Longrightarrow> \<not> f_nan (x + y)"
  by (auto simp: plus_f64_def dest: f_fin_not)

lemma f_nan_sub [fsafe]: "f_fin x \<Longrightarrow> f_fin y \<Longrightarrow> \<not> f_nan (x - y)"
  by (simp add: minus_f64_def f_nan_add)

lemma f_nan_mul [fsafe]: "f_fin x \<Longrightarrow> f_fin y \<Longrightarrow> \<not> f_nan (x * y)"
  by (auto simp: times_f64_def Let_def dest: f_fin_not)

lemma f_nan_div [fsafe]: "f_fin x \<Longrightarrow> f_fin y \<Longrightarrow> f_val y \<noteq> 0 \<Longrightarrow> \<not> f_nan (x / y)"
  by (auto simp: divide_f64_def Let_def dest: f_fin_not)

lemma f_nan_propagates:
  "f_nan x \<or> f_nan y \<Longrightarrow> f_nan (x + y) \<and> f_nan (x - y) \<and> f_nan (x * y) \<and> f_nan (x / y)"
  by (simp add: plus_f64_def minus_f64_def times_f64_def divide_f64_def)

section \<open>Order\<close>

lemma f_less_val: "\<not> f_nan x \<Longrightarrow> \<not> f_nan y \<Longrightarrow> x < y \<longleftrightarrow> f_val x < f_val y"
  by (simp add: less_f64_def)

lemma f_le_val: "\<not> f_nan x \<Longrightarrow> \<not> f_nan y \<Longrightarrow> x \<le> y \<longleftrightarrow> f_val x \<le> f_val y"
  by (simp add: less_eq_f64_def)

lemma f_lessD: "x < y \<Longrightarrow> \<not> f_nan x \<and> \<not> f_nan y \<and> f_val x < f_val y"
  by (simp add: less_f64_def)

lemma f_leD: "x \<le> y \<Longrightarrow> \<not> f_nan x \<and> \<not> f_nan y \<and> f_val x \<le> f_val y"
  by (simp add: less_eq_f64_def)

lemma f_not_less: "\<not> f_nan x \<Longrightarrow> \<not> f_nan y \<Longrightarrow> \<not> x < y \<longleftrightarrow> y \<le> (x :: f64)"
  by (auto simp: less_f64_def less_eq_f64_def)

lemma f_fin_between:
  "\<not> f_nan x \<Longrightarrow> f_fin a \<Longrightarrow> f_fin b \<Longrightarrow> f_val a \<le> f_val x \<Longrightarrow> f_val x \<le> f_val b \<Longrightarrow> f_fin x"
  by (auto simp: f_fin_iff abs_less_iff)

lemma R_le_val: "\<not> f_nan y \<Longrightarrow> x \<le> f_val y \<Longrightarrow> R x \<le> f_val y"
  using R_mono [of x "f_val y"] by simp

lemma R_ge_val: "\<not> f_nan y \<Longrightarrow> f_val y \<le> x \<Longrightarrow> f_val y \<le> R x"
  using R_mono [of "f_val y" x] by simp

section \<open>Rounding errors\<close>

lemma rmag_err:
  assumes "0 < y"
  shows "\<bar>rmag y - y\<bar> \<le> 2 powi (ulp_exp y - 1)"
proof -
  have "\<bar>of_int (rmant y) - y * 2 powi (- ulp_exp y)\<bar> * 2 powi ulp_exp y \<le> 1 / 2 * 2 powi ulp_exp y"
    unfolding rmant_def using round_even_err by (intro mult_right_mono) auto
  also have "\<dots> = 2 powi (ulp_exp y - 1)" using p2_add [of "ulp_exp y - 1" 1] by simp
  finally have "\<bar>(of_int (rmant y) - y * 2 powi (- ulp_exp y)) * 2 powi ulp_exp y\<bar> \<le> 2 powi (ulp_exp y - 1)"
    by (simp only: abs_mult abs_of_pos p2_pos)
  then show ?thesis by (simp add: rmag_def left_diff_distrib mult.assoc)
qed

lemma rmag_rel:
  assumes "2 powi (- 1022) \<le> y"
  shows "\<bar>rmag y - y\<bar> \<le> y * 2 powi (- 53)"
proof -
  have y: "0 < y" using assms p2_pos [of "- 1022"] by linarith
  have "2 powi (ulp_exp y + 52) \<le> y"
  proof (cases "- 1074 < ulp_exp y")
    case False
    then have "ulp_exp y = - 1074" using ulp_exp_ge [of y] by simp
    then show ?thesis using assms by simp
  qed (rule ulp_exp_lower [OF y])
  then have "2 powi (ulp_exp y + 52) * 2 powi (- 53) \<le> y * 2 powi (- 53)" by (intro mult_right_mono) auto
  moreover have "2 powi (ulp_exp y + 52) * (2::rat) powi (- 53) = 2 powi (ulp_exp y - 1)"
    by (simp only: p2_add [symmetric]) simp
  ultimately show ?thesis using rmag_err [OF y] by linarith
qed

lemma R_pos:
  assumes "0 < x"
  shows "R x = min f_lim (rmag x)"
proof -
  have "rne x = rmag x" using assms by (simp add: rne_def)
  then show ?thesis unfolding R_def using rmag_nonneg [OF assms] f_lim_pos(1) by linarith
qed

lemma R_upper:
  assumes "2 powi (- 1022) \<le> x"
  shows "R x \<le> x * (1 + 2 powi (- 53))"
  using rmag_rel [OF assms] R_pos [OF less_le_trans [OF p2_pos assms]]
  unfolding distrib_left mult_1_right by linarith

lemma R_lower:
  assumes "2 powi (- 1022) \<le> x" "R x < f_lim"
  shows "x * (1 - 2 powi (- 53)) \<le> R x"
  using rmag_rel [OF assms(1)] R_pos [OF less_le_trans [OF p2_pos assms(1)]] assms(2)
  unfolding right_diff_distrib mult_1_right by linarith

lemma R_dyadic:
  assumes "\<bar>m\<bar> < 2 ^ 53" "- 1074 \<le> q" "q \<le> 971"
  shows "R (of_int m * 2 powi q) = of_int m * 2 powi q"
proof -
  have pos: "R (of_int n * 2 powi q) = of_int n * 2 powi q" if n: "0 < n" "n < 2 ^ 53" for n
  proof -
    let ?y = "of_int n * (2::rat) powi q"
    have y: "0 < ?y" using n by simp
    have "?y \<le> of_int (2 ^ 53) * 2 powi q"
      using n by (intro mult_right_mono) (simp_all only: of_int_le_iff p2_nonneg)
    also have "\<dots> = 2 powi (53 + q)" by (simp add: p2_add p2_nat)
    also have "\<dots> \<le> f_lim" unfolding f_lim_def p2_le_iff using assms(3) by simp
    finally show ?thesis
      using rmag_exact [OF refl y n(2) assms(2)] R_pos [OF y] by simp
  qed
  consider "m = 0" | "0 < m" | "m < 0" by linarith
  then show ?thesis
  proof cases
    case 3
    then have "R (of_int (- m) * 2 powi q) = of_int (- m) * 2 powi q" using assms by (intro pos) auto
    then show ?thesis using R_minus [of "of_int m * 2 powi q"] by simp
  qed (use pos assms in auto)
qed

lemma R_of_int [simp]: "\<bar>n\<bar> < 2 ^ 53 \<Longrightarrow> R (of_int n) = of_int n"
  using R_dyadic [of n 0] by simp

lemma f_of_int [fval]: "\<bar>n\<bar> < 2 ^ 53 \<Longrightarrow> f_val (f_of_int n) = of_int n \<and> f_fin (f_of_int n)"
proof -
  assume n: "\<bar>n\<bar> < 2 ^ 53"
  then have v: "f_val (f_of_int n) = of_int n" by (simp add: f_of_int_def f_val_rnd)
  have "(of_int \<bar>n\<bar> :: rat) < of_int (2 ^ 53)" using n by (simp only: of_int_less_iff)
  also have "\<dots> = 2 powi 53" by (simp add: p2_nat)
  also have "\<dots> < f_lim" unfolding f_lim_def p2_less_iff by simp
  finally show ?thesis using v by (simp add: f_fin_iff f_of_int_def)
qed

section \<open>Rounding to an integer\<close>

lemma f_val_integer:
  assumes "2 powi 52 \<le> \<bar>f_val x\<bar>" 
  obtains k where "f_val x = of_int k"
proof -
  have b: "0 \<le> f_bits x" using f_bits_range by simp
  obtain m q where p: "mag (f_bits x) = of_int m * 2 powi q" "0 \<le> m" "m < 2 ^ 53"
    using mag_parts [OF b] by metis
  have a: "\<bar>f_val x\<bar> = of_int m * 2 powi q" using p(1) mag_nonneg [OF b] by (simp add: f_val_def)
  have "0 \<le> q"
  proof (rule ccontr)
    assume "\<not> 0 \<le> q"
    then have "of_int m * (2::rat) powi q < of_int (2 ^ 53) * 2 powi q"
      using p by (intro mult_strict_right_mono) (simp_all only: of_int_less_iff p2_pos)
    also have "\<dots> = 2 powi (53 + q)" by (simp add: p2_add p2_nat)
    also have "\<dots> \<le> 2 powi 52" unfolding p2_le_iff using \<open>\<not> 0 \<le> q\<close> by simp
    finally show False using assms a by simp
  qed
  then have "\<bar>f_val x\<bar> = of_int (m * 2 ^ nat q)" unfolding a by (simp add: p2_nat)
  then have "f_val x = of_int (m * 2 ^ nat q) \<or> f_val x = of_int (- (m * 2 ^ nat q))" by (auto simp: abs_if split: if_splits)
  then show ?thesis using that by blast
qed

lemma f_val_round:
  assumes "f_fin x" "0 \<le> f_val x"
  shows "f_val (f_round x) = of_int \<lfloor>f_val x + 1 / 2\<rfloor>" and "f_fin (f_round x)"
proof -
  have half: "\<lfloor>1 / 2 :: rat\<rfloor> = 0" by (simp add: floor_eq_iff)
  have sx: "f_val x \<noteq> 0 \<Longrightarrow> \<not> f_sign x" using assms mag_nonneg [of "f_bits x"] f_bits_range [of x] by (auto simp: f_val_def)
  have main: "f_val (f_round x) = of_int \<lfloor>f_val x + 1 / 2\<rfloor> \<and> f_fin (f_round x)"
  proof (cases "f_val x = 0")
    case True
    then show ?thesis using assms half by (simp add: f_round_def)
  next
    case nz: False
    let ?n = "\<lfloor>f_val x + 1 / 2\<rfloor>"
    have n: "0 \<le> ?n" using assms by simp
    have r: "f_round x = (if ?n = 0 then pack False 0 else rnd (of_int ?n))"
      using nz sx assms f_fin_not [OF assms(1)] by (simp add: f_round_def Let_def)
    have ex: "R (of_int ?n) = of_int ?n \<and> (of_int ?n :: rat) < f_lim"
    proof (cases "2 powi 52 \<le> \<bar>f_val x\<bar>")
      case True
      then obtain k where k: "f_val x = of_int k" by (rule f_val_integer)
      then have "?n = k" by linarith
      then show ?thesis using k assms R_f_val [of x] f_fin_not [OF assms(1)] f_fin_iff [of x] by (simp add: abs_less_iff)
    next
      case False
      then have "f_val x < of_int (2 ^ 52)" using assms by (simp add: p2_nat)
      then have "?n \<le> 2 ^ 52" by (simp add: floor_le_iff)
      then have m: "\<bar>?n\<bar> < 2 ^ 53" using n by simp
      then show ?thesis using f_of_int [OF m] by (simp add: f_fin_iff abs_less_iff)
    qed
    show ?thesis
    proof (cases "?n = 0")
      case False
      then show ?thesis using r ex n by (simp add: f_val_rnd f_fin_iff)
    qed (simp add: r)
  qed
  show "f_val (f_round x) = of_int \<lfloor>f_val x + 1 / 2\<rfloor>" "f_fin (f_round x)" using main by blast+
qed

end
