(* ===== verification/Float64_Eval.thy ===== *)
theory Float64_Eval
  imports Float64
begin

text \<open>
  Code equations for the float64 operations on integers only, proved equal to the definitions of
  \<open>Float64\<close> over the rationals. They make the kernel evaluate a concrete run of the
  program in seconds: a value is a pair of an integer mantissa and an exponent of two, and a
  result is rounded by one integer division by a power of two (by one integer division for
  \<open>/\<close> and for literals).
\<close>

section \<open>Powers of two and bit lengths by recursion on binary numerals\<close>

primrec p2_num :: "num \<Rightarrow> int" where
  "p2_num num.One = 2"
| "p2_num (num.Bit0 k) = (let p = p2_num k in p * p)"
| "p2_num (num.Bit1 k) = (let p = p2_num k in 2 * (p * p))"

primrec blen_num :: "num \<Rightarrow> int" where
  "blen_num num.One = 1"
| "blen_num (num.Bit0 k) = blen_num k + 1"
| "blen_num (num.Bit1 k) = blen_num k + 1"

definition p2i :: "int \<Rightarrow> int" where
  "p2i i = 2 ^ nat i"

definition blen :: "int \<Rightarrow> int" where
  "blen i = bitlen i"

lemma p2_num: "p2_num k = 2 ^ numeral k"
  by (induction k) (simp_all add: power_numeral_even power_numeral_odd Let_def mult.assoc)

lemma p2i_code [code]:
  "p2i (Int.Pos k) = p2_num k" "p2i (Int.Neg k) = 1" "p2i 0 = 1"
  by (simp_all add: p2i_def p2_num)

lemma blen_num: "blen_num k = bitlen (numeral k)"
proof (induction k)
  case One
  show ?case by (subst compute_bitlen) (simp add: bitlen_def floorlog_def)
next
  case (Bit0 k)
  then show ?case by (subst compute_bitlen) simp
next
  case (Bit1 k)
  then show ?case by (subst compute_bitlen) simp
qed

lemma blen_code [code]:
  "blen (Int.Pos k) = blen_num k" "blen (Int.Neg k) = 0" "blen 0 = 0"
  by (simp_all add: blen_def blen_num bitlen_def floorlog_def)

lemma p2i_powi: "0 \<le> i \<Longrightarrow> of_int (p2i i) = (2::rat) powi i"
  by (simp add: p2i_def p2_nat)

lemma p2i_pos [simp]: "0 < p2i i"
  by (simp add: p2i_def)

section \<open>Rounding a dyadic number\<close>

definition rnd_half :: "int \<Rightarrow> int \<Rightarrow> int" where
  "rnd_half n d = (let m = n div d; r = 2 * (n mod d) in
     if r < d then m else if d < r then m + 1 else if even m then m else m + 1)"

lemma round_even_div: 
  assumes "0 < d"
  shows "round_even (of_int n / of_int d) = rnd_half n d"
proof -
  have f: "\<lfloor>of_int n / (of_int d :: rat)\<rfloor> = n div d" by (rule floor_divide_of_int_eq)
  have "n = n div d * d + n mod d" by simp
  then have "(of_int n :: rat) = of_int (n div d) * of_int d + of_int (n mod d)"
    by (metis of_int_add of_int_mult)
  then have r: "of_int n / of_int d - of_int (n div d) = (of_int (n mod d) :: rat) / of_int d"
    using assms by (simp add: field_simps)
  have two: "2 * (of_int k :: rat) = of_int (2 * k)" for k by simp
  have lt: "(of_int (n mod d) :: rat) / of_int d < 1 / 2 \<longleftrightarrow> 2 * (n mod d) < d"
  proof -
    have "(of_int (n mod d) :: rat) / of_int d < 1 / 2 \<longleftrightarrow> 2 * (of_int (n mod d) :: rat) < of_int d"
      using assms by (simp add: field_simps)
    then show ?thesis unfolding two of_int_less_iff .
  qed
  have gt: "1 / 2 < (of_int (n mod d) :: rat) / of_int d \<longleftrightarrow> d < 2 * (n mod d)"
  proof -
    have "1 / 2 < (of_int (n mod d) :: rat) / of_int d \<longleftrightarrow> of_int d < 2 * (of_int (n mod d) :: rat)"
      using assms by (simp add: field_simps)
    then show ?thesis unfolding two of_int_less_iff .
  qed
  show ?thesis unfolding round_even_def rnd_half_def Let_def f r lt gt ..
qed

definition pack_rnd :: "bool \<Rightarrow> int \<Rightarrow> int \<Rightarrow> f64" where
  "pack_rnd s q m = (let b = (q + 1074) * 4503599627370496 + m in
     F64 (word_of_int ((if s then 9223372036854775808 else 0)
       + (if b < 9218868437227405312 then b else 9218868437227405312))))"

lemma pack_rnd:
  assumes "x \<noteq> 0" "ulp_exp \<bar>x\<bar> = q" "rmant \<bar>x\<bar> = m"
  shows "rnd x = pack_rnd (x < 0) q m"
proof -
  have m: "(if b < 9218868437227405312 then b else 9218868437227405312) = min b (2047 * 2 ^ 52)" for b :: int
    by simp
  show ?thesis
    unfolding rnd_def pack_rnd_def pack_def Let_def m assms(2,3)
    using assms(1) by (cases "x < 0") simp_all
qed

definition rnd_dy :: "int \<Rightarrow> int \<Rightarrow> f64" where
  "rnd_dy M p = (if M = 0 then F64 0 else
     let n = \<bar>M\<bar>; q = max (blen n + p - 53) (- 1074) in
       if q \<le> p then pack_rnd (M < 0) q (n * p2i (p - q))
       else pack_rnd (M < 0) q (rnd_half n (p2i (q - p))))"

lemma ulp_exp_dyadic:
  assumes "1 \<le> n"
  shows "ulp_exp (of_int n * 2 powi p) = max (blen n + p - 53) (- 1074)"
proof -
  have "ilog2 (of_int n * 2 powi p) = blen n - 1 + p"
  proof (rule ilog2_unique)
    have b: "2 powi (blen n - 1) \<le> (of_int n :: rat)" "(of_int n :: rat) < 2 powi blen n"
      using bitlen_p2 [OF assms] by (simp_all add: blen_def)
    show "2 powi (blen n - 1 + p) \<le> (of_int n :: rat) * 2 powi p"
      unfolding p2_add using b by (intro mult_right_mono) auto
    have "(of_int n :: rat) * 2 powi p < 2 powi blen n * 2 powi p"
      using b by (intro mult_strict_right_mono) auto
    then show "(of_int n :: rat) * 2 powi p < 2 powi (blen n - 1 + p + 1)"
      by (simp flip: p2_add)
  qed
  then show ?thesis by (simp add: ulp_exp_def)
qed

lemma rnd_dy: "rnd_dy M p = rnd (of_int M * 2 powi p)"
proof (cases "M = 0")
  case True
  then show ?thesis by (simp add: rnd_dy_def rnd_def pack_def)
next
  case False
  let ?n = "\<bar>M\<bar>" let ?q = "max (blen ?n + p - 53) (- 1074)" let ?x = "(of_int M :: rat) * 2 powi p"
  have a: "\<bar>?x\<bar> = of_int ?n * 2 powi p" by (simp add: abs_mult)
  have s: "?x < 0 \<longleftrightarrow> M < 0" by (simp add: mult_less_0_iff)
  have q: "ulp_exp \<bar>?x\<bar> = ?q" unfolding a by (rule ulp_exp_dyadic) (use False in simp)
  have m: "rmant \<bar>?x\<bar> = (if ?q \<le> p then ?n * p2i (p - ?q) else rnd_half ?n (p2i (?q - p)))"
  proof -
    have sc: "\<bar>?x\<bar> * 2 powi (- ?q) = of_int ?n * 2 powi (p - ?q)"
      unfolding a mult.assoc by (simp flip: p2_add)
    show ?thesis
    proof (cases "?q \<le> p")
      case True
      then have "\<bar>?x\<bar> * 2 powi (- ?q) = of_int (?n * p2i (p - ?q))"
        unfolding sc by (simp add: p2i_powi)
      then show ?thesis using True unfolding rmant_def q by (simp only: round_even_of_int if_True)
    next
      case qp: False
      have "2 powi (p - ?q) = 1 / (2::rat) powi (?q - p)" by (simp add: power_int_minus_divide [symmetric])
      also have "\<dots> = 1 / of_int (p2i (?q - p))" using qp by (subst p2i_powi) linarith+
      finally have "\<bar>?x\<bar> * 2 powi (- ?q) = of_int ?n / of_int (p2i (?q - p))"
        unfolding sc by simp
      then show ?thesis using qp unfolding rmant_def q
        by (simp only: round_even_div [OF p2i_pos] if_False)
    qed
  qed
  have "?x \<noteq> 0" using False by simp
  from pack_rnd [OF this q m] False show ?thesis by (simp add: rnd_dy_def s Let_def)
qed

section \<open>Rounding a quotient\<close>

definition rnd_frac :: "int \<Rightarrow> int \<Rightarrow> f64" where
  "rnd_frac n d = (if n = 0 then F64 0 else
     let a = \<bar>n\<bar>; k = blen a - blen d;
         e = (if (if 0 \<le> k then d * p2i k \<le> a else d \<le> a * p2i (- k)) then k else k - 1);
         q = max (e - 52) (- 1074)
     in pack_rnd (n < 0) q (if 0 \<le> q then rnd_half a (d * p2i q) else rnd_half (a * p2i (- q)) d))"

lemma ilog2_quotient:
  assumes "1 \<le> a" "1 \<le> d"
  defines "k \<equiv> blen a - blen d"
  shows "ilog2 (of_int a / of_int d)
    = (if (if 0 \<le> k then d * p2i k \<le> a else d \<le> a * p2i (- k)) then k else k - 1)"
proof -
  let ?y = "(of_int a / of_int d :: rat)"
  have d: "(0::rat) < of_int d" using assms by simp
  have ba: "2 powi (blen a - 1) \<le> (of_int a :: rat)" "(of_int a :: rat) < 2 powi blen a"
    and bd: "2 powi (blen d - 1) \<le> (of_int d :: rat)" "(of_int d :: rat) < 2 powi blen d"
    using bitlen_p2 [OF assms(1)] bitlen_p2 [OF assms(2)] by (simp_all add: blen_def)
  have lo: "2 powi (k - 1) \<le> ?y"
  proof -
    have "2 powi (k - 1) * of_int d \<le> (2::rat) powi (k - 1) * 2 powi blen d"
      using bd by (intro mult_left_mono) auto
    also have "\<dots> = 2 powi (blen a - 1)" unfolding k_def by (simp flip: p2_add)
    also have "\<dots> \<le> of_int a" by (rule ba)
    finally show ?thesis using d by (simp add: field_simps)
  qed
  have hi: "?y < 2 powi (k + 1)"
  proof -
    have "(of_int a :: rat) < 2 powi (k + 1) * 2 powi (blen d - 1)"
      using ba unfolding k_def by (simp flip: p2_add)
    also have "\<dots> \<le> 2 powi (k + 1) * of_int d" using bd by (intro mult_left_mono) auto
    finally show ?thesis using d by (simp add: field_simps)
  qed
  have test: "(if 0 \<le> k then d * p2i k \<le> a else d \<le> a * p2i (- k)) \<longleftrightarrow> 2 powi k \<le> ?y"
  proof (cases "0 \<le> k")
    case True
    have "2 powi k \<le> ?y \<longleftrightarrow> of_int (d * p2i k) \<le> (of_int a :: rat)"
      using d True by (simp add: field_simps p2i_powi)
    then show ?thesis using True by (simp only: of_int_le_iff if_True)
  next
    case False
    have inv: "(2::rat) powi k = 1 / of_int (p2i (- k))"
      using False by (simp add: p2i_powi power_int_minus_divide [symmetric])
    have "(0::rat) < of_int (p2i (- k))" by simp
    then have "2 powi k \<le> ?y \<longleftrightarrow> of_int d \<le> (of_int (a * p2i (- k)) :: rat)"
      unfolding inv using d by (simp add: field_simps)
    then show ?thesis using False by (simp only: of_int_le_iff if_False)
  qed
  show ?thesis
  proof (cases "2 powi k \<le> ?y")
    case True
    with hi have "ilog2 ?y = k" by (intro ilog2_unique)
    then show ?thesis using test True by simp
  next
    case False
    with lo have "ilog2 ?y = k - 1" by (intro ilog2_unique) auto
    then show ?thesis using test False by simp
  qed
qed

lemma rnd_frac:
  assumes "1 \<le> d"
  shows "rnd_frac n d = rnd (of_int n / of_int d)"
proof (cases "n = 0")
  case True
  then show ?thesis by (simp add: rnd_frac_def rnd_def pack_def)
next
  case False
  define a where "a = \<bar>n\<bar>"
  define e where "e = ilog2 (of_int a / of_int d)"
  define q where "q = max (e - 52) (- 1074)"
  let ?x = "(of_int n / of_int d :: rat)"
  let ?m = "if 0 \<le> q then rnd_half a (d * p2i q) else rnd_half (a * p2i (- q)) d"
  have dp: "(0::rat) < of_int d" using assms by simp
  have x: "\<bar>?x\<bar> = of_int a / of_int d" unfolding a_def using dp by simp
  have q: "ulp_exp \<bar>?x\<bar> = q" unfolding x ulp_exp_def q_def e_def ..
  have m: "rmant \<bar>?x\<bar> = ?m"
  proof (cases "0 \<le> q")
    case True
    have "(2::rat) powi (- q) = 1 / of_int (p2i q)"
      using True by (simp only: p2i_powi power_int_minus_divide)
    then have "\<bar>?x\<bar> * 2 powi (- q) = of_int a / of_int (d * p2i q)" unfolding x by simp
    moreover have "0 < d * p2i q" using assms by simp
    ultimately show ?thesis using True by (simp only: rmant_def q round_even_div if_True)
  next
    case neg: False
    then have "(2::rat) powi (- q) = of_int (p2i (- q))" by (subst p2i_powi) linarith+
    then have "\<bar>?x\<bar> * 2 powi (- q) = of_int (a * p2i (- q)) / of_int d" unfolding x by simp
    moreover have "0 < d" using assms by simp
    ultimately show ?thesis using neg by (simp only: rmant_def q round_even_div if_False)
  qed
  have "rnd ?x = pack_rnd (?x < 0) q ?m" using False dp by (intro pack_rnd q m) simp
  also have "(?x < 0) = (n < 0)" using dp by (simp add: divide_less_0_iff not_less)
  also have "pack_rnd (n < 0) q ?m = rnd_frac n d"
  proof -
    have "1 \<le> a" unfolding a_def using False by linarith
    from ilog2_quotient [OF this assms] show ?thesis
      unfolding rnd_frac_def Let_def a_def [symmetric] q_def e_def using False by (simp only: if_False)
  qed
  finally show ?thesis ..
qed

lemma lit_code [code]: "lit n d = (if 0 < d then rnd_frac n d else rnd (of_int n / of_int d))"
  by (simp add: lit_def rnd_frac)

lemma f_of_int_code [code]: "f_of_int i = rnd_dy i 0"
  by (simp add: f_of_int_def rnd_dy)

section \<open>Decoding operands\<close>

abbreviation f_INF :: int where
  "f_INF \<equiv> 9218868437227405312"

definition fparts :: "f64 \<Rightarrow> bool \<times> int" where
  "fparts x = (f_sign x, f_bits x)"

lemma fparts_code [code]:
  "fparts x = (let u = uint (Float64bits x) in
     if 9223372036854775808 \<le> u then (True, u - 9223372036854775808) else (False, u))"
  using uint_split [of x] by (auto simp: fparts_def f_sign_def Let_def)

definition dec_mag :: "int \<Rightarrow> int \<times> int" where
  "dec_mag b = (let e = b div 4503599627370496; f = b mod 4503599627370496 in
     if e = 0 then (f, - 1074) else (4503599627370496 + f, e - 1075))"

definition fdec :: "bool \<Rightarrow> int \<Rightarrow> int \<times> int" where
  "fdec s b = (case dec_mag b of (m, q) \<Rightarrow> (if s then - m else m, q))"

lemma dec_mag: "dec_mag b = (m, q) \<Longrightarrow> mag b = of_int m * 2 powi q"
  by (auto simp: dec_mag_def mag_def Let_def split: if_splits)

lemma fdec: "fdec (f_sign x) (f_bits x) = (m, q) \<Longrightarrow> f_val x = of_int m * 2 powi q"
  by (cases "dec_mag (f_bits x)") (auto simp: fdec_def f_val_def dest: dec_mag)

lemma bits_conv:
  "f_nan x \<longleftrightarrow> f_INF < f_bits x" "f_inf x \<longleftrightarrow> f_bits x = f_INF" "f_fin x \<longleftrightarrow> f_bits x < f_INF"
  by (simp_all add: f_nan_def f_inf_def f_fin_def)

lemma f_nan_code [code]: "f_nan x = (case fparts x of (s, b) \<Rightarrow> f_INF < b)"
  and f_inf_code [code]: "f_inf x = (case fparts x of (s, b) \<Rightarrow> b = f_INF)"
  and f_fin_code [code]: "f_fin x = (case fparts x of (s, b) \<Rightarrow> b < f_INF)"
  and f_sign_code [code]: "f_sign x = (case fparts x of (s, b) \<Rightarrow> s)"
  by (simp_all add: fparts_def bits_conv)

lemma pack_code [code]:
  "pack s b = F64 (word_of_int (if s then 9223372036854775808 + b else b))"
  by (simp add: pack_def)

lemma f_Inf_code [code]: "f_Inf s = pack s f_INF"
  by (simp add: f_Inf_def)

lemma one_f64_code [code]: "1 = F64 0x3FF0000000000000"
proof -
  have u: "ulp_exp 1 = - 52" using ilog2_unique [of 0 1] by (simp add: ulp_exp_def)
  have "rmant 1 = 4503599627370496"
    unfolding rmant_def u using round_even_of_int [of 4503599627370496] by (simp add: power_int_def)
  then show ?thesis by (simp add: one_f64_def rnd_def pack_def u)
qed

section \<open>Code equations of the operations\<close>

lemma plus_f64_code [code]:
  "x + y = (case fparts x of (s, b) \<Rightarrow> case fparts y of (t, c) \<Rightarrow>
     if f_INF < b \<or> f_INF < c then f_NaN
     else if b = f_INF then (if c = f_INF \<and> s \<noteq> t then f_NaN else x)
     else if c = f_INF then y
     else case fdec s b of (m, p) \<Rightarrow> case fdec t c of (n, q) \<Rightarrow>
       let r = (if m = 0 then q else if n = 0 then p else min p q);
           k = m * p2i (p - r) + n * p2i (q - r) in
       if k = 0 then pack (s \<and> t) 0 else rnd_dy k r)"
proof -
  obtain m p where x: "fdec (f_sign x) (f_bits x) = (m, p)" by fastforce
  obtain n q where y: "fdec (f_sign y) (f_bits y) = (n, q)" by fastforce
  define r where "r = (if m = 0 then q else if n = 0 then p else min p q)"
  define k where "k = m * p2i (p - r) + n * p2i (q - r)"
  have sc: "2 powi i = of_int (p2i (i - r)) * (2::rat) powi r" if "r \<le> i" for i
    using that by (simp add: p2i_powi flip: p2_add)
  have "f_val x + f_val y = of_int m * 2 powi p + of_int n * 2 powi q"
    by (simp add: fdec [OF x] fdec [OF y])
  also have "\<dots> = of_int k * 2 powi r"
  proof -
    have z: "of_int m * 2 powi p = of_int m * (of_int (p2i (p - r)) * (2::rat) powi r)"
      using sc [of p] by (cases "m = 0") (simp_all add: r_def)
    have w: "of_int n * 2 powi q = of_int n * (of_int (p2i (q - r)) * (2::rat) powi r)"
      using sc [of q] by (cases "n = 0") (simp_all add: r_def)
    show ?thesis unfolding z w k_def by (simp add: algebra_simps)
  qed
  finally have sum: "f_val x + f_val y = of_int k * 2 powi r" .
  show ?thesis
    unfolding plus_f64_def fparts_def prod.case x y Let_def r_def [symmetric] k_def [symmetric] sum
      rnd_dy bits_conv by simp
qed

lemma minus_f64_code [code]: "x - y = x + (- y :: f64)"
  by (simp add: minus_f64_def)

lemma uminus_f64_code [code]: "- x = F64 (Float64bits x + 9223372036854775808)"
  by (simp add: uminus_f64_def)

lemma times_f64_code [code]:
  "x * y = (case fparts x of (s, b) \<Rightarrow> case fparts y of (t, c) \<Rightarrow>
     if f_INF < b \<or> f_INF < c then f_NaN
     else if b = f_INF \<or> c = f_INF then (if b = 0 \<or> c = 0 then f_NaN else f_Inf (s \<noteq> t))
     else if b = 0 \<or> c = 0 then pack (s \<noteq> t) 0
     else case fdec s b of (m, p) \<Rightarrow> case fdec t c of (n, q) \<Rightarrow> rnd_dy (m * n) (p + q))"
proof -
  obtain m p where x: "fdec (f_sign x) (f_bits x) = (m, p)" by fastforce
  obtain n q where y: "fdec (f_sign y) (f_bits y) = (n, q)" by fastforce
  have z: "f_val z = 0 \<longleftrightarrow> f_bits z = 0" for z
    using f_bits_range [of z] mag_eq_iff [of "f_bits z" 0] by (simp add: f_val_def)
  have "f_val x * f_val y = of_int (m * n) * 2 powi (p + q)"
    by (simp add: fdec [OF x] fdec [OF y] p2_add)
  then show ?thesis
    unfolding times_f64_def fparts_def prod.case x y rnd_dy bits_conv z Let_def by simp
qed

definition rnd_ratio :: "bool \<Rightarrow> int \<Rightarrow> int \<Rightarrow> int \<Rightarrow> int \<Rightarrow> f64" where
  "rnd_ratio s m p n q = (let a = (if s then - m else m) in
     if q \<le> p then rnd_frac (a * p2i (p - q)) n else rnd_frac a (n * p2i (q - p)))"

lemma rnd_ratio:
  assumes "1 \<le> n"
  shows "rnd_ratio s m p n q = rnd ((if s then - of_int m else of_int m) * 2 powi p / (of_int n * 2 powi q))"
proof -
  define a where "a = (if s then - m else m)"
  have a: "(if s then - of_int m else of_int m) = (of_int a :: rat)" by (simp add: a_def)
  show ?thesis
  proof (cases "q \<le> p")
    case True
    have "(of_int a :: rat) * 2 powi p / (of_int n * 2 powi q) = of_int (a * p2i (p - q)) / of_int n"
    proof -
      have "(2::rat) powi p = of_int (p2i (p - q)) * 2 powi q" using True by (simp add: p2i_powi flip: p2_add)
      then show ?thesis by simp
    qed
    then show ?thesis using True rnd_frac [OF assms] by (simp add: rnd_ratio_def a_def [symmetric] a)
  next
    case False
    have "(of_int a :: rat) * 2 powi p / (of_int n * 2 powi q) = of_int a / of_int (n * p2i (q - p))"
    proof -
      have "(2::rat) powi q = of_int (p2i (q - p)) * 2 powi p" using False by (simp add: p2i_powi flip: p2_add)
      then show ?thesis by simp
    qed
    moreover have "1 \<le> n * p2i (q - p)" using assms p2i_pos [of "q - p"] by (simp add: int_one_le_iff_zero_less)
    ultimately show ?thesis using False rnd_frac by (simp add: rnd_ratio_def a_def [symmetric] a)
  qed
qed

lemma divide_f64_code [code]:
  "x / y = (case fparts x of (s, b) \<Rightarrow> case fparts y of (t, c) \<Rightarrow>
     if f_INF < b \<or> f_INF < c then f_NaN
     else if b = f_INF then (if c = f_INF then f_NaN else f_Inf (s \<noteq> t))
     else if c = f_INF then pack (s \<noteq> t) 0
     else if c = 0 then (if b = 0 then f_NaN else f_Inf (s \<noteq> t))
     else if b = 0 then pack (s \<noteq> t) 0
     else case dec_mag b of (m, p) \<Rightarrow> case dec_mag c of (n, q) \<Rightarrow> rnd_ratio (s \<noteq> t) m p n q)"
proof -
  obtain m p where x: "dec_mag (f_bits x) = (m, p)" by fastforce
  obtain n q where y: "dec_mag (f_bits y) = (n, q)" by fastforce
  have mag: "mag (f_bits x) = of_int m * 2 powi p" "mag (f_bits y) = of_int n * 2 powi q"
    using x y by (auto dest: dec_mag)
  have z: "f_val z = 0 \<longleftrightarrow> f_bits z = 0" for z
    using f_bits_range [of z] mag_eq_iff [of "f_bits z" 0] by (simp add: f_val_def)
  have r: "rnd (f_val x / f_val y) = rnd_ratio (f_sign x \<noteq> f_sign y) m p n q" if "f_bits y \<noteq> 0"
  proof -
    have "0 < mag (f_bits y)" using mag_strict_mono [of 0 "f_bits y"] f_bits_range [of y] that by simp
    then have "1 \<le> n" unfolding mag by (simp add: zero_less_mult_iff)
    then show ?thesis by (simp add: rnd_ratio f_val_def mag)
  qed
  show ?thesis
    unfolding divide_f64_def fparts_def prod.case x y bits_conv z Let_def using r by simp
qed

lemma f_val_key: "f_val x < f_val y \<longleftrightarrow>
    (if f_sign x then - f_bits x else f_bits x) < (if f_sign y then - f_bits y else f_bits y)"
proof -
  have m: "mag (f_bits x) < mag (f_bits y) \<longleftrightarrow> f_bits x < f_bits y" "mag (f_bits y) < mag (f_bits x) \<longleftrightarrow> f_bits y < f_bits x"
    "mag (f_bits z) = 0 \<longleftrightarrow> f_bits z = 0" for z
    using f_bits_range [of x] f_bits_range [of y] f_bits_range [of z] mag_less_iff mag_eq_iff [of "f_bits z" 0] by simp_all
  have n: "0 \<le> mag (f_bits z)" "0 \<le> f_bits z" for z using f_bits_range [of z] by (simp_all add: mag_nonneg)
  consider "f_sign x" "f_sign y" | "f_sign x" "\<not> f_sign y" | "\<not> f_sign x" "f_sign y" | "\<not> f_sign x" "\<not> f_sign y" by blast
  then show ?thesis
  proof cases
    case 2
    then show ?thesis using n [of x] n [of y] m(3) [of x] m(3) [of y] by (simp add: f_val_def) linarith
  next
    case 3
    then show ?thesis using n [of x] n [of y] by (simp add: f_val_def)
  qed (simp_all add: f_val_def m)
qed

definition fkey :: "f64 \<Rightarrow> int option" where
  "fkey x = (case fparts x of (s, b) \<Rightarrow> if f_INF < b then None else Some (if s then - b else b))"

lemma fkey: "fkey x = (if f_nan x then None else Some (if f_sign x then - f_bits x else f_bits x))"
  by (simp add: fkey_def fparts_def bits_conv)

lemma less_f64_code [code]:
  "x < (y :: f64) \<longleftrightarrow> (case fkey x of None \<Rightarrow> False | Some a \<Rightarrow> (case fkey y of None \<Rightarrow> False | Some b \<Rightarrow> a < b))"
  by (simp add: less_f64_def fkey f_val_key)

lemma less_eq_f64_code [code]:
  "x \<le> (y :: f64) \<longleftrightarrow> (case fkey x of None \<Rightarrow> False | Some a \<Rightarrow> (case fkey y of None \<Rightarrow> False | Some b \<Rightarrow> a \<le> b))"
  using f_val_key [of y x] by (simp add: less_eq_f64_def fkey not_less [symmetric] del: not_less)

lemma feq_code [code]:
  "feq x y \<longleftrightarrow> (case fkey x of None \<Rightarrow> False | Some a \<Rightarrow> (case fkey y of None \<Rightarrow> False | Some b \<Rightarrow> a = b))"
  using f_val_key [of x y] f_val_key [of y x]
  by (auto simp: feq_def fkey)

lemma f_round_code [code]:
  "f_round x = (case fparts x of (s, b) \<Rightarrow> if f_INF \<le> b \<or> b = 0 then x
     else case dec_mag b of (m, q) \<Rightarrow>
       let n = (if 0 \<le> q then m * p2i q else (2 * m + p2i (- q)) div (2 * p2i (- q))) in
       if n = 0 then pack s 0 else rnd_dy (if s then - n else n) 0)"
proof -
  obtain m q where d: "dec_mag (f_bits x) = (m, q)" by fastforce
  have z: "f_val x = 0 \<longleftrightarrow> f_bits x = 0"
    using f_bits_range [of x] mag_eq_iff [of "f_bits x" 0] by (simp add: f_val_def)
  have a: "\<bar>f_val x\<bar> = of_int m * 2 powi q"
    using dec_mag [OF d] mag_nonneg [of "f_bits x"] f_bits_range [of x] by (simp add: f_val_def)
  have n: "\<lfloor>\<bar>f_val x\<bar> + 1 / 2\<rfloor> = (if 0 \<le> q then m * p2i q else (2 * m + p2i (- q)) div (2 * p2i (- q)))"
  proof (cases "0 \<le> q")
    case True
    have "\<bar>f_val x\<bar> + 1 / 2 = of_int (m * p2i q) + 1 / 2" unfolding a using True by (simp add: p2i_powi)
    then have "\<lfloor>\<bar>f_val x\<bar> + 1 / 2\<rfloor> = m * p2i q" by linarith
    then show ?thesis using True by simp
  next
    case False
    define P where "P = p2i (- q)"
    have P: "(0::rat) < of_int P" by (simp add: P_def)
    have "(2::rat) powi q = 1 / of_int P"
      using False by (simp add: P_def p2i_powi power_int_minus_divide [symmetric])
    then have "\<bar>f_val x\<bar> + 1 / 2 = of_int (2 * m + P) / of_int (2 * P)" unfolding a using P by (simp add: field_simps)
    then show ?thesis using False unfolding P_def [symmetric] by (simp only: floor_divide_of_int_eq if_False)
  qed
  have c: "f_INF \<le> f_bits x \<or> f_bits x = 0 \<longleftrightarrow> f_nan x \<or> f_inf x \<or> f_val x = 0"
    unfolding bits_conv z by auto
  show ?thesis
    unfolding f_round_def fparts_def prod.case d n c Let_def rnd_dy by simp
qed

lemma f_trunc_code [code]:
  "f_trunc x = (case fparts x of (s, b) \<Rightarrow> if f_INF \<le> b then 0x8000000000000000
     else case dec_mag b of (m, q) \<Rightarrow>
       let k = (if 0 \<le> q then m * p2i q else m div p2i (- q)); t = (if s then - k else k) in
       if t < - 9223372036854775808 \<or> 9223372036854775808 \<le> t then 0x8000000000000000 else word_of_int t)"
proof -
  obtain m q where d: "dec_mag (f_bits x) = (m, q)" by fastforce
  have a: "\<bar>f_val x\<bar> = of_int m * 2 powi q"
    using dec_mag [OF d] mag_nonneg [of "f_bits x"] f_bits_range [of x] by (simp add: f_val_def)
  have n: "\<lfloor>\<bar>f_val x\<bar>\<rfloor> = (if 0 \<le> q then m * p2i q else m div p2i (- q))"
  proof (cases "0 \<le> q")
    case True
    have "\<bar>f_val x\<bar> = of_int (m * p2i q)" unfolding a using True by (simp add: p2i_powi)
    then show ?thesis using True by (simp only: floor_of_int if_True)
  next
    case False
    have "(2::rat) powi q = 1 / of_int (p2i (- q))"
      using False by (simp add: p2i_powi power_int_minus_divide [symmetric])
    then have "\<bar>f_val x\<bar> = of_int m / of_int (p2i (- q))" unfolding a by simp
    then show ?thesis using False by (simp only: floor_divide_of_int_eq if_False)
  qed
  have c: "f_INF \<le> f_bits x \<longleftrightarrow> f_nan x \<or> f_inf x" unfolding bits_conv by auto
  have m: "(word_of_int (- (2 ^ 63)) :: 64 word) = 0x8000000000000000" by simp
  show ?thesis
    unfolding f_trunc_def fparts_def prod.case d n c Let_def m by simp
qed

end
