(* ===== verification/GoLib.thy ===== *)
theory GoLib
  imports Float64_Eval "HOL-Library.Signed_Division"
begin

text \<open>
  What the program uses of Go's integers, strings and calendar: \<open>int\<close> and
  \<open>int64\<close> as 64-bit words read as two's complement by \<open>sint\<close>, division that
  truncates, decimal printing, and the UTC year and month of a Unix time in the proleptic
  Gregorian calendar.
\<close>

section \<open>64-bit integers\<close>

type_synonym i64 = "64 word"

definition i_quot :: "i64 \<Rightarrow> i64 \<Rightarrow> i64" where
  "i_quot a b = word_of_int (sint a sdiv sint b)"

definition f_of_i64 :: "i64 \<Rightarrow> f64" where
  "f_of_i64 i = f_of_int (sint i)"

lemma sint64_range: "- (2 ^ 63) \<le> sint (w :: i64) \<and> sint w < 2 ^ 63"
  using sint_range_size [of w] by (simp add: word_size)

lemma sint64_of_int: "- (2 ^ 63) \<le> k \<Longrightarrow> k < 2 ^ 63 \<Longrightarrow> sint (word_of_int k :: i64) = k"
  by (simp add: sint_sbintrunc' signed_take_bit_int_eq_self)

lemma sdiv_pos:
  fixes a b :: int
  assumes "0 < b"
  shows "a sdiv b = (if a < 0 then - (- a div b) else a div b)"
  using assms by (simp add: signed_divide_int_def sgn_if)

lemma sint_i_quot:
  assumes "0 < sint b"
  shows "sint (i_quot a b) = (if sint a < 0 then - (- sint a div sint b) else sint a div sint b)"
proof -
  have k: "0 \<le> k div sint b \<and> k div sint b \<le> k" if "0 \<le> k" for k
    using that assms zdiv_mono2 [of k 1 "sint b"] by (simp add: pos_imp_zdiv_nonneg_iff)
  have "- (2 ^ 63) \<le> sint a sdiv sint b \<and> sint a sdiv sint b < 2 ^ 63"
    using k [of "sint a"] k [of "- sint a"] sint64_range [of a]
    by (cases "sint a < 0") (simp_all add: sdiv_pos [OF assms])
  then have "- (2 ^ 63) \<le> sint a sdiv sint b" "sint a sdiv sint b < 2 ^ 63" by blast+
  then have "sint (i_quot a b) = sint a sdiv sint b"
    unfolding i_quot_def by (rule sint64_of_int)
  then show ?thesis using assms by (simp add: sdiv_pos)
qed

section \<open>Decimal printing\<close>

definition digit :: "int \<Rightarrow> char" where
  "digit d = ''0123456789'' ! nat d"

function show_nat :: "int \<Rightarrow> string" where
  "show_nat n = (if n < 10 then [digit n] else show_nat (n div 10) @ [digit (n mod 10)])"
  by pat_completeness auto
termination
  by (relation "measure nat") auto

declare show_nat.simps [simp del]

definition show_int :: "int \<Rightarrow> string" where
  "show_int i = (if i < 0 then ''-'' @ show_nat (- i) else show_nat i)"

text \<open>The verb \<open>%02d\<close> on a number that is not negative.\<close>

definition pad2 :: "int \<Rightarrow> string" where
  "pad2 i = (if 0 \<le> i \<and> i < 10 then ''0'' @ show_int i else show_int i)"

section \<open>The calendar\<close>

definition days_before :: "int \<Rightarrow> int" where
  "days_before y = 365 * y + y div 4 - y div 100 + y div 400"

definition march_year :: "int \<Rightarrow> int" where
  "march_year z = (let y = 400 * z div 146097 in if days_before (y + 1) \<le> z then y + 1 else y)"

definition march_month :: "int \<Rightarrow> int" where
  "march_month z = (5 * (z - days_before (march_year z)) + 2) div 153"

definition civil :: "int \<Rightarrow> int \<times> int" where
  "civil d = (let z = d + 719468; y = march_year z; m = march_month z in
     if m < 10 then (y, m + 3) else (y + 1, m - 9))"

definition utc_month :: "i64 \<Rightarrow> int \<times> int" where
  "utc_month ts = civil (sint (i_quot ts 1000) div 86400)"

section \<open>Printing is injective\<close>

definition digit_val :: "char \<Rightarrow> int" where
  "digit_val c = int (of_char c) - 48"

definition read_nat :: "string \<Rightarrow> int" where
  "read_nat s = foldl (\<lambda>n c. 10 * n + digit_val c) 0 s"

lemma digit_val_digit: "0 \<le> d \<Longrightarrow> d < 10 \<Longrightarrow> digit_val (digit d) = d"
proof -
  assume "0 \<le> d" "d < 10"
  then have "d = 0 \<or> d = 1 \<or> d = 2 \<or> d = 3 \<or> d = 4 \<or> d = 5 \<or> d = 6 \<or> d = 7 \<or> d = 8 \<or> d = 9"
    by arith
  then show ?thesis by (auto simp: digit_def digit_val_def)
qed

lemma digit_not_dash: "0 \<le> d \<Longrightarrow> d < 10 \<Longrightarrow> digit d \<noteq> CHR ''-''"
  using digit_val_digit [of d] by (auto simp: digit_val_def)

lemma read_show_nat: "0 \<le> n \<Longrightarrow> read_nat (show_nat n) = n"
proof (induction n rule: show_nat.induct)
  case (1 n)
  show ?case
  proof (cases "n < 10")
    case True
    with "1.prems" show ?thesis by (simp add: show_nat.simps [of n] read_nat_def digit_val_digit)
  next
    case False
    with 1 have "read_nat (show_nat (n div 10)) = n div 10" by simp
    with False show ?thesis
      by (simp add: show_nat.simps [of n] read_nat_def digit_val_digit)
  qed
qed

lemma show_nat_no_dash: "0 \<le> n \<Longrightarrow> CHR ''-'' \<notin> set (show_nat n)"
proof (induction n rule: show_nat.induct)
  case (1 n)
  then show ?case by (cases "n < 10") (auto simp: show_nat.simps [of n] digit_not_dash [THEN not_sym])
qed

lemma show_nat_inject: "0 \<le> m \<Longrightarrow> 0 \<le> n \<Longrightarrow> show_nat m = show_nat n \<longleftrightarrow> m = n"
  by (metis read_show_nat)

lemma split_dash:
  assumes "c \<notin> set xs" "c \<notin> set us" "xs @ c # ys = us @ c # vs"
  shows "xs = us \<and> ys = vs"
  using assms by (induction xs arbitrary: us) (case_tac us; auto)+

section \<open>Months are monotone in time\<close>

definition month_index :: "int \<Rightarrow> int" where
  "month_index d = (case civil d of (y, m) \<Rightarrow> y * 12 + m)"

lemma div_bounds: "0 < c \<Longrightarrow> c * (k div c) \<le> k \<and> k < c * (k div c) + (c :: int)"
  by (metis add_less_cancel_left mult_div_mod_eq pos_mod_bound pos_mod_sign le_add_same_cancel1)

text \<open>The three quotients of \<open>days_before\<close> as variables with their bounds, for linear arithmetic.\<close>

lemma days_before_cases:
  obtains a b c where "days_before k = 365 * k + a - b + c" "4 * a \<le> k" "k < 4 * a + 4"
    "100 * b \<le> k" "k < 100 * b + 100" "400 * c \<le> k" "k < 400 * c + 400"
  using div_bounds [of 4 k] div_bounds [of 100 k] div_bounds [of 400 k]
  by (intro that [of "k div 4" "k div 100" "k div 400"]) (simp_all add: days_before_def)

lemma days_before_bounds:
  "400 * days_before k < 146097 * k + 400" "146097 * k - 800 < 400 * days_before k"
  by (rule days_before_cases [of k]; linarith)+

lemma march_year: "days_before (march_year z) \<le> z \<and> z < days_before (march_year z + 1)"
proof -
  define y where "y = 400 * z div 146097"
  have y: "146097 * y \<le> 400 * z" "400 * z < 146097 * y + 146097" unfolding y_def using div_bounds [of 146097 "400 * z"] by simp_all
  have "days_before y \<le> z" using days_before_bounds(1) [of y] y by linarith
  moreover have "z < days_before (y + 2)" using days_before_bounds(2) [of "y + 2"] y by (simp add: algebra_simps)
  ultimately show ?thesis unfolding march_year_def y_def [symmetric] Let_def by (auto simp: algebra_simps)
qed

lemma div_Suc:
  assumes "0 < (c :: int)"
  shows "y div c \<le> (y + 1) div c" "(y + 1) div c \<le> y div c + 1"
proof -
  show "y div c \<le> (y + 1) div c" using assms by (intro zdiv_mono1) auto
  have "(y + 1) div c \<le> (y + c) div c" using assms by (intro zdiv_mono1) auto
  then show "(y + 1) div c \<le> y div c + 1" using assms by simp
qed

lemma days_before_Suc: "days_before y \<le> days_before (y + 1)" "days_before (y + 1) \<le> days_before y + 367"
proof -
  have aux: "365 * y + a - b + c \<le> 365 * (y + 1) + a' - b' + c' \<and>
      365 * (y + 1) + a' - b' + c' \<le> 365 * y + a - b + c + 367"
    if "a \<le> a'" "a' \<le> a + 1" "b \<le> b'" "b' \<le> b + 1" "c \<le> c'" "c' \<le> c + 1" for a a' b b' c c' :: int
    using that by auto
  have "days_before y \<le> days_before (y + 1) \<and> days_before (y + 1) \<le> days_before y + 367"
    unfolding days_before_def by (rule aux) (simp_all add: div_Suc)
  then show "days_before y \<le> days_before (y + 1)" "days_before (y + 1) \<le> days_before y + 367" by blast+
qed

lemma days_before_mono: "y \<le> y' \<Longrightarrow> days_before y \<le> days_before y'"
  by (induction y' rule: int_ge_induct) (auto intro: order_trans days_before_Suc(1))

lemma march_year_mono:
  assumes "z \<le> z'"
  shows "march_year z \<le> march_year z'"
proof (rule ccontr)
  assume "\<not> ?thesis"
  then have "days_before (march_year z' + 1) \<le> days_before (march_year z)" by (intro days_before_mono) simp
  then show False using march_year [of z] march_year [of z'] assms by linarith
qed

lemma march_month_range: "0 \<le> march_month z \<and> march_month z \<le> 11"
  unfolding march_month_def
  using march_year [of z] days_before_Suc(2) [of "march_year z"]
    div_bounds [of 153 "5 * (z - days_before (march_year z)) + 2"]
  by simp

lemma month_index_march: "month_index d = 12 * march_year (d + 719468) + march_month (d + 719468) + 3"
  by (simp add: month_index_def civil_def Let_def)

lemma month_index_mono:
  assumes "d \<le> d'"
  shows "month_index d \<le> month_index d'"
proof (cases "march_year (d + 719468) = march_year (d' + 719468)")
  case True
  have "march_month (d + 719468) \<le> march_month (d' + 719468)"
    unfolding march_month_def True using assms by (intro zdiv_mono1) auto
  then show ?thesis by (simp add: month_index_march True)
next
  case False
  then have "march_year (d + 719468) + 1 \<le> march_year (d' + 719468)"
    using march_year_mono [of "d + 719468" "d' + 719468"] assms by simp
  then show ?thesis
    using march_month_range [of "d + 719468"] march_month_range [of "d' + 719468"]
    unfolding month_index_march by linarith
qed

lemma civil_month_range:
  assumes "civil d = (y, m)"
  shows "1 \<le> m \<and> m \<le> 12"
  using assms march_month_range [of "d + 719468"]
  by (auto simp: civil_def Let_def split: if_splits)

lemma month_key_inject:
  "1 \<le> m \<Longrightarrow> m \<le> 12 \<Longrightarrow> 1 \<le> m' \<Longrightarrow> m' \<le> 12 \<Longrightarrow>
    y * 12 + m = y' * 12 + m' \<longleftrightarrow> y = y' \<and> m = (m' :: int)"
proof -
  assume m: "1 \<le> m" "m \<le> 12" "1 \<le> m'" "m' \<le> 12"
  have d: "(y * 12 + k - 1) div 12 = y" if "1 \<le> k" "k \<le> 12" for y k :: int
    using that by (simp add: add_diff_eq [symmetric] div_pos_pos_trivial)
  show ?thesis
  proof
    assume eq: "y * 12 + m = y' * 12 + m'"
    then have "y = y'" using d [of m y] d [of m' y'] m by metis
    with eq show "y = y' \<and> m = m'" by simp
  qed simp
qed

lemma civil_eq_iff: "month_index d = month_index d' \<longleftrightarrow> civil d = civil d'"
proof -
  obtain y m y' m' where c: "civil d = (y, m)" "civil d' = (y', m')" by fastforce
  then show ?thesis
    using civil_month_range [OF c(1)] civil_month_range [OF c(2)]
    by (simp add: month_index_def month_key_inject c)
qed

lemma civil_year:
  assumes "civil d = (y, m)" "0 \<le> d"
  shows "1970 \<le> y"
proof -
  have "month_index 0 \<le> month_index d" using assms(2) by (rule month_index_mono)
  moreover have "month_index 0 = 1970 * 12 + 1" by code_simp
  ultimately show ?thesis using assms(1) civil_month_range [OF assms(1)] by (simp add: month_index_def)
qed

section \<open>Month indices and keys of timestamps\<close>

lemma march_year_bounds: "400 * z - 146097 < 146097 * march_year z" "146097 * march_year z \<le> 400 * z + 146097"
  using div_bounds [of 146097 "400 * z"] by (auto simp: march_year_def Let_def)

lemma utc_day_bounds:
  "- (2 ^ 40) \<le> sint (i_quot ts 1000) div 86400" "sint (i_quot ts 1000) div 86400 \<le> 2 ^ 40"
proof -
  have t: "sint (1000 :: i64) = 1000" using sint64_of_int [of 1000] by simp
  define s where "s = sint (i_quot ts 1000)"
  have r: "- (2 ^ 63) \<le> sint ts" "sint ts < 2 ^ 63" using sint64_range by blast+
  have "s = (if sint ts < 0 then - (- sint ts div 1000) else sint ts div 1000)"
    unfolding s_def using sint_i_quot [of 1000 ts] t by simp
  then have "- (2 ^ 63) div 1000 \<le> s" "s \<le> 2 ^ 63 div 1000"
    using r by (auto split: if_splits)
  then show "- (2 ^ 40) \<le> sint (i_quot ts 1000) div 86400" "sint (i_quot ts 1000) div 86400 \<le> 2 ^ 40"
    unfolding s_def [symmetric] by simp_all
qed

lemma month_index_bounds:
  assumes "- (2 ^ 40) \<le> d" "d \<le> 2 ^ 40"
  shows "- (2 ^ 63) \<le> month_index d" "month_index d < 2 ^ 63"
  using assms march_year_bounds [of "d + 719468"] march_month_range [of "d + 719468"]
  unfolding month_index_march by simp_all

lemma i_quot_mono:
  assumes "sint a \<le> sint b" "0 < sint c"
  shows "sint (i_quot a c) \<le> sint (i_quot b c)"
proof -
  have n: "0 \<le> k div sint c" if "0 \<le> k" for k using that assms(2) by (simp add: pos_imp_zdiv_nonneg_iff)
  show ?thesis
    using assms zdiv_mono1 [of "sint a" "sint b" "sint c"] zdiv_mono1 [of "- sint b" "- sint a" "sint c"]
      n [of "- sint a"] n [of "sint b"]
    by (cases "sint a < 0"; cases "sint b < 0") (simp_all add: sint_i_quot)
qed

lemma pad2_read: "1 \<le> m \<Longrightarrow> read_nat (pad2 m) = m"
  using read_show_nat [of m] by (simp add: pad2_def show_int_def read_nat_def digit_val_def)

end
