(* ===== verification/QuantData.thy ===== *)
theory QuantData
  imports GoLib
begin

text \<open>
  The data of \<open>internal/quant\<close>: candlesticks, the account snapshot, the incremental
  runtime state, trade intents (data.go), chromosomes and spawn points with their hard bounds
  (genome.go), and the price series extracted from bars (closes.go). Field names are those of
  the Go structs; \<open>SpReserveFloor\<close> is \<open>SpawnPoint.ReserveFloor\<close>, whose name
  the account snapshot uses as well.
\<close>

section \<open>data.go\<close>

record Bar =
  OpenTime :: i64
  Open :: f64
  High :: f64
  Low :: f64
  Close :: f64
  Volume :: f64

record PortfolioState =
  TotalUSDT :: f64
  ReserveFloor :: f64
  SpendableUSDT :: f64
  DeadStack :: f64
  FloatStack :: f64
  ColdSealedStack :: f64
  NAVInitial :: f64

record RuntimeState =
  EMA200 :: f64
  EMA200History :: "f64 list"
  MonthHigh :: f64
  MonthStr :: string
  TriggeredTiers :: "i64 list"
  StopLossHit :: bool

record TradeIntent =
  Action :: string
  Engine :: string
  LotType :: string
  AmountUSDT :: f64
  QtyAsset :: f64

text \<open>Go's zero value of \<open>RuntimeState\<close>.\<close>

definition zero_runtime :: RuntimeState where
  "zero_runtime = \<lparr>EMA200 = 0, EMA200History = [], MonthHigh = 0, MonthStr = '''',
     TriggeredTiers = [], StopLossHit = False\<rparr>"

section \<open>closes.go\<close>

definition ExtractCloses :: "Bar list \<Rightarrow> f64 list" where
  "ExtractCloses bars = map Close bars"

definition ExtractHighs :: "Bar list \<Rightarrow> f64 list" where
  "ExtractHighs bars = map High bars"

definition ExtractLows :: "Bar list \<Rightarrow> f64 list" where
  "ExtractLows bars = map Low bars"

definition ExtractTimestamps :: "Bar list \<Rightarrow> i64 list" where
  "ExtractTimestamps bars = map OpenTime bars"

section \<open>genome.go\<close>

record Chromosome =
  DCADropPct :: f64
  SigmoidSensitivity :: f64
  StopLossThreshold :: f64

record SpawnPoint =
  BaseCurrency :: string
  TradingPair :: string
  InitialCapital :: f64
  SpReserveFloor :: f64
  ROIReleaseTrigger :: f64
  ReleaseRatio :: f64
  MonthlyInject :: f64

text \<open>Go's zero value of \<open>SpawnPoint\<close>.\<close>

definition zero_spawn :: SpawnPoint where
  "zero_spawn = \<lparr>BaseCurrency = '''', TradingPair = '''', InitialCapital = 0,
     SpReserveFloor = 0, ROIReleaseTrigger = 0, ReleaseRatio = 0, MonthlyInject = 0\<rparr>"

definition DCADropPctMin :: f64 where "DCADropPctMin = lit 5 100"
definition DCADropPctMax :: f64 where "DCADropPctMax = lit 30 100"
definition SigmoidSensitivityMin :: f64 where "SigmoidSensitivityMin = lit 1 1"
definition SigmoidSensitivityMax :: f64 where "SigmoidSensitivityMax = lit 10 1"
definition StopLossThresholdMin :: f64 where "StopLossThresholdMin = lit (- 30) 100"
definition StopLossThresholdMax :: f64 where "StopLossThresholdMax = lit (- 10) 100"

definition DefaultSeedChromosome :: Chromosome where
  "DefaultSeedChromosome = \<lparr>DCADropPct = lit 10 100, SigmoidSensitivity = lit 5 1,
     StopLossThreshold = lit (- 20) 100\<rparr>"

end
