(* ===== verification/QuantMath.thy ===== *)
theory QuantMath
  imports QuantData
begin

text \<open>
  The numeric helpers of \<open>internal/quant/math.go\<close> and the chromosome repair of
  genome.go that rests on them. The lemmas relate the incremental average to the full one, bound
  the results of clipping and rounding to cents, and say which chromosomes the repair makes legal.
\<close>

section \<open>Definitions\<close>

definition ema_alpha :: "i64 \<Rightarrow> f64" where
  "ema_alpha period = lit 2 1 / f_of_i64 (period + 1)"

primrec ema_loop :: "f64 \<Rightarrow> f64 \<Rightarrow> f64 list \<Rightarrow> f64" where
  "ema_loop alpha ema [] = ema"
| "ema_loop alpha ema (x # xs) = ema_loop alpha (alpha * x + (1 - alpha) * ema) xs"

definition EMA :: "f64 list \<Rightarrow> i64 \<Rightarrow> f64" where
  "EMA series period = (case series of [] \<Rightarrow> 0
     | s0 # rest \<Rightarrow> if sint period \<le> 0 then 0 else ema_loop (ema_alpha period) s0 rest)"

definition UpdateEMA :: "f64 \<Rightarrow> f64 \<Rightarrow> i64 \<Rightarrow> f64" where
  "UpdateEMA prev price period = (if sint period \<le> 0 then price
     else let alpha = ema_alpha period in alpha * price + (1 - alpha) * prev)"

text \<open>The last \<open>period\<close> elements, all of them when there are fewer.\<close>

definition last_n :: "nat \<Rightarrow> 'a list \<Rightarrow> 'a list" where
  "last_n k xs = drop (length xs - k) xs"

primrec abs_change_loop :: "f64 \<Rightarrow> f64 \<Rightarrow> f64 list \<Rightarrow> f64" where
  "abs_change_loop acc prev [] = acc"
| "abs_change_loop acc prev (x # xs) =
     (let d = x - prev; d = (if d < 0 then - d else d) in abs_change_loop (acc + d) x xs)"

definition MAVAbsChange :: "f64 list \<Rightarrow> i64 \<Rightarrow> f64" where
  "MAVAbsChange closes L = (let n = length closes in
     if n < 2 \<or> sint L < 2 then 0
     else let window = last_n (nat (sint L)) closes; m = length window in
       if m < 2 then 0
       else abs_change_loop 0 (hd window) (tl window) / f_of_int (int m - 1))"

text \<open>The sample standard deviation; \<open>math.Sqrt\<close> is the parameter \<open>rt\<close>.\<close>

definition StdDev :: "(f64 \<Rightarrow> f64) \<Rightarrow> f64 list \<Rightarrow> i64 \<Rightarrow> f64" where
  "StdDev rt series period = (let n = length series in
     if n < 2 \<or> sint period < 2 then 0
     else let window = last_n (nat (sint period)) series; m = length window in
       if m < 2 then 0
       else let mean = foldl (+) 0 window / f_of_int (int m);
                vsum = foldl (\<lambda>vsum v. let d = v - mean in vsum + d * d) 0 window
         in rt (vsum / f_of_int (int m - 1)))"

definition ClipFloat64 :: "f64 \<Rightarrow> f64 \<Rightarrow> f64 \<Rightarrow> f64" where
  "ClipFloat64 v lo hi = (if v < lo then lo else if hi < v then hi else v)"

definition RoundToUSDT :: "f64 \<Rightarrow> f64" where
  "RoundToUSDT v = f_round (v * lit 100 1) / lit 100 1"

definition ClampChromosome :: "Chromosome \<Rightarrow> Chromosome" where
  "ClampChromosome c = \<lparr>
     DCADropPct = ClipFloat64 (DCADropPct c) DCADropPctMin DCADropPctMax,
     SigmoidSensitivity = ClipFloat64 (SigmoidSensitivity c) SigmoidSensitivityMin SigmoidSensitivityMax,
     StopLossThreshold = ClipFloat64 (StopLossThreshold c) StopLossThresholdMin StopLossThresholdMax\<rparr>"

text \<open>The value of an account at a price, and the return on its initial value, as micro_engine.go and
  lot.go compute them.\<close>

definition nav_of :: "PortfolioState \<Rightarrow> f64 \<Rightarrow> f64" where
  "nav_of p price = TotalUSDT p + (DeadStack p + FloatStack p + ColdSealedStack p) * price"

definition roi_of :: "PortfolioState \<Rightarrow> f64 \<Rightarrow> f64" where
  "roi_of p price = (if 0 < NAVInitial p then (nav_of p price - NAVInitial p) / NAVInitial p else 0)"

text \<open>Only the last \<open>period\<close> elements count.\<close>

lemma StdDev_window: "nat (sint period) \<le> length ys \<Longrightarrow> StdDev rt (xs @ ys) period = StdDev rt ys period"
  by (cases "sint period < 2") (auto simp: StdDev_def last_n_def Let_def)

section \<open>Literals\<close>

lemma lit_int: "\<bar>n\<bar> < 2 ^ 53 \<Longrightarrow> f_val (lit n 1) = of_int n \<and> f_fin (lit n 1)"
  using f_of_int [of n] by (simp add: lit_def f_of_int_def)

lemma lit_int_simps [simp]:
  "f_val (lit 1 1) = 1" "f_fin (lit 1 1)" "f_val (lit 2 1) = 2" "f_fin (lit 2 1)"
  "f_val (lit 10 1) = 10" "f_fin (lit 10 1)" "f_val (lit 100 1) = 100" "f_fin (lit 100 1)"
  using lit_int [of 1] lit_int [of 2] lit_int [of 10] lit_int [of 100] by simp_all

section \<open>Exponential averages\<close>

lemma ema_loop_append: "ema_loop a e (xs @ [x]) = a * x + (1 - a) * ema_loop a e xs"
  by (induction xs arbitrary: e) simp_all

lemma EMA_Nil: "EMA [] period = 0"
  by (simp add: EMA_def)

lemma EMA_snoc:
  "xs \<noteq> [] \<Longrightarrow> 0 < sint period \<Longrightarrow> EMA (xs @ [p]) period = UpdateEMA (EMA xs period) p period"
  by (cases xs) (simp_all add: EMA_def UpdateEMA_def ema_loop_append Let_def)

lemma ema_alpha_bounds:
  assumes "1 \<le> sint period" "sint period < 2 ^ 52"
  shows "f_fin (ema_alpha period)" "0 \<le> f_val (ema_alpha period)" "f_val (ema_alpha period) \<le> 1"
    "f_fin (1 - ema_alpha period)" "0 \<le> f_val (1 - ema_alpha period)" "f_val (1 - ema_alpha period) \<le> 1"
proof -
  obtain k where k: "sint period = k" "1 \<le> k" "k < 2 ^ 52" using assms by blast
  have "period + 1 = word_of_int (k + 1)" unfolding k(1) [symmetric] by simp
  moreover have "sint (word_of_int (k + 1) :: i64) = k + 1" using k by (intro sint64_of_int) simp_all
  ultimately have "sint (period + 1) = k + 1" by (simp only:)
  then have p: "f_val (f_of_i64 (period + 1)) = of_int (k + 1)" "f_fin (f_of_i64 (period + 1))"
    using f_of_int [of "k + 1"] k by (simp_all add: f_of_i64_def)
  let ?q = "2 / (of_int (k + 1) :: rat)"
  have "(2::rat) \<le> of_int (k + 1)" using k by simp
  then have q: "0 \<le> ?q" "?q \<le> 1" by simp_all
  have nz: "f_val (f_of_i64 (period + 1)) \<noteq> 0" using p k by simp
  have v: "f_val (ema_alpha period) = R ?q" and nn: "\<not> f_nan (ema_alpha period)"
    unfolding ema_alpha_def using f_val_div [OF _ p(2) nz] f_nan_div [OF _ p(2) nz] p(1) by auto
  show le: "f_val (ema_alpha period) \<le> 1" unfolding v using R_le_val [of 1 ?q] q by simp
  show ge: "0 \<le> f_val (ema_alpha period)" unfolding v using q by (intro R_nonneg)
  show fin: "f_fin (ema_alpha period)"
    by (rule f_fin_between [OF nn f_nan_0(2) f_fin_1]) (use le ge in auto)
  have v1: "f_val (1 - ema_alpha period) = R (1 - f_val (ema_alpha period))"
    using fin by (simp add: f_val_sub)
  show le1: "f_val (1 - ema_alpha period) \<le> 1" unfolding v1 using R_le_val [of 1] ge by simp
  show ge1: "0 \<le> f_val (1 - ema_alpha period)" unfolding v1 using le by (intro R_nonneg) simp
  show "f_fin (1 - ema_alpha period)"
    by (rule f_fin_between [OF _ f_nan_0(2) f_fin_1]) (use le1 ge1 f_nan_sub [OF f_fin_1 fin] in auto)
qed

text \<open>A weight in the unit interval never enlarges a finite operand that is not negative.\<close>

lemma f_scale:
  assumes "f_fin r" "0 \<le> f_val r" "f_val r \<le> 1" "f_fin x" "0 \<le> f_val x"
  shows "f_fin (r * x)" "0 \<le> f_val (r * x)" "f_val (r * x) \<le> f_val x"
proof -
  have v: "f_val (r * x) = R (f_val r * f_val x)" using assms by (simp add: f_val_mul)
  have le: "f_val r * f_val x \<le> f_val x" using assms by (simp add: mult_left_le_one_le)
  show ge0: "0 \<le> f_val (r * x)" unfolding v using assms by (intro R_nonneg) simp
  show lex: "f_val (r * x) \<le> f_val x"
    unfolding v using R_le_val [OF f_fin_not(1) [OF assms(4)] le] .
  show "f_fin (r * x)"
    by (rule f_fin_between [OF _ f_nan_0(2) assms(4)]) (use ge0 lex f_nan_mul [OF assms(1,4)] in auto)
qed

lemma f_mul_commute: "x * y = y * (x :: f64)"
proof -
  have s: "(f_sign x \<noteq> f_sign y) = (f_sign y \<noteq> f_sign x)" by blast
  show ?thesis unfolding times_f64_def Let_def s mult.commute [of "f_val x"] by auto
qed

lemma UpdateEMA_bounds:
  assumes p: "1 \<le> sint period" "sint period < 2 ^ 52"
    and prev: "f_fin prev" "0 \<le> f_val prev" "f_val prev \<le> 2 powi 1022"
    and price: "f_fin price" "0 \<le> f_val price" "f_val price \<le> 2 powi 1022"
  shows "f_fin (UpdateEMA prev price period)" "0 \<le> f_val (UpdateEMA prev price period)"
proof -
  let ?a = "ema_alpha period"
  note a = ema_alpha_bounds [OF p]
  note s1 = f_scale [OF a(1-3) price(1,2)] and s2 = f_scale [OF a(4-6) prev(1,2)]
  have u: "UpdateEMA prev price period = ?a * price + (1 - ?a) * prev"
    using p by (simp add: UpdateEMA_def Let_def)
  have v: "f_val (UpdateEMA prev price period) = R (f_val (?a * price) + f_val ((1 - ?a) * prev))"
    unfolding u using s1(1) s2(1) by (rule f_val_add)
  show "0 \<le> f_val (UpdateEMA prev price period)"
    unfolding v using s1 s2 by (intro R_nonneg) simp
  have big: "f_val (?a * price) + f_val ((1 - ?a) * prev) \<le> 2 powi 1023"
  proof -
    have "f_val (?a * price) + f_val ((1 - ?a) * prev) \<le> 2 powi 1022 + 2 powi 1022"
      using s1(3) s2(3) prev(3) price(3) by linarith
    also have "\<dots> = (2::rat) powi 1023" using p2_add [of 1022 1] by simp
    finally show ?thesis .
  qed
  have e: "R (2 powi 1023) = 2 powi 1023"
  proof -
    have "(2::rat) powi 1023 = of_int (2 ^ 52) * 2 powi 971" by (simp add: p2_nat)
    moreover have "R (of_int (2 ^ 52) * 2 powi 971) = of_int (2 ^ 52) * 2 powi 971"
      by (rule R_dyadic) simp_all
    ultimately show ?thesis by (simp only:)
  qed
  have "f_val (UpdateEMA prev price period) \<le> 2 powi 1023"
    unfolding v using R_mono [OF big] unfolding e .
  also have "\<dots> < f_lim" unfolding f_lim_def p2_less_iff by simp
  finally have lt: "f_val (UpdateEMA prev price period) < f_lim" .
  have "\<not> f_nan (UpdateEMA prev price period)"
    unfolding u using s1(1) s2(1) by (rule f_nan_add)
  moreover have "0 \<le> f_val (UpdateEMA prev price period)" by fact
  ultimately show "f_fin (UpdateEMA prev price period)" using lt by (simp add: f_fin_iff)
qed

section \<open>Clipping\<close>

lemma ClipFloat64_bounds:
  "lo \<le> hi \<Longrightarrow> \<not> f_nan v \<Longrightarrow> lo \<le> ClipFloat64 v lo hi \<and> ClipFloat64 v lo hi \<le> hi"
  by (auto simp: ClipFloat64_def less_f64_def less_eq_f64_def)

lemma ClipFloat64_nan: "f_nan v \<Longrightarrow> ClipFloat64 v lo hi = v"
  by (simp add: ClipFloat64_def less_f64_def)

lemma ClipFloat64_id: "lo \<le> v \<Longrightarrow> v \<le> hi \<Longrightarrow> ClipFloat64 v lo hi = v"
  by (auto simp: ClipFloat64_def less_f64_def less_eq_f64_def)

text \<open>The legal search space of genome.go.\<close>

definition legal_chromosome :: "Chromosome \<Rightarrow> bool" where
  "legal_chromosome c \<longleftrightarrow>
     DCADropPctMin \<le> DCADropPct c \<and> DCADropPct c \<le> DCADropPctMax \<and>
     SigmoidSensitivityMin \<le> SigmoidSensitivity c \<and> SigmoidSensitivity c \<le> SigmoidSensitivityMax \<and>
     StopLossThresholdMin \<le> StopLossThreshold c \<and> StopLossThreshold c \<le> StopLossThresholdMax"

definition nan_free :: "Chromosome \<Rightarrow> bool" where
  "nan_free c \<longleftrightarrow> \<not> f_nan (DCADropPct c) \<and> \<not> f_nan (SigmoidSensitivity c) \<and> \<not> f_nan (StopLossThreshold c)"

lemma hard_bounds_ordered:
  "DCADropPctMin \<le> DCADropPctMax" "SigmoidSensitivityMin \<le> SigmoidSensitivityMax"
  "StopLossThresholdMin \<le> StopLossThresholdMax"
  by (code_simp, code_simp, code_simp)

lemma legal_nan_free: "legal_chromosome c \<Longrightarrow> nan_free c"
  by (auto simp: legal_chromosome_def nan_free_def dest: f_leD)

lemma ClampChromosome_legal: "nan_free c \<Longrightarrow> legal_chromosome (ClampChromosome c)"
  by (simp add: nan_free_def legal_chromosome_def ClampChromosome_def ClipFloat64_bounds hard_bounds_ordered)

lemma ClampChromosome_id: "legal_chromosome c \<Longrightarrow> ClampChromosome c = c"
  by (simp add: legal_chromosome_def ClampChromosome_def ClipFloat64_id)

lemma ClampChromosome_nan: "\<not> nan_free c \<Longrightarrow> \<not> nan_free (ClampChromosome c)"
  by (auto simp: nan_free_def ClampChromosome_def ClipFloat64_nan)

lemma legal_DefaultSeed: "legal_chromosome DefaultSeedChromosome"
  by code_simp

section \<open>Rounding to cents\<close>

lemma f_mul_100:
  assumes "f_fin v" "0 \<le> f_val v" "f_val v \<le> 2 powi 1000"
  shows "f_val (v * lit 100 1) = R (100 * f_val v)" "f_fin (v * lit 100 1)"
proof -
  show v: "f_val (v * lit 100 1) = R (100 * f_val v)" using assms by (simp add: f_val_mul mult.commute)
  have "100 * f_val v \<le> 2 powi 7 * 2 powi 1000" using assms by (intro mult_mono) (simp_all add: power_int_def)
  also have "\<dots> = 2 powi 1007" by (simp flip: p2_add)
  finally have "R (100 * f_val v) \<le> R (2 powi 1007)" by (rule R_mono)
  also have "\<dots> = 2 powi 1007"
  proof -
    have "(2::rat) powi 1007 = of_int (2 ^ 52) * 2 powi 955" by (simp add: p2_nat)
    moreover have "R (of_int (2 ^ 52) * 2 powi 955) = of_int (2 ^ 52) * 2 powi 955"
      by (rule R_dyadic) simp_all
    ultimately show ?thesis by (simp only:)
  qed
  also have "\<dots> < f_lim" unfolding f_lim_def p2_less_iff by simp
  finally have "R (100 * f_val v) < f_lim" .
  moreover have "0 \<le> R (100 * f_val v)" using assms by (intro R_nonneg) simp
  moreover have "\<not> f_nan (v * lit 100 1)" using assms by (simp add: f_nan_mul)
  ultimately show "f_fin (v * lit 100 1)" by (simp add: f_fin_iff v)
qed

lemma RoundToUSDT_val:
  assumes "f_fin v" "0 \<le> f_val v" "f_val v \<le> 2 powi 1000"
  shows "f_val (RoundToUSDT v) = R (of_int \<lfloor>R (100 * f_val v) + 1 / 2\<rfloor> / 100)" and "\<not> f_nan (RoundToUSDT v)"
proof -
  note m = f_mul_100 [OF assms]
  have "0 \<le> f_val (v * lit 100 1)" unfolding m(1) using assms by (intro R_nonneg) simp
  note r = f_val_round [OF m(2) this]
  show "f_val (RoundToUSDT v) = R (of_int \<lfloor>R (100 * f_val v) + 1 / 2\<rfloor> / 100)"
    unfolding RoundToUSDT_def using r by (simp add: f_val_div m(1))
  show "\<not> f_nan (RoundToUSDT v)"
    unfolding RoundToUSDT_def using r by (simp add: f_nan_div)
qed

lemma RoundToUSDT_mono:
  assumes "f_fin v" "0 \<le> f_val v" "f_fin w" "f_val v \<le> f_val w" "f_val w \<le> 2 powi 1000"
  shows "f_val (RoundToUSDT v) \<le> f_val (RoundToUSDT w)"
proof -
  have "\<lfloor>R (100 * f_val v) + 1 / 2\<rfloor> \<le> \<lfloor>R (100 * f_val w) + 1 / 2\<rfloor>"
    using assms by (intro floor_mono add_right_mono R_mono) simp
  then have "(of_int \<lfloor>R (100 * f_val v) + 1 / 2\<rfloor> :: rat) \<le> of_int \<lfloor>R (100 * f_val w) + 1 / 2\<rfloor>"
    by (simp only: of_int_le_iff)
  then show ?thesis
    using assms by (simp add: RoundToUSDT_val R_mono)
qed

lemma RoundToUSDT_upper:
  assumes "f_fin v" "1 \<le> f_val v" "f_val v \<le> 2 powi 1000"
  shows "f_val (RoundToUSDT v) \<le> (f_val v * (1 + 2 powi (- 53)) + 1 / 200) * (1 + 2 powi (- 53))"
proof -
  let ?u = "2 powi (- 53) :: rat" and ?n = "\<lfloor>R (100 * f_val v) + 1 / 2\<rfloor>"
  have small: "(2::rat) powi (- 1022) \<le> 1 / 2" using p2_mono [of "- 1022" "- 1"] by (simp add: power_int_minus)
  have "R (100 * f_val v) \<le> 100 * f_val v * (1 + ?u)"
    using small assms by (intro R_upper) linarith
  moreover have "(of_int ?n :: rat) \<le> R (100 * f_val v) + 1 / 2" by simp
  ultimately have n: "of_int ?n / 100 \<le> f_val v * (1 + ?u) + 1 / 200" by (simp add: field_simps)
  have "R 50 \<le> R (100 * f_val v)" using assms by (intro R_mono) simp
  then have "50 \<le> R (100 * f_val v)" using R_of_int [of 50] by simp
  then have "50 \<le> ?n" by (simp add: le_floor_iff)
  then have "(50::rat) \<le> of_int ?n" by simp
  then have "2 powi (- 1022) \<le> (of_int ?n :: rat) / 100" using small by linarith
  then have "R (of_int ?n / 100) \<le> of_int ?n / 100 * (1 + ?u)" by (rule R_upper)
  also have "\<dots> \<le> (f_val v * (1 + ?u) + 1 / 200) * (1 + ?u)"
    using n by (intro mult_right_mono) (simp_all add: add_nonneg_nonneg)
  finally have le: "R (of_int ?n / 100) \<le> (f_val v * (1 + ?u) + 1 / 200) * (1 + ?u)" .
  have "0 \<le> f_val v" using assms by linarith
  from RoundToUSDT_val(1) [OF assms(1) this assms(3)] le show ?thesis by (simp only:)
qed

lemma EMA_fold:
  assumes "xs \<noteq> []" "0 < sint period"
  shows "EMA (xs @ ps) period = foldl (\<lambda>e p. UpdateEMA e p period) (EMA xs period) ps"
proof (induction ps rule: rev_induct)
  case Nil
  then show ?case by simp
next
  case (snoc p ps)
  then show ?case using EMA_snoc [of "xs @ ps" period p] assms by simp
qed

lemma ClipFloat64_idem: "lo \<le> hi \<Longrightarrow> ClipFloat64 (ClipFloat64 v lo hi) lo hi = ClipFloat64 v lo hi"
  using ClipFloat64_bounds [of lo hi v] ClipFloat64_id [of lo "ClipFloat64 v lo hi" hi] ClipFloat64_nan [of v lo hi]
  by (cases "f_nan v") simp_all

lemma ClampChromosome_idem: "ClampChromosome (ClampChromosome c) = ClampChromosome c"
  by (simp add: ClampChromosome_def ClipFloat64_idem hard_bounds_ordered)

lemma ClampChromosome_legal_iff: "legal_chromosome (ClampChromosome c) \<longleftrightarrow> nan_free c"
  using ClampChromosome_legal [of c] ClampChromosome_nan [of c] legal_nan_free [of "ClampChromosome c"]
  by blast

section \<open>Properties\<close>

text \<open>Feeding prices one at a time to the incremental average gives, bit for bit, the average
  of the whole series computed from scratch.\<close>

theorem ema_incremental:
  assumes "xs \<noteq> []" "0 < sint period"
  shows "EMA (xs @ ps) period = foldl (\<lambda>e p. UpdateEMA e p period) (EMA xs period) ps"
  using assms by (rule EMA_fold)

theorem ema_incremental_witness:
  "EMA ([lit 10 1] @ [lit 20 1, lit 123 10]) 200 =
    foldl (\<lambda>e p. UpdateEMA e p 200) (EMA [lit 10 1] 200) [lit 20 1, lit 123 10]"
  by (rule ema_incremental) simp_all

text \<open>The repair of a chromosome lands in the legal search space exactly when no gene is a NaN
  (a NaN passes through both comparisons), it is idempotent, and the legal chromosomes are its
  fixed points without a NaN.\<close>

theorem clamp_repairs:
  "legal_chromosome (ClampChromosome c) = nan_free c \<and>
   ClampChromosome (ClampChromosome c) = ClampChromosome c \<and>
   legal_chromosome c = (nan_free c \<and> ClampChromosome c = c)"
  using ClampChromosome_legal_iff ClampChromosome_idem ClampChromosome_id legal_nan_free by metis

text \<open>Rounding an amount up to \<open>2^1000\<close> to cents divides a whole number of cents, the
  one nearest to the scaled amount, by one hundred; it is monotone and never yields a NaN.\<close>

theorem round_to_usdt:
  assumes "f_fin v" "0 \<le> f_val v" "f_fin w" "f_val v \<le> f_val w" "f_val w \<le> 2 powi 1000"
  shows "(\<exists>n. f_val (RoundToUSDT v) = R (of_int n / 100) \<and> \<bar>of_int n - R (100 * f_val v)\<bar> \<le> 1 / 2) \<and>
    f_val (RoundToUSDT v) \<le> f_val (RoundToUSDT w) \<and> \<not> f_nan (RoundToUSDT v)"
proof (intro conjI)
  have v: "f_val v \<le> 2 powi 1000" using assms by (rule_tac order_trans)
  show "\<exists>n. f_val (RoundToUSDT v) = R (of_int n / 100) \<and> \<bar>of_int n - R (100 * f_val v)\<bar> \<le> 1 / 2"
  proof (intro exI conjI)
    show "f_val (RoundToUSDT v) = R (of_int \<lfloor>R (100 * f_val v) + 1 / 2\<rfloor> / 100)"
      using assms v by (intro RoundToUSDT_val)
    show "\<bar>of_int \<lfloor>R (100 * f_val v) + 1 / 2\<rfloor> - R (100 * f_val v)\<bar> \<le> 1 / 2" by linarith
  qed
  show "f_val (RoundToUSDT v) \<le> f_val (RoundToUSDT w)" using assms by (rule RoundToUSDT_mono)
  show "\<not> f_nan (RoundToUSDT v)" using assms v by (intro RoundToUSDT_val)
qed

theorem round_to_usdt_witness: "f_val (RoundToUSDT (lit 1 1)) \<le> f_val (RoundToUSDT (lit 2 1))"
proof -
  have "(2::rat) powi 1 \<le> 2 powi 1000" by (rule p2_mono) simp
  then have "(2::rat) \<le> 2 powi 1000" by (simp only: power_int_1_right)
  then show ?thesis using round_to_usdt [of "lit 1 1" "lit 2 1"] by (simp del: power_int_numeral)
qed

end
