(* ===== verification/MarketState.thy ===== *)
theory MarketState
  imports QuantMath
begin

text \<open>
  \<open>internal/quant/market_state.go\<close>: the market regime and the update of the EMA200
  inside the runtime state. The lemmas say what the update keeps of the runtime state, how long
  the EMA history gets, and exactly when each of the three regimes is reported.
\<close>

section \<open>Definitions\<close>

definition ema200Period :: i64 where "ema200Period = 200"
definition ema200SlopeBars :: nat where "ema200SlopeBars = 10"
definition quietSigmaThresh :: f64 where "quietSigmaThresh = lit 15 1000"
definition ema200HistMax :: nat where "ema200HistMax = 11"

text \<open>\<open>math.MaxFloat64\<close>, \<open>(2 - 2^-52) * 2^1023\<close>.\<close>

definition MaxFloat64 :: f64 where "MaxFloat64 = F64 0x7FEFFFFFFFFFFFFF"

record MarketStateResult =
  State :: string
  IsQuiet :: bool
  BetaMultiplier :: f64
  TimeDilationMultiplier :: f64

record MarketStateInput =
  MsCloses :: "f64 list"
  MsHighs :: "f64 list"
  MsLows :: "f64 list"
  MsPrice :: f64
  MsRT :: RuntimeState

primrec range_loop :: "f64 \<Rightarrow> f64 \<Rightarrow> (f64 \<times> f64) list \<Rightarrow> f64 \<times> f64" where
  "range_loop h24 l24 [] = (h24, l24)"
| "range_loop h24 l24 (b # bs) =
     range_loop (if h24 < fst b then fst b else h24) (if snd b < l24 then snd b else l24) bs"

definition sigma24h :: "f64 list \<Rightarrow> f64 list \<Rightarrow> f64" where
  "sigma24h highs lows =
     (if length highs = 0 \<or> length lows \<noteq> length highs then 0
      else case range_loop (- MaxFloat64) MaxFloat64 (last_n 24 (zip highs lows)) of (h24, l24) \<Rightarrow>
        if l24 \<le> 0 then 0 else (h24 - l24) / l24)"

definition ema200Slope :: "f64 list \<Rightarrow> f64" where
  "ema200Slope hist = (let m = length hist in
     if m < 2 then 0
     else let lookback = (if m \<le> ema200SlopeBars then m - 1 else ema200SlopeBars) in
       hist ! (m - 1) - hist ! (m - 1 - lookback))"

definition ComputeMarketState :: "MarketStateInput \<Rightarrow> MarketStateResult \<times> RuntimeState" where
  "ComputeMarketState inp = (let rt = MsRT inp;
     ema200 = (if feq (EMA200 rt) 0 then EMA (MsCloses inp) ema200Period
               else UpdateEMA (EMA200 rt) (MsPrice inp) ema200Period);
     hist = EMA200History rt @ [ema200];
     hist = (if ema200HistMax < length hist then drop (length hist - ema200HistMax) hist else hist);
     rt = rt\<lparr>EMA200 := ema200, EMA200History := hist\<rparr>;
     sigma = sigma24h (MsHighs inp) (MsLows inp);
     res = (\<lambda>s q. \<lparr>State = s, IsQuiet = q, BetaMultiplier = 1, TimeDilationMultiplier = 1\<rparr>)
   in if sigma < quietSigmaThresh then (res ''QUIET'' True, rt)
      else let slope = ema200Slope hist in
        if MsPrice inp < ema200 then (res ''BEAR'' False, rt)
        else if ema200 < MsPrice inp \<and> 0 < slope then (res ''BULL'' False, rt)
        else (res ''BEAR'' False, rt))"

section \<open>The EMA update\<close>

text \<open>The new EMA200 of a tick, as the code computes it.\<close>

definition next_ema200 :: "MarketStateInput \<Rightarrow> f64" where
  "next_ema200 inp = (if feq (EMA200 (MsRT inp)) 0 then EMA (MsCloses inp) ema200Period
     else UpdateEMA (EMA200 (MsRT inp)) (MsPrice inp) ema200Period)"

definition push_history :: "f64 list \<Rightarrow> f64 \<Rightarrow> f64 list" where
  "push_history hist x = last_n ema200HistMax (hist @ [x])"

lemma ComputeMarketState_rt:
  "snd (ComputeMarketState inp) = (MsRT inp)\<lparr>EMA200 := next_ema200 inp,
     EMA200History := push_history (EMA200History (MsRT inp)) (next_ema200 inp)\<rparr>"
  unfolding ComputeMarketState_def next_ema200_def push_history_def last_n_def Let_def
  by (auto simp: not_less)

lemma push_history_length: "length (push_history hist x) \<le> 11"
  by (simp add: push_history_def last_n_def ema200HistMax_def)

lemma push_history_last: "push_history hist x \<noteq> [] \<and> last (push_history hist x) = x"
  by (simp add: push_history_def last_n_def ema200HistMax_def)

lemma push_history_keeps:
  assumes "length hist \<le> 11"
  shows "push_history hist x = (if length hist = 11 then tl hist else hist) @ [x]"
  using assms by (cases hist) (auto simp: push_history_def last_n_def ema200HistMax_def)

section \<open>The regimes\<close>

abbreviation quiet :: "MarketStateInput \<Rightarrow> bool" where
  "quiet inp \<equiv> sigma24h (MsHighs inp) (MsLows inp) < quietSigmaThresh"

abbreviation slope_after :: "MarketStateInput \<Rightarrow> f64" where
  "slope_after inp \<equiv> ema200Slope (push_history (EMA200History (MsRT inp)) (next_ema200 inp))"

lemma hist_push: "(if ema200HistMax < length (h @ [x]) then drop (length (h @ [x]) - ema200HistMax) (h @ [x])
    else h @ [x]) = push_history h x"
  by (auto simp: push_history_def last_n_def)

lemma ComputeMarketState_res:
  "fst (ComputeMarketState inp) =
     \<lparr>State = (if quiet inp then ''QUIET''
        else if next_ema200 inp < MsPrice inp \<and> 0 < slope_after inp then ''BULL'' else ''BEAR''),
      IsQuiet = quiet inp, BetaMultiplier = 1, TimeDilationMultiplier = 1\<rparr>"
  unfolding ComputeMarketState_def Let_def next_ema200_def [symmetric] hist_push
  by (auto simp: less_f64_def)

lemma State_cases: "State (fst (ComputeMarketState inp)) \<in> {''QUIET'', ''BEAR'', ''BULL''}"
  by (simp add: ComputeMarketState_res)

lemma IsQuiet_iff: "IsQuiet (fst (ComputeMarketState inp)) \<longleftrightarrow> State (fst (ComputeMarketState inp)) = ''QUIET''"
  by (simp add: ComputeMarketState_res)

lemma State_BULL:
  "State (fst (ComputeMarketState inp)) = ''BULL'' \<longleftrightarrow>
    \<not> quiet inp \<and> next_ema200 inp < MsPrice inp \<and> 0 < slope_after inp"
  by (simp add: ComputeMarketState_res)

lemma State_BEAR:
  "State (fst (ComputeMarketState inp)) = ''BEAR'' \<longleftrightarrow>
    \<not> quiet inp \<and> \<not> (next_ema200 inp < MsPrice inp \<and> 0 < slope_after inp)"
  by (simp add: ComputeMarketState_res)

section \<open>The 24-bar range\<close>

lemma MaxFloat64_fin [simp]: "f_fin MaxFloat64" "\<not> f_nan MaxFloat64"
proof -
  show "f_fin MaxFloat64" by code_simp
  then show "\<not> f_nan MaxFloat64" by (rule f_fin_not)
qed

lemma MaxFloat64_greatest: 
  assumes "f_fin x"
  shows "\<bar>f_val x\<bar> \<le> f_val MaxFloat64"
proof -
  have b: "f_bits x \<le> f_bits MaxFloat64" 
  proof -
    have "f_bits MaxFloat64 = 2047 * 2 ^ 52 - 1" by (simp add: f_bits_def MaxFloat64_def)
    then show ?thesis using assms by (simp add: f_fin_def)
  qed
  have "mag (f_bits x) \<le> mag (f_bits MaxFloat64)"
    using b mag_strict_mono [of "f_bits x" "f_bits MaxFloat64"] f_bits_range [of x]
    by (cases "f_bits x = f_bits MaxFloat64") auto
  moreover have "\<not> f_sign MaxFloat64" by (simp add: f_sign_def MaxFloat64_def)
  ultimately show ?thesis using mag_nonneg [of "f_bits x"] f_bits_range [of x] by (simp add: f_val_def)
qed

text \<open>The loop computes the highest high and the lowest low, on finite data.\<close>

lemma range_loop_bounds:
  assumes "f_fin h" "f_fin l" "\<forall>b \<in> set bs. f_fin (fst b) \<and> f_fin (snd b)" "range_loop h l bs = (h', l')"
  shows "f_fin h' \<and> f_fin l' \<and> f_val h \<le> f_val h' \<and> f_val l' \<le> f_val l \<and>
    (\<forall>b \<in> set bs. f_val (fst b) \<le> f_val h' \<and> f_val l' \<le> f_val (snd b)) \<and>
    h' \<in> insert h (fst ` set bs) \<and> l' \<in> insert l (snd ` set bs)"
  using assms
proof (induction bs arbitrary: h l)
  case Nil
  then show ?case by simp
next
  case (Cons b bs)
  let ?h = "if h < fst b then fst b else h" and ?l = "if snd b < l then snd b else l"
  have fin: "f_fin ?h" "f_fin ?l" using Cons.prems by auto
  have le: "f_val h \<le> f_val ?h" "f_val (fst b) \<le> f_val ?h" "f_val ?l \<le> f_val l" "f_val ?l \<le> f_val (snd b)"
    using Cons.prems f_fin_not(1) by (auto simp: f_less_val)
  from Cons.IH [OF fin] Cons.prems have
    "f_fin h' \<and> f_fin l' \<and> f_val ?h \<le> f_val h' \<and> f_val l' \<le> f_val ?l \<and>
      (\<forall>b \<in> set bs. f_val (fst b) \<le> f_val h' \<and> f_val l' \<le> f_val (snd b)) \<and>
      h' \<in> insert ?h (fst ` set bs) \<and> l' \<in> insert ?l (snd ` set bs)" by simp
  then show ?case using le by (auto split: if_splits intro: order_trans)
qed

lemma range_loop_window:
  assumes "bs \<noteq> []" "\<forall>b \<in> set bs. f_fin (fst b) \<and> f_fin (snd b)"
    "range_loop (- MaxFloat64) MaxFloat64 bs = (h, l)"
  shows "f_fin h \<and> f_val h = Max (f_val ` fst ` set bs)" "f_fin l \<and> f_val l = Min (f_val ` snd ` set bs)"
proof -
  have fin: "f_fin (- MaxFloat64)" "f_fin MaxFloat64" by simp_all
  note r = range_loop_bounds [OF fin assms(2,3)]
  obtain b where b: "b \<in> set bs" using assms(1) by (cases bs) auto
  have "h = - MaxFloat64 \<Longrightarrow> f_val (fst b) = f_val h"
    using r b MaxFloat64_greatest [of "fst b"] assms(2) by fastforce
  moreover have "f_val (fst b) \<in> f_val ` fst ` set bs" using b by blast
  ultimately have "f_val h \<in> f_val ` fst ` set bs" using r by (cases "h = - MaxFloat64") auto
  then show "f_fin h \<and> f_val h = Max (f_val ` fst ` set bs)"
    using r by (auto intro!: Max_eqI [symmetric])
  have "l = MaxFloat64 \<Longrightarrow> f_val (snd b) = f_val l"
    using r b MaxFloat64_greatest [of "snd b"] assms(2) by fastforce
  moreover have "f_val (snd b) \<in> f_val ` snd ` set bs" using b by blast
  ultimately have "f_val l \<in> f_val ` snd ` set bs" using r by (cases "l = MaxFloat64") auto
  then show "f_fin l \<and> f_val l = Min (f_val ` snd ` set bs)"
    using r by (auto intro!: Min_eqI [symmetric])
qed

text \<open>The window of the last 24 bars, as highs paired with lows.\<close>

definition window24 :: "f64 list \<Rightarrow> f64 list \<Rightarrow> (f64 \<times> f64) list" where
  "window24 highs lows = last_n 24 (zip highs lows)"

lemma window24_nonempty:
  assumes "highs \<noteq> []" "length lows = length highs"
  shows "window24 highs lows \<noteq> []"
proof -
  have "length highs - 24 < length highs" using assms(1) by simp
  then show ?thesis using assms(2) by (simp add: window24_def last_n_def not_le)
qed

lemma sigma24h_value:
  assumes "highs \<noteq> []" "length lows = length highs"
    and "\<forall>b \<in> set (window24 highs lows). f_fin (fst b) \<and> f_fin (snd b) \<and> 0 < f_val (snd b)"
  defines "H \<equiv> Max (f_val ` fst ` set (window24 highs lows))"
    and "L \<equiv> Min (f_val ` snd ` set (window24 highs lows))"
  shows "0 < L" "\<bar>R (H - L)\<bar> < f_lim \<Longrightarrow> f_val (sigma24h highs lows) = R (R (H - L) / L)"
proof -
  obtain h l where hl: "range_loop (- MaxFloat64) MaxFloat64 (window24 highs lows) = (h, l)" by fastforce
  have ne: "window24 highs lows \<noteq> []" using assms(1,2) by (rule window24_nonempty)
  have fin: "\<forall>b \<in> set (window24 highs lows). f_fin (fst b) \<and> f_fin (snd b)" using assms(3) by blast
  note w = range_loop_window [OF ne fin hl, folded H_def L_def]
  have "L \<in> f_val ` snd ` set (window24 highs lows)" unfolding L_def using ne by (intro Min_in) auto
  then show L: "0 < L" using assms(3) by auto
  assume small: "\<bar>R (H - L)\<bar> < f_lim"
  have d: "f_val (h - l) = R (H - L)" using w by (simp add: f_val_sub)
  have "\<not> f_nan (h - l)" using w by (simp add: f_nan_sub)
  then have "f_fin (h - l)" using d small by (simp add: f_fin_iff)
  moreover have "\<not> l \<le> 0" using w L f_fin_not(1) by (simp add: f_le_val)
  ultimately show "f_val (sigma24h highs lows) = R (R (H - L) / L)"
    using assms(1,2) hl w L d by (simp add: sigma24h_def window24_def f_val_div)
qed

section \<open>Runs\<close>

text \<open>A tick sees the closes so far, the highs and lows the caller supplies, and the runtime state
  of the tick before. \<open>ms_run\<close> is the state after each close of \<open>ps\<close> has been the
  current price once, on top of the warm-up closes \<open>cs\<close>.\<close>

definition ms_tick :: "(f64 list \<Rightarrow> f64 list \<times> f64 list) \<Rightarrow> f64 list \<Rightarrow> RuntimeState \<Rightarrow> RuntimeState" where
  "ms_tick hl closes rt = snd (ComputeMarketState \<lparr>MsCloses = closes, MsHighs = fst (hl closes),
     MsLows = snd (hl closes), MsPrice = last closes, MsRT = rt\<rparr>)"

primrec ms_run :: "(f64 list \<Rightarrow> f64 list \<times> f64 list) \<Rightarrow> f64 list \<Rightarrow> f64 list \<Rightarrow> RuntimeState \<Rightarrow> RuntimeState" where
  "ms_run hl cs [] rt = rt"
| "ms_run hl cs (p # ps) rt = ms_run hl (cs @ [p]) ps (ms_tick hl (cs @ [p]) rt)"

lemma ms_run_snoc:
  "ms_run hl cs (ps @ [p]) rt = ms_tick hl (cs @ ps @ [p]) (ms_run hl cs ps rt)"
  by (induction ps arbitrary: cs rt) simp_all

lemma feq_0_zero: "feq 0 0"
  by code_simp

text \<open>Both branches of the update compute the average of the whole series: from a zero state it is
  computed in full, and after that the increment agrees with it.\<close>

lemma next_ema200_full:
  assumes "EMA200 (MsRT inp) = EMA cs ema200Period" "MsCloses inp = cs @ [MsPrice inp]"
  shows "next_ema200 inp = EMA (MsCloses inp) ema200Period"
proof (cases "cs = []")
  case True
  then show ?thesis using assms by (simp add: next_ema200_def EMA_Nil feq_0_zero)
next
  case False
  then show ?thesis using assms EMA_snoc [of cs ema200Period "MsPrice inp"]
    by (simp add: next_ema200_def ema200Period_def)
qed

text \<open>The averages of the prefixes of a series that end at its last closes.\<close>

definition prefix_emas :: "f64 list \<Rightarrow> f64 list \<Rightarrow> f64 list" where
  "prefix_emas cs ps = map (\<lambda>k. EMA (cs @ take (Suc k) ps) ema200Period) [0..<length ps]"

lemma prefix_emas_snoc: "prefix_emas cs (ps @ [p]) = prefix_emas cs ps @ [EMA (cs @ ps @ [p]) ema200Period]"
  by (simp add: prefix_emas_def)

lemma last_n_snoc: "last_n ema200HistMax (last_n ema200HistMax xs @ [x]) = last_n ema200HistMax (xs @ [x])"
  by (cases "11 \<le> length xs") (auto simp: last_n_def ema200HistMax_def Suc_diff_le [symmetric])

lemma ms_run_emas:
  "EMA200 (ms_run hl [] ps zero_runtime) = EMA ps ema200Period \<and>
   EMA200History (ms_run hl [] ps zero_runtime) = last_n ema200HistMax (prefix_emas [] ps)"
proof (induction ps rule: rev_induct)
  case Nil
  then show ?case by (simp add: zero_runtime_def EMA_Nil prefix_emas_def last_n_def)
next
  case (snoc p ps)
  let ?rt = "ms_run hl [] ps zero_runtime"
  have e: "next_ema200 \<lparr>MsCloses = ps @ [p], MsHighs = fst (hl (ps @ [p])), MsLows = snd (hl (ps @ [p])),
      MsPrice = p, MsRT = ?rt\<rparr> = EMA (ps @ [p]) ema200Period"
    using next_ema200_full [where cs = ps] snoc.IH by simp
  show ?case
    using snoc.IH
    by (simp add: ms_run_snoc ms_tick_def ComputeMarketState_rt e push_history_def prefix_emas_snoc last_n_snoc)
qed

section \<open>Properties\<close>

text \<open>The three regimes are exhaustive and exclusive, and each is reported under exactly its
  condition: QUIET when the 24-bar range is below 1.5 percent, BULL when it is not and the price is
  above the new EMA200 while the EMA200 slope is positive, BEAR otherwise. The quiet flag says
  QUIET, and the multipliers are always one.\<close>

theorem regime_conditions:
  fixes inp :: MarketStateInput
  defines "res \<equiv> fst (ComputeMarketState inp)"
  shows "State res = (if sigma24h (MsHighs inp) (MsLows inp) < quietSigmaThresh then ''QUIET''
      else if next_ema200 inp < MsPrice inp \<and>
        0 < ema200Slope (push_history (EMA200History (MsRT inp)) (next_ema200 inp)) then ''BULL''
      else ''BEAR'') \<and>
    IsQuiet res = (State res = ''QUIET'') \<and> BetaMultiplier res = 1 \<and> TimeDilationMultiplier res = 1"
  by (simp add: res_def ComputeMarketState_res)

text \<open>From the zero runtime state, ticking through a series one close at a time leaves the EMA200
  of the whole series, bit for bit, and a history of exactly the last eleven such averages (all of
  them when there are fewer).\<close>

theorem ema200_run:
  "EMA200 (ms_run hl [] ps zero_runtime) = EMA ps ema200Period \<and>
   EMA200History (ms_run hl [] ps zero_runtime) = last_n ema200HistMax (prefix_emas [] ps) \<and>
   length (EMA200History (ms_run hl [] ps zero_runtime)) = min 11 (length ps)"
  using ms_run_emas [of hl ps] by (auto simp: last_n_def prefix_emas_def ema200HistMax_def)

text \<open>On finite data with positive lows the volatility is the range of the last 24 bars, the
  highest high less the lowest low, divided by the lowest low, each operation rounded once.\<close>

theorem sigma24h_range:
  assumes "highs \<noteq> []" "length lows = length highs"
    and "\<forall>b \<in> set (window24 highs lows). f_fin (fst b) \<and> f_fin (snd b) \<and> 0 < f_val (snd b)"
    and "\<bar>R (Max (f_val ` fst ` set (window24 highs lows)) - Min (f_val ` snd ` set (window24 highs lows)))\<bar> < f_lim"
  shows "f_val (sigma24h highs lows) =
    R (R (Max (f_val ` fst ` set (window24 highs lows)) - Min (f_val ` snd ` set (window24 highs lows)))
      / Min (f_val ` snd ` set (window24 highs lows)))"
  using sigma24h_value(2) [OF assms(1-3)] assms(4) by simp

theorem sigma24h_range_witness:
  "f_val (sigma24h [lit 4 1] [lit 2 1]) = 1"
proof -
  have w: "window24 [lit 4 1] [lit 2 1] = [(lit 4 1, lit 2 1)]" by (simp add: window24_def last_n_def)
  have R: "R 2 = 2" "R 1 = 1" using R_of_int [of 2] R_of_int [of 1] by simp_all
  have v: "f_val (lit 4 1) = 4" "f_fin (lit 4 1)" using lit_int [of 4] by simp_all
  have "(2::rat) powi 1 < f_lim" unfolding f_lim_def p2_less_iff by simp
  then have l: "2 < f_lim" by (simp only: power_int_1_right)
  show ?thesis
    using sigma24h_range [of "[lit 4 1]" "[lit 2 1]"] by (simp add: w v R l)
qed

end
