(* ===== verification/MacroEngine.thy ===== *)
theory MacroEngine
  imports QuantMath
begin

text \<open>
  \<open>internal/quant/macro_engine.go\<close>: the monthly reset, the three price-drop tiers and
  the month key. The lemmas say that the loop fires the first eligible tier, what an order costs,
  and that a tier fires at most once in a month.
\<close>

section \<open>Definitions\<close>

definition macroMinOrderUSDT :: f64 where "macroMinOrderUSDT = lit 101 10"
definition tier1DropMul :: f64 where "tier1DropMul = lit 1 1"
definition tier2DropMul :: f64 where "tier2DropMul = lit 15 10"
definition tier3DropMul :: f64 where "tier3DropMul = lit 2 1"
definition tier1SpendPct :: f64 where "tier1SpendPct = lit 5 100"
definition tier2SpendPct :: f64 where "tier2SpendPct = lit 10 100"
definition tier3SpendPct :: f64 where "tier3SpendPct = lit 15 100"

record MacroInput =
  McPrice :: f64
  McPortfolio :: PortfolioState
  McParams :: Chromosome
  McRT :: RuntimeState
  McMonthStr :: string

record MacroOutput =
  McIntent :: "TradeIntent option"
  McOutRT :: RuntimeState

record tier =
  t_id :: i64
  t_trigger :: f64
  t_spendPct :: f64

primrec containsInt :: "i64 list \<Rightarrow> i64 \<Rightarrow> bool" where
  "containsInt [] v = False"
| "containsInt (x # xs) v = (if x = v then True else containsInt xs v)"

definition month_reset :: "MacroInput \<Rightarrow> RuntimeState" where
  "month_reset inp = (let rt = McRT inp in
     if McMonthStr inp \<noteq> MonthStr rt
     then rt\<lparr>MonthStr := McMonthStr inp, MonthHigh := McPrice inp, TriggeredTiers := []\<rparr>
     else if MonthHigh rt < McPrice inp then rt\<lparr>MonthHigh := McPrice inp\<rparr> else rt)"

definition macro_tiers :: "f64 \<Rightarrow> f64 \<Rightarrow> tier list" where
  "macro_tiers monthHigh dr =
     [\<lparr>t_id = 1, t_trigger = monthHigh * (1 - dr * tier1DropMul), t_spendPct = tier1SpendPct\<rparr>,
      \<lparr>t_id = 2, t_trigger = monthHigh * (1 - dr * tier2DropMul), t_spendPct = tier2SpendPct\<rparr>,
      \<lparr>t_id = 3, t_trigger = monthHigh * (1 - dr * tier3DropMul), t_spendPct = tier3SpendPct\<rparr>]"

primrec tier_loop :: "f64 \<Rightarrow> f64 \<Rightarrow> RuntimeState \<Rightarrow> tier list \<Rightarrow> MacroOutput" where
  "tier_loop price spendable rt [] = \<lparr>McIntent = None, McOutRT = rt\<rparr>"
| "tier_loop price spendable rt (t # ts) =
     (if t_trigger t \<le> price then tier_loop price spendable rt ts
      else if containsInt (TriggeredTiers rt) (t_id t) then tier_loop price spendable rt ts
      else let amount = RoundToUSDT (spendable * t_spendPct t) in
        if amount < macroMinOrderUSDT then tier_loop price spendable rt ts
        else let amount = (if spendable < amount then RoundToUSDT spendable else amount) in
          \<lparr>McIntent = Some \<lparr>Action = ''BUY'', Engine = ''MACRO'', LotType = ''DEAD_STACK'',
             AmountUSDT = amount, QtyAsset = 0\<rparr>,
           McOutRT = rt\<lparr>TriggeredTiers := TriggeredTiers rt @ [t_id t]\<rparr>\<rparr>)"

definition ComputeMacroDecision :: "MacroInput \<Rightarrow> MacroOutput" where
  "ComputeMacroDecision inp = (let rt = month_reset inp in
     if SpendableUSDT (McPortfolio inp) \<le> 0 \<or> MonthHigh rt \<le> 0
     then \<lparr>McIntent = None, McOutRT = rt\<rparr>
     else tier_loop (McPrice inp) (SpendableUSDT (McPortfolio inp)) rt
       (macro_tiers (MonthHigh rt) (DCADropPct (McParams inp))))"

definition MonthKey :: "i64 \<Rightarrow> string" where
  "MonthKey tsMillis = (if sint tsMillis \<le> 0 then ''''
     else case utc_month tsMillis of (y, m) \<Rightarrow> show_int y @ ''-'' @ pad2 m)"

section \<open>The first eligible tier\<close>

lemma containsInt_iff [simp]: "containsInt xs v \<longleftrightarrow> v \<in> set xs"
  by (induction xs) auto

text \<open>A tier is eligible when the price is below its trigger, it has not fired this month and its
  order reaches the minimum.\<close>

definition eligible :: "f64 \<Rightarrow> f64 \<Rightarrow> RuntimeState \<Rightarrow> tier \<Rightarrow> bool" where
  "eligible price spendable rt t \<longleftrightarrow> \<not> t_trigger t \<le> price \<and> t_id t \<notin> set (TriggeredTiers rt) \<and>
     \<not> RoundToUSDT (spendable * t_spendPct t) < macroMinOrderUSDT"

definition order_amount :: "f64 \<Rightarrow> tier \<Rightarrow> f64" where
  "order_amount spendable t = (let amount = RoundToUSDT (spendable * t_spendPct t) in
     if spendable < amount then RoundToUSDT spendable else amount)"

definition macro_buy :: "f64 \<Rightarrow> TradeIntent" where
  "macro_buy amount = \<lparr>Action = ''BUY'', Engine = ''MACRO'', LotType = ''DEAD_STACK'',
     AmountUSDT = amount, QtyAsset = 0\<rparr>"

lemma tier_loop_find:
  "tier_loop price spendable rt ts = (case find (eligible price spendable rt) ts of
     None \<Rightarrow> \<lparr>McIntent = None, McOutRT = rt\<rparr>
   | Some t \<Rightarrow> \<lparr>McIntent = Some (macro_buy (order_amount spendable t)),
       McOutRT = rt\<lparr>TriggeredTiers := TriggeredTiers rt @ [t_id t]\<rparr>\<rparr>)"
  by (induction ts) (simp_all add: eligible_def order_amount_def macro_buy_def Let_def)

text \<open>The tier a tick fires, if any.\<close>

definition fired_tier :: "MacroInput \<Rightarrow> tier option" where
  "fired_tier inp = (let rt = month_reset inp in
     if SpendableUSDT (McPortfolio inp) \<le> 0 \<or> MonthHigh rt \<le> 0 then None
     else find (eligible (McPrice inp) (SpendableUSDT (McPortfolio inp)) rt)
       (macro_tiers (MonthHigh rt) (DCADropPct (McParams inp))))"

lemma ComputeMacroDecision_fired:
  "ComputeMacroDecision inp = (case fired_tier inp of
     None \<Rightarrow> \<lparr>McIntent = None, McOutRT = month_reset inp\<rparr>
   | Some t \<Rightarrow> \<lparr>McIntent = Some (macro_buy (order_amount (SpendableUSDT (McPortfolio inp)) t)),
       McOutRT = (month_reset inp)\<lparr>TriggeredTiers := TriggeredTiers (month_reset inp) @ [t_id t]\<rparr>\<rparr>)"
  by (simp add: ComputeMacroDecision_def fired_tier_def Let_def tier_loop_find)

lemma fired_tierD:
  assumes "fired_tier inp = Some t"
  shows "t \<in> set (macro_tiers (MonthHigh (month_reset inp)) (DCADropPct (McParams inp)))"
    and "eligible (McPrice inp) (SpendableUSDT (McPortfolio inp)) (month_reset inp) t"
    and "\<not> SpendableUSDT (McPortfolio inp) \<le> 0"
  using assms by (auto simp: fired_tier_def Let_def find_Some_iff split: if_splits)

lemma macro_tiers_cases:
  assumes "t \<in> set (macro_tiers h d)"
  shows "t_id t \<in> {1, 2, 3}" "t_spendPct t \<in> {tier1SpendPct, tier2SpendPct, tier3SpendPct}"
  using assms by (auto simp: macro_tiers_def)

lemma month_reset_frame:
  "EMA200 (month_reset inp) = EMA200 (McRT inp)" "EMA200History (month_reset inp) = EMA200History (McRT inp)"
  "StopLossHit (month_reset inp) = StopLossHit (McRT inp)" "MonthStr (month_reset inp) = McMonthStr inp"
  by (simp_all add: month_reset_def Let_def)

lemma macro_frame:
  "EMA200 (McOutRT (ComputeMacroDecision inp)) = EMA200 (McRT inp)"
  "EMA200History (McOutRT (ComputeMacroDecision inp)) = EMA200History (McRT inp)"
  "StopLossHit (McOutRT (ComputeMacroDecision inp)) = StopLossHit (McRT inp)"
  "MonthStr (McOutRT (ComputeMacroDecision inp)) = McMonthStr inp"
  "MonthHigh (McOutRT (ComputeMacroDecision inp)) = MonthHigh (month_reset inp)"
  by (simp_all add: ComputeMacroDecision_fired month_reset_frame split: option.split)

section \<open>Once a month\<close>

definition tiers_ok :: "RuntimeState \<Rightarrow> bool" where
  "tiers_ok rt \<longleftrightarrow> distinct (TriggeredTiers rt) \<and> set (TriggeredTiers rt) \<subseteq> {1, 2, 3}"

lemma month_reset_ok: "tiers_ok (McRT inp) \<Longrightarrow> tiers_ok (month_reset inp)"
  by (simp add: tiers_ok_def month_reset_def Let_def)

lemma macro_tiers_ok:
  assumes "tiers_ok (McRT inp)"
  shows "tiers_ok (McOutRT (ComputeMacroDecision inp))"
proof (cases "fired_tier inp")
  case None
  then show ?thesis using month_reset_ok [OF assms] by (simp add: ComputeMacroDecision_fired)
next
  case (Some t)
  from fired_tierD(1,2) [OF this] macro_tiers_cases(1) month_reset_ok [OF assms] show ?thesis
    by (fastforce simp: ComputeMacroDecision_fired Some tiers_ok_def eligible_def)
qed

lemma tiers_ok_length:
  assumes "tiers_ok rt"
  shows "length (TriggeredTiers rt) \<le> 3"
proof -
  have "card (set (TriggeredTiers rt)) \<le> card {1, 2, 3 :: i64}"
    using assms by (intro card_mono) (auto simp: tiers_ok_def)
  also have "\<dots> \<le> 3" by (simp add: card_insert_if)
  finally show ?thesis using assms by (simp add: tiers_ok_def distinct_card)
qed

section \<open>What an order costs\<close>

lemma u_bounds: "(0::rat) \<le> 2 powi (- 53)" "(2::rat) powi (- 53) \<le> 1 / 1000"
proof -
  show "(0::rat) \<le> 2 powi (- 53)" by simp
  have "(2::rat) powi (- 53) \<le> 2 powi (- 10)" by (rule p2_mono) simp
  also have "\<dots> \<le> 1 / 1000" by (simp add: power_int_minus)
  finally show "(2::rat) powi (- 53) \<le> 1 / 1000" .
qed

lemma tiny_le: "x \<ge> 1 / 1000 \<Longrightarrow> (2::rat) powi (- 1022) \<le> x"
  using p2_mono [of "- 1022" "- 53"] u_bounds(2) by linarith

lemma R_scaled:
  assumes "1 / 1000 \<le> x" "x \<le> b" "b * (1 + 1 / 1000) \<le> c"
  shows "R x \<le> c"
proof -
  have "R x \<le> x * (1 + 2 powi (- 53))" using assms(1) by (intro R_upper tiny_le)
  also have "\<dots> \<le> b * (1 + 1 / 1000)" using assms u_bounds by (intro mult_mono) auto
  finally show ?thesis using assms(3) by linarith
qed

lemma spend_pct_bounds:
  assumes "p \<in> {tier1SpendPct, tier2SpendPct, tier3SpendPct}"
  shows "f_fin p" "0 \<le> f_val p" "f_val p \<le> 16 / 100"
proof -
  have fin: "f_fin tier1SpendPct" "f_fin tier2SpendPct" "f_fin tier3SpendPct" by (code_simp, code_simp, code_simp)
  have "f_val tier1SpendPct \<le> 16 / 100" "f_val tier2SpendPct \<le> 16 / 100" "f_val tier3SpendPct \<le> 16 / 100"
    unfolding tier1SpendPct_def tier2SpendPct_def tier3SpendPct_def lit_def f_val_rnd
    by (rule R_scaled [of _ "15 / 100"]; simp)+
  moreover have "0 \<le> f_val tier1SpendPct" "0 \<le> f_val tier2SpendPct" "0 \<le> f_val tier3SpendPct"
    unfolding tier1SpendPct_def tier2SpendPct_def tier3SpendPct_def lit_def f_val_rnd
    by (rule R_nonneg; simp)+
  ultimately show "f_fin p" "0 \<le> f_val p" "f_val p \<le> 16 / 100" using assms fin by auto
qed

lemma RoundToUSDT_10: "f_val (RoundToUSDT (lit 10 1)) = 10"
proof -
  have "(10::rat) \<le> 2 powi 1000"
  proof -
    have "(10::rat) \<le> 2 powi 4" by (simp add: power_int_def)
    also have "\<dots> \<le> 2 powi 1000" by (rule p2_mono) simp
    finally show ?thesis .
  qed
  then have "f_val (RoundToUSDT (lit 10 1)) = R (of_int \<lfloor>R (100 * 10) + 1 / 2\<rfloor> / 100)"
    using RoundToUSDT_val(1) [of "lit 10 1"] by (simp del: power_int_numeral)
  also have "R (100 * 10) = 1000" using R_of_int [of 1000] by simp
  also have "\<lfloor>1000 + 1 / 2 :: rat\<rfloor> = 1000" by (simp add: floor_eq_iff)
  also have "R (of_int 1000 / 100) = 10" using R_of_int [of 10] by simp
  finally show ?thesis .
qed

text \<open>An order that reaches the minimum never exceeds the spendable balance.\<close>

lemma order_amount_bounds:
  assumes sp: "f_fin sp" "f_val sp \<le> 2 powi 1000" "\<not> sp \<le> 0"
    and t: "t_spendPct t \<in> {tier1SpendPct, tier2SpendPct, tier3SpendPct}"
    and min: "\<not> RoundToUSDT (sp * t_spendPct t) < macroMinOrderUSDT"
  shows "order_amount sp t = RoundToUSDT (sp * t_spendPct t)"
    "macroMinOrderUSDT \<le> order_amount sp t" "order_amount sp t \<le> sp" "f_fin (order_amount sp t)"
proof -
  let ?p = "t_spendPct t" let ?v = "sp * ?p" let ?a = "RoundToUSDT ?v" let ?u = "2 powi (- 53) :: rat"
  note p = spend_pct_bounds [OF t]
  have sp0: "0 < f_val sp" using sp f_fin_not(1) [OF sp(1)] by (simp add: f_le_val not_le)
  note v = f_scale [OF p(1,2) _ sp(1) less_imp_le [OF sp0], unfolded f_mul_commute [of ?p]]
  have p1: "f_val ?p \<le> 1" using p(3) by simp
  note v = v [OF p1]
  have vb: "f_val ?v \<le> 2 powi 1000" using v(3) sp(2) by (rule order_trans)
  have an: "\<not> f_nan ?a" using RoundToUSDT_val(2) [OF v(1,2) vb] .
  have mn: "\<not> f_nan macroMinOrderUSDT" by code_simp
  have am: "macroMinOrderUSDT \<le> ?a" using min an mn by (simp add: f_not_less)
  have "lit 10 1 < macroMinOrderUSDT" by code_simp
  then have "10 < f_val ?a" using am by (auto dest!: f_lessD f_leD)
  have v10: "10 \<le> f_val ?v"
  proof (rule ccontr)
    assume "\<not> ?thesis"
    then have "f_val ?a \<le> f_val (RoundToUSDT (lit 10 1))"
      using v(1,2) sp(2) order_trans [OF _ p2_mono, of 10 4 1000]
      by (intro RoundToUSDT_mono) (auto simp: power_int_def simp del: power_int_numeral)
    then show False using \<open>10 < f_val ?a\<close> RoundToUSDT_10 by linarith
  qed
  have vR: "f_val ?v = R (f_val sp * f_val ?p)" using sp(1) p(1) by (rule f_val_mul)
  have "R 9 < R (f_val sp * f_val ?p)" using v10 R_of_int [of 9] by (simp add: vR)
  then have nine: "9 < f_val sp * f_val ?p" by (rule R_less)
  have prod: "f_val sp * f_val ?p \<le> f_val sp * (16 / 100)" using p sp0 by (intro mult_left_mono) auto
  have v17: "f_val ?v \<le> f_val sp * (17 / 100)"
    unfolding vR using nine prod by (intro R_scaled [of _ "f_val sp * (16 / 100)"]) auto
  have "f_val ?a \<le> (f_val ?v * (1 + ?u) + 1 / 200) * (1 + ?u)"
    using v(1) v10 vb by (intro RoundToUSDT_upper) auto
  also have "\<dots> \<le> (f_val ?v * (1 + 1 / 1000) + 1 / 200) * (1 + 1 / 1000)"
    using u_bounds v10 by (intro mult_mono add_mono) auto
  also have "\<dots> \<le> 2 * f_val ?v" using v10 by (simp add: field_simps)
  finally have le: "f_val ?a \<le> f_val sp" using v17 sp0 by linarith
  have nl: "\<not> sp < ?a" using le by (auto simp: less_f64_def)
  show eq: "order_amount sp t = ?a" using nl by (simp add: order_amount_def Let_def)
  show "macroMinOrderUSDT \<le> order_amount sp t" unfolding eq by (rule am)
  show "order_amount sp t \<le> sp" unfolding eq using le an f_fin_not(1) [OF sp(1)] by (simp add: f_le_val)
  show "f_fin (order_amount sp t)"
    unfolding eq by (rule f_fin_between [OF an f_nan_0(2) sp(1)]) (use le \<open>10 < f_val ?a\<close> in auto)
qed

section \<open>Runs\<close>

text \<open>A run of the engine threads the runtime state through a sequence of inputs and collects the
  orders; the runtime state an input carries is replaced by the one the tick before returned.\<close>

primrec macro_run :: "RuntimeState \<Rightarrow> MacroInput list \<Rightarrow> TradeIntent list \<times> RuntimeState" where
  "macro_run rt [] = ([], rt)"
| "macro_run rt (inp # inps) = (let out = ComputeMacroDecision (inp\<lparr>McRT := rt\<rparr>);
     rest = macro_run (McOutRT out) inps in
     (case McIntent out of None \<Rightarrow> fst rest | Some i \<Rightarrow> i # fst rest, snd rest))"

lemma month_reset_same: "McMonthStr inp = MonthStr (McRT inp) \<Longrightarrow>
  TriggeredTiers (month_reset inp) = TriggeredTiers (McRT inp)"
  by (simp add: month_reset_def Let_def)

text \<open>Within a month every order adds one tier to those that fired.\<close>

lemma macro_run_month:
  assumes "\<forall>inp \<in> set inps. McMonthStr inp = MonthStr rt" "tiers_ok rt"
  shows "tiers_ok (snd (macro_run rt inps)) \<and>
    length (TriggeredTiers (snd (macro_run rt inps))) =
      length (TriggeredTiers rt) + length (fst (macro_run rt inps))"
  using assms
proof (induction inps arbitrary: rt)
  case Nil
  then show ?case by simp
next
  case (Cons inp inps)
  let ?inp = "inp\<lparr>McRT := rt\<rparr>" let ?out = "ComputeMacroDecision ?inp"
  have ok: "tiers_ok (McOutRT ?out)" using macro_tiers_ok [of ?inp] Cons.prems by simp
  have m: "MonthStr (McOutRT ?out) = MonthStr rt" using macro_frame(4) [of ?inp] Cons.prems by simp
  have len: "length (TriggeredTiers (McOutRT ?out)) =
      length (TriggeredTiers rt) + (case McIntent ?out of None \<Rightarrow> 0 | Some _ \<Rightarrow> 1)"
    using month_reset_same [of ?inp] Cons.prems
    by (simp add: ComputeMacroDecision_fired split: option.split)
  have "tiers_ok (snd (macro_run (McOutRT ?out) inps)) \<and>
      length (TriggeredTiers (snd (macro_run (McOutRT ?out) inps))) =
        length (TriggeredTiers (McOutRT ?out)) + length (fst (macro_run (McOutRT ?out) inps))"
    using Cons.prems m ok by (intro Cons.IH) auto
  then show ?case using len by (simp add: Let_def split: option.split)
qed

lemma macro_run_bound:
  assumes "\<forall>inp \<in> set inps. McMonthStr inp = m" "tiers_ok rt"
  shows "length (fst (macro_run rt inps)) \<le> 3"
proof (cases inps)
  case Nil
  then show ?thesis by simp
next
  case (Cons inp rest)
  let ?rt = "if MonthStr rt = m then rt else rt\<lparr>MonthStr := m, MonthHigh := McPrice inp, TriggeredTiers := []\<rparr>"
  have reset: "month_reset (inp\<lparr>McRT := ?rt\<rparr>) = month_reset (inp\<lparr>McRT := rt\<rparr>)"
    using assms(1) Cons by (auto simp: month_reset_def Let_def less_f64_def)
  then have "ComputeMacroDecision (inp\<lparr>McRT := ?rt\<rparr>) = ComputeMacroDecision (inp\<lparr>McRT := rt\<rparr>)"
    by (simp add: ComputeMacroDecision_def Let_def)
  then have same: "macro_run ?rt inps = macro_run rt inps" by (simp add: Cons Let_def)
  have "tiers_ok ?rt" using assms(2) by (simp add: tiers_ok_def)
  from macro_run_month [OF _ this, of inps] assms(1) have
    run: "tiers_ok (snd (macro_run ?rt inps))" "length (fst (macro_run ?rt inps)) \<le>
      length (TriggeredTiers (snd (macro_run ?rt inps)))" by simp_all
  then show ?thesis using tiers_ok_length [OF run(1)] unfolding same by linarith
qed

section \<open>Properties\<close>


text \<open>A macro order buys into the dead stack for at least 10.1 USDT and never for more than the
  spendable balance, whatever the rounding of the products and of the cents.\<close>

theorem macro_order_affordable:
  assumes "f_fin (SpendableUSDT (McPortfolio inp))" "f_val (SpendableUSDT (McPortfolio inp)) \<le> 2 powi 1000"
    and "McIntent (ComputeMacroDecision inp) = Some i"
  shows "Action i = ''BUY'' \<and> Engine i = ''MACRO'' \<and> LotType i = ''DEAD_STACK'' \<and>
    macroMinOrderUSDT \<le> AmountUSDT i \<and> AmountUSDT i \<le> SpendableUSDT (McPortfolio inp)"
proof -
  obtain t where t: "fired_tier inp = Some t" and
    i: "i = macro_buy (order_amount (SpendableUSDT (McPortfolio inp)) t)"
    using assms(3) by (auto simp: ComputeMacroDecision_fired split: option.splits)
  note f = fired_tierD [OF t]
  note b = order_amount_bounds [OF assms(1,2) f(3) macro_tiers_cases(2) [OF f(1)]]
  show ?thesis using b f(2) by (simp add: i macro_buy_def eligible_def)
qed


definition macro_example :: MacroInput where
  "macro_example = \<lparr>McPrice = lit 80 1, McPortfolio = \<lparr>TotalUSDT = lit 1000 1, ReserveFloor = 0,
     SpendableUSDT = lit 1000 1, DeadStack = 0, FloatStack = 0, ColdSealedStack = 0, NAVInitial = lit 1000 1\<rparr>,
     McParams = DefaultSeedChromosome,
     McRT = zero_runtime\<lparr>MonthStr := ''2024-01'', MonthHigh := lit 100 1\<rparr>, McMonthStr = ''2024-01''\<rparr>"

theorem macro_order_affordable_witness:
  "Action (macro_buy (lit 50 1)) = ''BUY'' \<and> macroMinOrderUSDT \<le> AmountUSDT (macro_buy (lit 50 1))"
proof -
  have i: "McIntent (ComputeMacroDecision macro_example) = Some (macro_buy (lit 50 1))" by code_simp
  have sp: "SpendableUSDT (McPortfolio macro_example) = lit 1000 1" by (simp add: macro_example_def)
  have "(1000::rat) \<le> 2 powi 10" by (simp add: power_int_def)
  also have "\<dots> \<le> 2 powi 1000" by (rule p2_mono) simp
  finally have "f_fin (SpendableUSDT (McPortfolio macro_example))"
    "f_val (SpendableUSDT (McPortfolio macro_example)) \<le> 2 powi 1000"
    using lit_int [of 1000] by (simp_all add: sp del: power_int_numeral)
  from macro_order_affordable [OF this i] show ?thesis by simp
qed


end
