(* ===== verification/MicroEngine.thy ===== *)
theory MicroEngine
  imports QuantMath
begin

text \<open>
  \<open>internal/quant/micro_engine.go\<close>: the stop-loss and the sigmoid sell signal. The two
  functions of \<open>math\<close> the signal calls, \<open>Exp\<close> and \<open>Log\<close>, are a parameter
  \<open>libm\<close>; \<open>libm_ok\<close> names what the lemmas use of them. The lemmas say when the
  engine sells, how much, and that the stop-loss silences it for good.
\<close>

section \<open>Definitions\<close>

record libm =
  m_exp :: "f64 \<Rightarrow> f64"
  m_log :: "f64 \<Rightarrow> f64"

definition rTickMaxSell :: f64 where "rTickMaxSell = lit 5 100"

record MicroInput =
  MiPrice :: f64
  MiEMA200 :: f64
  MiPortfolio :: PortfolioState
  MiParams :: Chromosome
  MiRT :: RuntimeState

record MicroOutput =
  MiIntent :: "TradeIntent option"
  MiOutRT :: RuntimeState

definition micro_sell :: "f64 \<Rightarrow> TradeIntent" where
  "micro_sell qty = \<lparr>Action = ''SELL'', Engine = ''MICRO'', LotType = ''FLOATING'',
     AmountUSDT = 0, QtyAsset = qty\<rparr>"

definition sigmoid :: "libm \<Rightarrow> f64 \<Rightarrow> f64" where
  "sigmoid m x = lit 1 1 / (lit 1 1 + m_exp m (- x))"

definition sigmoid_signal :: "libm \<Rightarrow> MicroInput \<Rightarrow> f64" where
  "sigmoid_signal m inp =
     sigmoid m (SigmoidSensitivity (MiParams inp) * m_log m (MiPrice inp / MiEMA200 inp))"

definition ComputeMicroDecision :: "libm \<Rightarrow> MicroInput \<Rightarrow> MicroOutput" where
  "ComputeMicroDecision m inp = (let rt = MiRT inp; p = MiPortfolio inp in
     if \<not> StopLossHit rt \<and> roi_of p (MiPrice inp) < StopLossThreshold (MiParams inp)
     then let rt = rt\<lparr>StopLossHit := True\<rparr> in
       \<lparr>MiIntent = (if 0 < FloatStack p then Some (micro_sell (FloatStack p)) else None), MiOutRT = rt\<rparr>
     else if StopLossHit rt then \<lparr>MiIntent = None, MiOutRT = rt\<rparr>
     else if FloatStack p \<le> 0 \<or> MiEMA200 inp \<le> 0 then \<lparr>MiIntent = None, MiOutRT = rt\<rparr>
     else let s = sigmoid_signal m inp in
       if s \<le> lit 5 10 then \<lparr>MiIntent = None, MiOutRT = rt\<rparr>
       else let sellRatio = (s - lit 5 10) * lit 2 1;
                sellQty = FloatStack p * sellRatio * rTickMaxSell in
         if sellQty \<le> 0 then \<lparr>MiIntent = None, MiOutRT = rt\<rparr>
         else \<lparr>MiIntent = Some (micro_sell sellQty), MiOutRT = rt\<rparr>)"

section \<open>What is used of math.Exp and math.Log\<close>

text \<open>The exponential of a number is a number, is not negative, and is at least one on arguments
  that are not negative; the logarithm of a number that is not negative is a number, and is not
  positive up to one. Both map NaNs to NaNs. These are special cases or elementary properties of
  the documented functions that their last-place errors do not touch.\<close>

definition libm_ok :: "libm \<Rightarrow> bool" where
  "libm_ok m \<longleftrightarrow> (\<forall>x. f_nan (m_exp m x) = f_nan x) \<and> (\<forall>x. \<not> f_nan x \<longrightarrow> 0 \<le> m_exp m x) \<and>
     (\<forall>x. 0 \<le> x \<longrightarrow> 1 \<le> m_exp m x) \<and> (\<forall>x. f_nan x \<longrightarrow> f_nan (m_log m x)) \<and>
     (\<forall>x. 0 \<le> x \<longrightarrow> \<not> f_nan (m_log m x)) \<and> (\<forall>x. 0 \<le> x \<and> x \<le> 1 \<longrightarrow> m_log m x \<le> 0)"

text \<open>Functions that have these properties: a step exponential and a step logarithm.\<close>

definition step_libm :: libm where
  "step_libm = \<lparr>m_exp = (\<lambda>x. if f_nan x then f_NaN else if 0 \<le> x then 1 else lit 25 100),
     m_log = (\<lambda>x. if f_nan x \<or> x < 0 then f_NaN else if x \<le> 1 then 0 else 1)\<rparr>"

lemma step_libm_ok: "libm_ok step_libm"
proof -
  have "\<not> f_nan (lit 25 100)" "0 \<le> lit 25 100" by (code_simp, code_simp)
  then show ?thesis
    by (auto simp: libm_ok_def step_libm_def less_f64_def less_eq_f64_def)
qed

section \<open>The sigmoid\<close>

lemma half [simp]: "f_val (lit 5 10) = 1 / 2" "f_fin (lit 5 10)" "\<not> f_nan (lit 5 10)"
proof -
  have "R (of_int 1 * 2 powi (- 1)) = of_int 1 * 2 powi (- 1)" by (rule R_dyadic) simp_all
  then show "f_val (lit 5 10) = 1 / 2" by (simp add: lit_def f_val_rnd power_int_minus)
  show "f_fin (lit 5 10)" by code_simp
  then show "\<not> f_nan (lit 5 10)" by (rule f_fin_not)
qed

lemma f_add_ge:
  assumes "f_fin x" "0 \<le> y"
  shows "\<not> f_nan (x + y)" "f_val (x + y) = R (f_val x + f_val y) \<or> f_inf y \<and> x + y = y"
  using assms f_leD [OF assms(2)] f_nan_cases [of y] f_nan_add [of x y] f_val_add [of x y]
  by (auto simp: plus_f64_def dest: f_fin_not)

lemma f_div_inf: "f_fin x \<Longrightarrow> f_inf y \<Longrightarrow> \<not> f_nan y \<Longrightarrow> f_val (x / y) = 0 \<and> f_fin (x / y)"
  by (auto simp: divide_f64_def Let_def dest: f_fin_not)

lemma one_le_add:
  assumes "0 \<le> e"
  shows "\<not> f_nan (1 + e)" "1 \<le> f_val (1 + e)" "1 \<le> e \<Longrightarrow> 2 \<le> f_val (1 + e)"
proof -
  note e = f_leD [OF assms]
  note d = f_add_ge [OF f_fin_1 assms]
  show "\<not> f_nan (1 + e)" by (rule d)
  have inf: "f_inf e \<Longrightarrow> f_val e = f_lim" using e by (auto simp: f_val_inf split: if_splits)
  have "(2::rat) powi 1 < f_lim" unfolding f_lim_def p2_less_iff by simp
  then have l: "2 < f_lim" by (simp only: power_int_1_right)
  have ge: "f_val y \<le> f_val (1 + e)" if "\<not> f_nan y" "f_val y \<le> 1 + f_val e" "f_val y \<le> 2" for y
    using d(2) that inf l R_ge_val [of y "1 + f_val e"] by auto
  show "1 \<le> f_val (1 + e)" using ge [of 1] e by simp
  show "2 \<le> f_val (1 + e)" if "1 \<le> e"
    using ge [of "lit 2 1"] f_leD [OF that] f_fin_not(1) [of "lit 2 1"] by simp
qed

text \<open>One divided by a number that is at least \<open>1\<close> lies in the unit interval.\<close>

lemma recip_bounds:
  assumes "\<not> f_nan d" "1 \<le> f_val d"
  shows "f_fin (1 / d)" "0 \<le> f_val (1 / d)" "f_val (1 / d) \<le> 1" "2 \<le> f_val d \<Longrightarrow> f_val (1 / d) \<le> 1 / 2"
proof -
  have cases: "f_inf d \<or> f_fin d" using f_nan_cases [of d] assms by blast
  have nn: "\<not> f_nan (1 / d)" using cases f_div_inf [of 1 d] f_nan_div [of 1 d] assms f_fin_not by fastforce
  have v: "f_val (1 / d) = 0 \<or> f_val (1 / d) = R (1 / f_val d)"
    using cases f_div_inf [of 1 d] f_val_div [of 1 d] assms by auto
  show ge: "0 \<le> f_val (1 / d)" using v R_nonneg [of "1 / f_val d"] assms by auto
  have le: "f_val (1 / d) \<le> f_val y" if "\<not> f_nan y" "0 \<le> f_val y" "1 / f_val d \<le> f_val y" for y
    using v R_le_val [of y "1 / f_val d"] that by auto
  show le1: "f_val (1 / d) \<le> 1" using le [of 1] assms by simp
  show "f_val (1 / d) \<le> 1 / 2" if "2 \<le> f_val d"
    using le [of "lit 5 10"] that assms by (simp add: field_simps)
  show "f_fin (1 / d)"
    by (rule f_fin_between [OF nn f_nan_0(2) f_fin_1]) (use ge le1 in auto)
qed

lemma lit_1 [simp]: "lit 1 1 = 1"
  by (simp add: lit_def one_f64_def)

lemma sigmoid_bounds:
  assumes "libm_ok m" "\<not> f_nan x"
  shows "f_fin (sigmoid m x)" "0 \<le> f_val (sigmoid m x)" "f_val (sigmoid m x) \<le> 1"
proof -
  have "0 \<le> m_exp m (- x)" using assms by (simp add: libm_ok_def)
  note o = one_le_add [OF this]
  show "f_fin (sigmoid m x)" "0 \<le> f_val (sigmoid m x)" "f_val (sigmoid m x) \<le> 1"
    unfolding sigmoid_def lit_1 using recip_bounds [OF o(1,2)] by auto
qed

lemma sigmoid_low:
  assumes "libm_ok m" "x \<le> 0"
  shows "sigmoid m x \<le> lit 5 10"
proof -
  note x = f_leD [OF assms(2)]
  have "0 \<le> - x" using x by (simp add: f_le_val)
  then have e: "1 \<le> m_exp m (- x)" "0 \<le> m_exp m (- x)" using assms(1) x by (simp_all add: libm_ok_def)
  note o = one_le_add [OF e(2)]
  show ?thesis
    unfolding sigmoid_def lit_1
    using recip_bounds [OF o(1,2)] o(3) [OF e(1)] f_fin_not(1) by (simp add: f_le_val)
qed

section \<open>The signal\<close>

text \<open>An input the engine is meant for: positive finite price and sensitivity.\<close>

definition micro_input_ok :: "MicroInput \<Rightarrow> bool" where
  "micro_input_ok inp \<longleftrightarrow> f_fin (MiPrice inp) \<and> 0 < f_val (MiPrice inp) \<and> f_fin (MiEMA200 inp) \<and>
     f_fin (SigmoidSensitivity (MiParams inp)) \<and> 0 < f_val (SigmoidSensitivity (MiParams inp)) \<and>
     f_fin (FloatStack (MiPortfolio inp))"

lemma f_div_nonneg:
  assumes "f_fin x" "0 \<le> f_val x" "f_fin y" "0 < f_val y"
  shows "0 \<le> x / y" "f_val x \<le> f_val y \<Longrightarrow> x / y \<le> 1"
proof -
  have v: "f_val (x / y) = R (f_val x / f_val y)" "\<not> f_nan (x / y)"
    using assms by (simp_all add: f_val_div f_nan_div)
  show "0 \<le> x / y" using v R_nonneg [of "f_val x / f_val y"] assms by (simp add: f_le_val)
  show "x / y \<le> 1" if "f_val x \<le> f_val y"
    using v R_le_val [of 1 "f_val x / f_val y"] that assms by (simp add: f_le_val)
qed

text \<open>The sign of a product with a positive finite factor, infinities included.\<close>

lemma f_val_fin_inf: "f_inf x \<Longrightarrow> f_val x \<noteq> 0"
  by (simp add: f_val_inf)

lemma f_mul_pos_sign:
  assumes "f_fin k" "0 < f_val k" "\<not> f_nan y"
  shows "\<not> f_nan (k * y)" "f_val y \<le> 0 \<Longrightarrow> f_val (k * y) \<le> 0"
proof -
  have ks: "\<not> f_sign k" using assms mag_nonneg [of "f_bits k"] f_bits_range [of k] by (auto simp: f_val_def split: if_splits)
  have cases: "f_inf y \<or> f_fin y" using f_nan_cases [of y] assms(3) by blast
  show "\<not> f_nan (k * y)"
    using cases f_nan_mul [OF assms(1), of y] assms f_val_fin_inf [of y]
    by (auto simp: times_f64_def Let_def dest: f_fin_not)
  show "f_val (k * y) \<le> 0" if "f_val y \<le> 0"
  proof (cases "f_inf y")
    case True
    then have "f_sign y" using that by (auto simp: f_val_inf split: if_splits)
    then show ?thesis using True assms ks f_fin_not [OF assms(1)] f_val_fin_inf [of y]
      by (simp add: times_f64_def Let_def)
  next
    case False
    then have "f_val (k * y) = R (f_val k * f_val y)" using cases assms by (simp add: f_val_mul)
    moreover have "f_val k * f_val y \<le> 0" using that assms by (simp add: mult_nonneg_nonpos)
    ultimately show ?thesis by (simp add: R_nonpos)
  qed
qed

lemma signal_number:
  assumes "libm_ok m" "micro_input_ok inp" "\<not> MiEMA200 inp \<le> 0"
  shows "f_fin (sigmoid_signal m inp)" "f_val (sigmoid_signal m inp) \<le> 1"
    "MiPrice inp \<le> MiEMA200 inp \<Longrightarrow> sigmoid_signal m inp \<le> lit 5 10"
proof -
  let ?k = "SigmoidSensitivity (MiParams inp)" and ?r = "MiPrice inp / MiEMA200 inp"
  have e: "f_fin (MiEMA200 inp)" "0 < f_val (MiEMA200 inp)"
    using assms(2,3) f_fin_not(1) [of "MiEMA200 inp"] by (auto simp: micro_input_ok_def f_le_val)
  have p: "f_fin (MiPrice inp)" "0 \<le> f_val (MiPrice inp)" and k: "f_fin ?k" "0 < f_val ?k"
    using assms(2) by (auto simp: micro_input_ok_def)
  note r = f_div_nonneg [OF p e]
  have l: "\<not> f_nan (m_log m ?r)" using assms(1) r(1) by (simp add: libm_ok_def)
  have x: "\<not> f_nan (?k * m_log m ?r)" by (rule f_mul_pos_sign(1) [OF k l])
  show "f_fin (sigmoid_signal m inp)" "f_val (sigmoid_signal m inp) \<le> 1"
    unfolding sigmoid_signal_def using sigmoid_bounds [OF assms(1) x] by auto
  assume "MiPrice inp \<le> MiEMA200 inp"
  then have "?r \<le> 1" using r(2) by (auto dest: f_leD)
  then have "m_log m ?r \<le> 0" using assms(1) r(1) by (simp add: libm_ok_def)
  then have "?k * m_log m ?r \<le> 0"
    using x f_mul_pos_sign(2) [OF k l] by (auto simp: f_le_val dest: f_leD)
  then show "sigmoid_signal m inp \<le> lit 5 10"
    unfolding sigmoid_signal_def by (rule sigmoid_low [OF assms(1)])
qed

text \<open>The quantity a signal between one half and one sells.\<close>

lemma sell_qty_bounds:
  assumes s: "f_fin s" "\<not> s \<le> lit 5 10" "f_val s \<le> 1" and q: "f_fin q" "0 \<le> f_val q"
  shows "\<not> f_nan (q * ((s - lit 5 10) * lit 2 1) * rTickMaxSell)"
    "f_val (q * ((s - lit 5 10) * lit 2 1) * rTickMaxSell) \<le> f_val (q * rTickMaxSell)"
    "f_val (q * rTickMaxSell) \<le> f_val q"
proof -
  let ?d = "s - lit 5 10" let ?r = "?d * lit 2 1"
  have r5: "f_fin rTickMaxSell" "0 \<le> f_val rTickMaxSell" "f_val rTickMaxSell \<le> 1"
  proof -
    have f: "f_fin rTickMaxSell" "0 \<le> rTickMaxSell" "rTickMaxSell \<le> 1" by (code_simp, code_simp, code_simp)
    show "f_fin rTickMaxSell" "0 \<le> f_val rTickMaxSell" "f_val rTickMaxSell \<le> 1"
      using f by (auto dest: f_leD)
  qed
  have s2: "1 / 2 < f_val s" using s f_fin_not(1) [OF s(1)] by (simp add: f_le_val not_le)
  have dv: "f_val ?d = R (f_val s - 1 / 2)" "\<not> f_nan ?d" using s by (simp_all add: f_val_sub f_nan_sub)
  have d: "0 \<le> f_val ?d" "f_val ?d \<le> 1 / 2"
    using dv R_nonneg [of "f_val s - 1 / 2"] R_le_val [of "lit 5 10" "f_val s - 1 / 2"] s s2 by auto
  have df: "f_fin ?d" by (rule f_fin_between [OF dv(2) f_nan_0(2) half(2)]) (use d in auto)
  have rv: "f_val ?r = R (f_val ?d * 2)" "\<not> f_nan ?r" using df by (simp_all add: f_val_mul f_nan_mul)
  have r: "0 \<le> f_val ?r" "f_val ?r \<le> 1"
    using rv R_nonneg [of "f_val ?d * 2"] R_le_val [of 1 "f_val ?d * 2"] d by auto
  have rf: "f_fin ?r" by (rule f_fin_between [OF rv(2) f_nan_0(2) f_fin_1]) (use r in auto)
  note qr = f_scale [OF rf r q, unfolded f_mul_commute [of ?r]]
  show "\<not> f_nan (q * ?r * rTickMaxSell)" using qr(1) r5(1) by (rule f_nan_mul)
  have "f_val (q * ?r) * f_val rTickMaxSell \<le> f_val q * f_val rTickMaxSell"
    using qr(3) r5(2) by (rule mult_right_mono)
  then show "f_val (q * ?r * rTickMaxSell) \<le> f_val (q * rTickMaxSell)"
    using qr(1) r5(1) q(1) by (simp add: f_val_mul R_mono)
  show "f_val (q * rTickMaxSell) \<le> f_val q"
    using f_scale(3) [OF r5 q] by (simp add: f_mul_commute [of rTickMaxSell])
qed

section \<open>The decision\<close>

abbreviation stop_loss_fires :: "MicroInput \<Rightarrow> bool" where
  "stop_loss_fires inp \<equiv> \<not> StopLossHit (MiRT inp) \<and>
     roi_of (MiPortfolio inp) (MiPrice inp) < StopLossThreshold (MiParams inp)"

lemma micro_rt: "MiOutRT (ComputeMicroDecision m inp) =
  (if stop_loss_fires inp then (MiRT inp)\<lparr>StopLossHit := True\<rparr> else MiRT inp)"
  by (simp add: ComputeMicroDecision_def Let_def)

lemma micro_shape: "MiIntent (ComputeMicroDecision m inp) = Some i \<Longrightarrow>
  \<exists>q. i = micro_sell q \<and> \<not> q \<le> 0 \<and> \<not> FloatStack (MiPortfolio inp) \<le> 0"
  by (auto simp: ComputeMicroDecision_def Let_def less_f64_def less_eq_f64_def split: if_splits)

lemma micro_stop_loss_cases:
  "stop_loss_fires inp \<Longrightarrow> MiIntent (ComputeMicroDecision m inp) =
     (if 0 < FloatStack (MiPortfolio inp) then Some (micro_sell (FloatStack (MiPortfolio inp))) else None)"
  "StopLossHit (MiRT inp) \<Longrightarrow> MiIntent (ComputeMicroDecision m inp) = None"
  by (simp_all add: ComputeMicroDecision_def Let_def)

lemma micro_signal_case:
  assumes "\<not> stop_loss_fires inp" "MiIntent (ComputeMicroDecision m inp) = Some i"
  shows "\<not> MiEMA200 inp \<le> 0" "\<not> FloatStack (MiPortfolio inp) \<le> 0" "\<not> sigmoid_signal m inp \<le> lit 5 10"
    "i = micro_sell (FloatStack (MiPortfolio inp) * ((sigmoid_signal m inp - lit 5 10) * lit 2 1) * rTickMaxSell)"
    "\<not> StopLossHit (MiRT inp)" "\<not> QtyAsset i \<le> 0"
  using assms by (auto simp: ComputeMicroDecision_def Let_def micro_sell_def split: if_splits)

text \<open>A signal order sells a positive part of the float stack, at most five percent of it, and only
  above the EMA200.\<close>

lemma micro_signal_bounds:
  assumes "libm_ok m" "micro_input_ok inp" "\<not> stop_loss_fires inp"
    and i: "MiIntent (ComputeMicroDecision m inp) = Some i"
  shows "0 < QtyAsset i" "QtyAsset i \<le> FloatStack (MiPortfolio inp) * rTickMaxSell"
    "MiEMA200 inp < MiPrice inp"
    "QtyAsset i \<le> FloatStack (MiPortfolio inp)"
proof -
  let ?q = "FloatStack (MiPortfolio inp)"
  note c = micro_signal_case [OF assms(3) i]
  note s = signal_number [OF assms(1,2) c(1)]
  have q: "f_fin ?q" "0 \<le> f_val ?q"
    using assms(2) c(2) f_fin_not(1) [of ?q] by (auto simp: micro_input_ok_def f_le_val)
  note b = sell_qty_bounds [OF s(1) c(3) s(2) q]
  have qi: "QtyAsset i = ?q * ((sigmoid_signal m inp - lit 5 10) * lit 2 1) * rTickMaxSell"
    using c(4) by (simp add: micro_sell_def)
  have r: "f_fin rTickMaxSell" by code_simp
  show "0 < QtyAsset i" using c(6) b(1) by (simp add: qi f_not_less [symmetric])
  show "QtyAsset i \<le> ?q * rTickMaxSell" using b(1,2) f_nan_mul [OF q(1) r] by (simp add: qi f_le_val)
  show "QtyAsset i \<le> ?q" using b f_fin_not(1) [OF q(1)] by (simp add: qi f_le_val)
  have "\<not> f_nan (MiPrice inp)" "\<not> f_nan (MiEMA200 inp)"
    using assms(2) f_fin_not(1) by (auto simp: micro_input_ok_def)
  then show "MiEMA200 inp < MiPrice inp" using s(3) c(3) f_not_less by blast
qed

text \<open>A run threads the runtime state, as the macro engine's does.\<close>

primrec micro_run :: "libm \<Rightarrow> RuntimeState \<Rightarrow> MicroInput list \<Rightarrow> TradeIntent option list \<times> RuntimeState" where
  "micro_run m rt [] = ([], rt)"
| "micro_run m rt (inp # inps) = (let out = ComputeMicroDecision m (inp\<lparr>MiRT := rt\<rparr>);
     rest = micro_run m (MiOutRT out) inps in (MiIntent out # fst rest, snd rest))"

lemma micro_run_silent:
  "StopLossHit rt \<Longrightarrow> micro_run m rt inps = (replicate (length inps) None, rt)"
  by (induction inps) (simp_all add: Let_def micro_stop_loss_cases micro_rt)

section \<open>Properties\<close>

text \<open>When the return falls below the chromosome's threshold the engine sells the whole float
  stack (nothing if there is none) and sets the stop-loss flag; from then on it stays silent and
  leaves the runtime state alone, whatever inputs follow.\<close>

theorem stop_loss_latches:
  assumes "\<not> StopLossHit (MiRT inp)"
    and "roi_of (MiPortfolio inp) (MiPrice inp) < StopLossThreshold (MiParams inp)"
  shows "micro_run m (MiRT inp) (inp # inps) =
    ((if 0 < FloatStack (MiPortfolio inp) then Some (micro_sell (FloatStack (MiPortfolio inp))) else None)
       # replicate (length inps) None, (MiRT inp)\<lparr>StopLossHit := True\<rparr>)"
  using assms micro_stop_loss_cases(1) [of inp m] micro_rt [of m inp]
  by (simp add: Let_def micro_run_silent)

text \<open>A sell order of the sigmoid signal is strictly positive, is at most five percent of the
  float stack (the product rounded once), never exceeds the stack, and happens only when the price
  is strictly above the EMA200.\<close>

theorem sigmoid_sell_bounded:
  assumes "libm_ok m" "micro_input_ok inp"
    and "\<not> roi_of (MiPortfolio inp) (MiPrice inp) < StopLossThreshold (MiParams inp)"
    and "MiIntent (ComputeMicroDecision m inp) = Some i"
  shows "Action i = ''SELL'' \<and> LotType i = ''FLOATING'' \<and> 0 < QtyAsset i \<and>
    QtyAsset i \<le> FloatStack (MiPortfolio inp) * rTickMaxSell \<and>
    QtyAsset i \<le> FloatStack (MiPortfolio inp) \<and> MiEMA200 inp < MiPrice inp"
  using micro_signal_bounds [OF assms(1,2) _ assms(4)] micro_shape [OF assms(4)] assms(3)
  by (auto simp: micro_sell_def)

definition micro_example :: "f64 \<Rightarrow> MicroInput" where
  "micro_example price = \<lparr>MiPrice = price, MiEMA200 = lit 100 1,
     MiPortfolio = \<lparr>TotalUSDT = lit 50 1, ReserveFloor = 0, SpendableUSDT = lit 50 1, DeadStack = 0,
       FloatStack = lit 1 1, ColdSealedStack = 0, NAVInitial = lit 150 1\<rparr>,
     MiParams = DefaultSeedChromosome, MiRT = zero_runtime\<rparr>"

theorem stop_loss_latches_witness:
  "fst (micro_run step_libm zero_runtime [micro_example (lit 10 1), micro_example (lit 200 1)]) =
     [Some (micro_sell (lit 1 1)), None]"
proof -
  have "MiRT (micro_example (lit 10 1)) = zero_runtime" "FloatStack (MiPortfolio (micro_example (lit 10 1))) = lit 1 1"
    "\<not> StopLossHit zero_runtime" "(0::f64) < lit 1 1"
    by (simp_all add: micro_example_def zero_runtime_def f_less_val)
  moreover have "roi_of (MiPortfolio (micro_example (lit 10 1))) (MiPrice (micro_example (lit 10 1))) <
      StopLossThreshold (MiParams (micro_example (lit 10 1)))" by code_simp
  ultimately show ?thesis
    using stop_loss_latches [of "micro_example (lit 10 1)" step_libm "[micro_example (lit 200 1)]"] by simp
qed

theorem sigmoid_sell_bounded_witness:
  "\<exists>i. MiIntent (ComputeMicroDecision step_libm (micro_example (lit 200 1))) = Some i \<and> 0 < QtyAsset i"
proof -
  let ?inp = "micro_example (lit 200 1)"
  obtain i where i: "MiIntent (ComputeMicroDecision step_libm ?inp) = Some i"
  proof (cases "MiIntent (ComputeMicroDecision step_libm ?inp)")
    case None
    moreover have "MiIntent (ComputeMicroDecision step_libm ?inp) \<noteq> None" by code_simp
    ultimately show ?thesis by contradiction
  qed (use that in blast)
  have "micro_input_ok ?inp"
    using lit_int [of 200] lit_int [of 5]
    by (simp add: micro_input_ok_def micro_example_def DefaultSeedChromosome_def)
  moreover have "\<not> roi_of (MiPortfolio ?inp) (MiPrice ?inp) < StopLossThreshold (MiParams ?inp)" by code_simp
  ultimately show ?thesis using sigmoid_sell_bounded [OF step_libm_ok _ _ i] i by blast
qed

end
