(* ===== verification/Lot.thy ===== *)
theory Lot
  imports QuantMath
begin

text \<open>
  \<open>internal/quant/lot.go\<close>: the re-classification of a part of the dead stack as float
  stack when the return reaches the release trigger. The lemmas say when something is released,
  that it is taken from one stack and added to the other, and that it never exceeds the dead stack.
\<close>

section \<open>Definitions\<close>

record ReleaseResult =
  ResDeadStack :: f64
  ResFloatStack :: f64
  Released :: f64

definition TryReleaseDeadToFloat :: "PortfolioState \<Rightarrow> SpawnPoint \<Rightarrow> f64 \<Rightarrow> ReleaseResult" where
  "TryReleaseDeadToFloat p spawn price =
     (let res = \<lparr>ResDeadStack = DeadStack p, ResFloatStack = FloatStack p, Released = 0\<rparr> in
      if DeadStack p \<le> 0 \<or> price \<le> 0 \<or> NAVInitial p \<le> 0 then res
      else let nav = TotalUSDT p + (DeadStack p + FloatStack p + ColdSealedStack p) * price;
               roi = (nav - NAVInitial p) / NAVInitial p in
        if roi < ROIReleaseTrigger spawn then res
        else let releaseQty = DeadStack p * ReleaseRatio spawn in
          if releaseQty \<le> 0 then res
          else \<lparr>ResDeadStack = DeadStack p - releaseQty, ResFloatStack = FloatStack p + releaseQty,
            Released = releaseQty\<rparr>)"

section \<open>When and how much\<close>

definition release_due :: "PortfolioState \<Rightarrow> SpawnPoint \<Rightarrow> f64 \<Rightarrow> bool" where
  "release_due p spawn price \<longleftrightarrow> \<not> DeadStack p \<le> 0 \<and> \<not> price \<le> 0 \<and> \<not> NAVInitial p \<le> 0 \<and>
     \<not> (nav_of p price - NAVInitial p) / NAVInitial p < ROIReleaseTrigger spawn \<and>
     \<not> DeadStack p * ReleaseRatio spawn \<le> 0"

lemma TryRelease_cases:
  "TryReleaseDeadToFloat p spawn price =
    (if release_due p spawn price then
       (let q = DeadStack p * ReleaseRatio spawn in
        \<lparr>ResDeadStack = DeadStack p - q, ResFloatStack = FloatStack p + q, Released = q\<rparr>)
     else \<lparr>ResDeadStack = DeadStack p, ResFloatStack = FloatStack p, Released = 0\<rparr>)"
  by (simp add: TryReleaseDeadToFloat_def release_due_def nav_of_def Let_def)

lemma Released_due: "\<not> Released (TryReleaseDeadToFloat p spawn price) \<le> 0 \<longleftrightarrow> release_due p spawn price"
  by (auto simp: TryRelease_cases Let_def release_due_def less_eq_f64_def)

text \<open>With a ratio in the unit interval the dead stack stays between zero and its old value.\<close>

lemma f_sub_part:
  assumes "f_fin x" "f_fin y" "0 \<le> f_val y" "f_val y \<le> f_val x"
  shows "f_fin (x - y)" "0 \<le> f_val (x - y)" "f_val (x - y) \<le> f_val x"
proof -
  have v: "f_val (x - y) = R (f_val x - f_val y)" using assms by (simp add: f_val_sub)
  show ge: "0 \<le> f_val (x - y)" unfolding v using assms by (intro R_nonneg) simp
  show le: "f_val (x - y) \<le> f_val x"
    unfolding v using assms f_fin_not(1) [of x] by (intro R_le_val) auto
  show "f_fin (x - y)"
    by (rule f_fin_between [OF f_nan_sub [OF assms(1,2)] f_nan_0(2) assms(1)]) (use ge le in auto)
qed

definition spawn_ok :: "SpawnPoint \<Rightarrow> bool" where
  "spawn_ok sp \<longleftrightarrow> f_fin (ReleaseRatio sp) \<and> 0 \<le> f_val (ReleaseRatio sp) \<and> f_val (ReleaseRatio sp) \<le> 1"

lemma release_bounds:
  fixes price :: f64
  assumes "f_fin (DeadStack p)" "0 \<le> f_val (DeadStack p)" "spawn_ok spawn"
  defines "res \<equiv> TryReleaseDeadToFloat p spawn price"
  shows "f_fin (Released res)" "0 \<le> f_val (Released res)" "f_val (Released res) \<le> f_val (DeadStack p)"
    "f_fin (ResDeadStack res)" "0 \<le> f_val (ResDeadStack res)" "f_val (ResDeadStack res) \<le> f_val (DeadStack p)"
proof -
  have r: "f_fin (ReleaseRatio spawn)" "0 \<le> f_val (ReleaseRatio spawn)" "f_val (ReleaseRatio spawn) \<le> 1"
    using assms(3) by (auto simp: spawn_ok_def)
  note q = f_scale [OF r assms(1,2), unfolded f_mul_commute [of "ReleaseRatio spawn"]]
  note d = f_sub_part [OF assms(1) q]
  show "f_fin (Released res)" "0 \<le> f_val (Released res)" "f_val (Released res) \<le> f_val (DeadStack p)"
    "f_fin (ResDeadStack res)" "0 \<le> f_val (ResDeadStack res)" "f_val (ResDeadStack res) \<le> f_val (DeadStack p)"
    using q d assms by (simp_all add: res_def TryRelease_cases Let_def)
qed

section \<open>Properties\<close>

text \<open>A release happens exactly when the dead stack, the price and the initial value are not
  zero or less, the return has reached the trigger and the share is not zero or less; then exactly
  the share is taken from the dead stack and the same quantity added to the float stack. For a
  ratio in the unit interval the quantity and the dead stack left lie between zero and the old dead
  stack.\<close>

theorem release_moves_share:
  fixes p :: PortfolioState and price :: f64
  assumes "f_fin (DeadStack p)" "0 \<le> f_val (DeadStack p)" "spawn_ok spawn"
  defines "res \<equiv> TryReleaseDeadToFloat p spawn price"
  shows "(0 < Released res) = release_due p spawn price \<and>
    ResDeadStack res = (if release_due p spawn price then DeadStack p - Released res else DeadStack p) \<and>
    ResFloatStack res = (if release_due p spawn price then FloatStack p + Released res else FloatStack p) \<and>
    0 \<le> f_val (Released res) \<and> f_val (Released res) \<le> f_val (DeadStack p) \<and>
    0 \<le> f_val (ResDeadStack res) \<and> f_val (ResDeadStack res) \<le> f_val (DeadStack p)"
proof -
  note b = release_bounds [OF assms(1-3), of price, folded res_def]
  have "(0 < Released res) = (\<not> Released res \<le> 0)"
    using f_fin_not(1) [OF b(1)] f_not_less [of 0 "Released res"] by auto
  also have "\<dots> = release_due p spawn price" unfolding res_def by (rule Released_due)
  finally have "(0 < Released res) = release_due p spawn price" .
  then show ?thesis using b by (simp add: res_def TryRelease_cases Let_def)
qed

definition release_example :: PortfolioState where
  "release_example = \<lparr>TotalUSDT = lit 100 1, ReserveFloor = 0, SpendableUSDT = lit 100 1, DeadStack = lit 2 1,
     FloatStack = 0, ColdSealedStack = 0, NAVInitial = lit 100 1\<rparr>"

definition release_spawn :: SpawnPoint where
  "release_spawn = zero_spawn\<lparr>ROIReleaseTrigger := lit 5 10, ReleaseRatio := lit 2 10\<rparr>"

theorem release_moves_share_witness:
  "0 < Released (TryReleaseDeadToFloat release_example release_spawn (lit 50 1))"
proof -
  have d: "f_fin (DeadStack release_example)" "0 \<le> f_val (DeadStack release_example)"
    by (simp_all add: release_example_def)
  have "f_fin (lit 2 10)" "0 \<le> lit 2 10" "lit 2 10 \<le> 1" by (code_simp, code_simp, code_simp)
  then have "spawn_ok release_spawn" by (auto simp: spawn_ok_def release_spawn_def dest: f_leD)
  moreover have "release_due release_example release_spawn (lit 50 1)" by code_simp
  ultimately show ?thesis using release_moves_share [OF d, of release_spawn "lit 50 1"] by blast
qed

text \<open>Nothing arms the release again: at an unchanged price a second call releases again.\<close>

lemma release_repeats:
  "let r = TryReleaseDeadToFloat release_example release_spawn (lit 50 1);
       p = release_example\<lparr>DeadStack := ResDeadStack r, FloatStack := ResFloatStack r\<rparr> in
   0 < Released r \<and> 0 < Released (TryReleaseDeadToFloat p release_spawn (lit 50 1))"
  by code_simp

end
