(* ===== verification/SigmoidDCA.thy ===== *)
theory SigmoidDCA
  imports MarketState MacroEngine MicroEngine Lot
begin

text \<open>
  \<open>internal/strategy/step.go\<close> and \<open>internal/strategies/sigmoid_dca\<close>: the input
  and output of a strategy, the parameter pack and the decision pipeline \<open>Step\<close>. The
  interface \<open>Strategy\<close> is the locale \<open>strategy\<close>: its laws bound the orders a step
  may return. \<open>Step\<close> interprets it at the end of the theory. The JSON decoder of the pack
  is a parameter: it returns the decoded pack, or nothing when decoding fails.
\<close>

section \<open>The interface\<close>

record StrategyInput =
  StCloses :: "f64 list"
  StHighs :: "f64 list"
  StLows :: "f64 list"
  StTimestamps :: "i64 list"
  StPortfolio :: PortfolioState
  StRuntime :: RuntimeState
  StParams :: Chromosome
  StSpawn :: SpawnPoint

record StrategyOutput =
  Intents :: "TradeIntent list"
  OutRuntime :: RuntimeState

section \<open>The parameter pack\<close>

record paramPack =
  PpSpawnPoint :: SpawnPoint
  PpConfig :: Chromosome

definition ParseParamPack :: "(string \<Rightarrow> paramPack option) \<Rightarrow> string \<Rightarrow> Chromosome \<times> SpawnPoint" where
  "ParseParamPack unmarshal raw = (case unmarshal raw of
     None \<Rightarrow> (DefaultSeedChromosome, zero_spawn)
   | Some pp \<Rightarrow> let pp = pp\<lparr>PpConfig := ClampChromosome (PpConfig pp)\<rparr> in (PpConfig pp, PpSpawnPoint pp))"

section \<open>The pipeline\<close>

definition minBarsRequired :: nat where "minBarsRequired = 24"

definition runRelease :: "PortfolioState \<Rightarrow> SpawnPoint \<Rightarrow> f64 \<Rightarrow> TradeIntent option" where
  "runRelease p spawn price = (let res = TryReleaseDeadToFloat p spawn price in
     if Released res \<le> 0 then None
     else Some \<lparr>Action = ''RELEASE'', Engine = ''MACRO'', LotType = ''DEAD_STACK'',
       AmountUSDT = 0, QtyAsset = Released res\<rparr>)"

definition runMacro :: "f64 \<Rightarrow> PortfolioState \<Rightarrow> Chromosome \<Rightarrow> RuntimeState \<Rightarrow> string \<Rightarrow> MacroOutput" where
  "runMacro price p c rt monthStr = ComputeMacroDecision
     \<lparr>McPrice = price, McPortfolio = p, McParams = c, McRT = rt, McMonthStr = monthStr\<rparr>"

definition runMicro :: "libm \<Rightarrow> f64 \<Rightarrow> f64 \<Rightarrow> PortfolioState \<Rightarrow> Chromosome \<Rightarrow> RuntimeState \<Rightarrow> MicroOutput" where
  "runMicro m price ema200 p c rt = ComputeMicroDecision m
     \<lparr>MiPrice = price, MiEMA200 = ema200, MiPortfolio = p, MiParams = c, MiRT = rt\<rparr>"

definition append_opt :: "'a list \<Rightarrow> 'a option \<Rightarrow> 'a list" where
  "append_opt xs y = (case y of None \<Rightarrow> xs | Some a \<Rightarrow> xs @ [a])"

definition Step :: "libm \<Rightarrow> StrategyInput \<Rightarrow> StrategyOutput" where
  "Step m input =
    (if length (StCloses input) < minBarsRequired
     then \<lparr>Intents = [], OutRuntime = StRuntime input\<rparr>
     else let price = last (StCloses input);
              monthStr = (if StTimestamps input = [] then '''' else MonthKey (last (StTimestamps input))) in
       case ComputeMarketState \<lparr>MsCloses = StCloses input, MsHighs = StHighs input, MsLows = StLows input,
           MsPrice = price, MsRT = StRuntime input\<rparr> of (ms, rt) \<Rightarrow>
         if IsQuiet ms then \<lparr>Intents = [], OutRuntime = rt\<rparr>
         else
           let (intents, rt) = (if State ms = ''BEAR''
                 then let mo = runMacro price (StPortfolio input) (StParams input) rt monthStr in
                   (append_opt [] (McIntent mo), McOutRT mo)
                 else ([], rt));
               (intents, rt) = (if State ms = ''BULL''
                 then let mo = runMicro m price (EMA200 rt) (StPortfolio input) (StParams input) rt in
                   (append_opt intents (MiIntent mo), MiOutRT mo)
                 else (intents, rt));
               intents = append_opt intents (runRelease (StPortfolio input) (StSpawn input) price) in
           \<lparr>Intents = intents, OutRuntime = rt\<rparr>)"

section \<open>A step by regime\<close>

definition ms_input :: "StrategyInput \<Rightarrow> MarketStateInput" where
  "ms_input input = \<lparr>MsCloses = StCloses input, MsHighs = StHighs input, MsLows = StLows input,
     MsPrice = last (StCloses input), MsRT = StRuntime input\<rparr>"

definition regime :: "StrategyInput \<Rightarrow> string" where
  "regime input = State (fst (ComputeMarketState (ms_input input)))"

definition rt_after :: "StrategyInput \<Rightarrow> RuntimeState" where
  "rt_after input = snd (ComputeMarketState (ms_input input))"

definition macro_input :: "StrategyInput \<Rightarrow> MacroInput" where
  "macro_input input = \<lparr>McPrice = last (StCloses input), McPortfolio = StPortfolio input,
     McParams = StParams input, McRT = rt_after input,
     McMonthStr = (if StTimestamps input = [] then '''' else MonthKey (last (StTimestamps input)))\<rparr>"

definition micro_input :: "StrategyInput \<Rightarrow> MicroInput" where
  "micro_input input = \<lparr>MiPrice = last (StCloses input), MiEMA200 = EMA200 (rt_after input),
     MiPortfolio = StPortfolio input, MiParams = StParams input, MiRT = rt_after input\<rparr>"

definition release_intents :: "StrategyInput \<Rightarrow> TradeIntent list" where
  "release_intents input = append_opt [] (runRelease (StPortfolio input) (StSpawn input) (last (StCloses input)))"

lemma append_opt_assoc: "append_opt xs y = xs @ append_opt [] y"
  by (simp add: append_opt_def split: option.split)

lemma set_append_opt [simp]: "set (append_opt [] y) = set_option y"
  by (cases y) (simp_all add: append_opt_def)

lemma length_append_opt: "length (append_opt [] y) \<le> 1"
  by (simp add: append_opt_def split: option.split)

lemma Step_short: "length (StCloses input) < 24 \<Longrightarrow> Step m input = \<lparr>Intents = [], OutRuntime = StRuntime input\<rparr>"
  by (simp add: Step_def minBarsRequired_def)

lemma Step_QUIET:
  assumes "24 \<le> length (StCloses input)" "regime input = ''QUIET''"
  shows "Step m input = \<lparr>Intents = [], OutRuntime = rt_after input\<rparr>"
  using assms IsQuiet_iff [of "ms_input input"]
  by (simp add: Step_def minBarsRequired_def regime_def rt_after_def ms_input_def split_beta Let_def)

lemma Step_BEAR:
  assumes "24 \<le> length (StCloses input)" "regime input = ''BEAR''"
  shows "Step m input = (let mo = ComputeMacroDecision (macro_input input) in
    \<lparr>Intents = append_opt [] (McIntent mo) @ release_intents input, OutRuntime = McOutRT mo\<rparr>)"
  using assms IsQuiet_iff [of "ms_input input"] append_opt_assoc
  by (simp add: Step_def minBarsRequired_def regime_def rt_after_def ms_input_def split_beta Let_def
    macro_input_def runMacro_def release_intents_def) blast

lemma Step_BULL:
  assumes "24 \<le> length (StCloses input)" "regime input = ''BULL''"
  shows "Step m input = (let mo = ComputeMicroDecision m (micro_input input) in
    \<lparr>Intents = append_opt [] (MiIntent mo) @ release_intents input, OutRuntime = MiOutRT mo\<rparr>)"
  using assms IsQuiet_iff [of "ms_input input"] append_opt_assoc
  by (simp add: Step_def minBarsRequired_def regime_def rt_after_def ms_input_def split_beta Let_def
    micro_input_def runMicro_def release_intents_def) blast

lemma regime_cases: "regime input = ''QUIET'' \<or> regime input = ''BEAR'' \<or> regime input = ''BULL''"
  using State_cases [of "ms_input input"] by (auto simp: regime_def)

section \<open>The contract of a strategy\<close>

text \<open>An order a client can execute on the account it was decided for.\<close>

definition intent_ok :: "PortfolioState \<Rightarrow> TradeIntent \<Rightarrow> bool" where
  "intent_ok p i \<longleftrightarrow>
     Action i = ''BUY'' \<and> Engine i = ''MACRO'' \<and> LotType i = ''DEAD_STACK'' \<and>
       macroMinOrderUSDT \<le> AmountUSDT i \<and> AmountUSDT i \<le> SpendableUSDT p \<or>
     Action i = ''SELL'' \<and> Engine i = ''MICRO'' \<and> LotType i = ''FLOATING'' \<and>
       0 < QtyAsset i \<and> QtyAsset i \<le> FloatStack p \<or>
     Action i = ''RELEASE'' \<and> Engine i = ''MACRO'' \<and> LotType i = ''DEAD_STACK'' \<and>
       0 < QtyAsset i \<and> QtyAsset i \<le> DeadStack p"

locale strategy =
  fixes step :: "StrategyInput \<Rightarrow> StrategyOutput" and ok :: "StrategyInput \<Rightarrow> bool"
  assumes intents_ok: "ok inp \<Longrightarrow> i \<in> set (Intents (step inp)) \<Longrightarrow> intent_ok (StPortfolio inp) i"
    and one_per_action: "distinct (map Action (Intents (step inp)))"
begin

lemma action_cases: "ok inp \<Longrightarrow> i \<in> set (Intents (step inp)) \<Longrightarrow> Action i \<in> {''BUY'', ''SELL'', ''RELEASE''}"
  using intents_ok by (auto simp: intent_ok_def)

lemma at_most_three:
  assumes "ok inp"
  shows "length (Intents (step inp)) \<le> 3"
proof -
  have "length (Intents (step inp)) = card (set (map Action (Intents (step inp))))"
    using distinct_card [OF one_per_action] by simp
  also have "\<dots> \<le> card {''BUY'', ''SELL'', ''RELEASE''}"
    using action_cases [OF assms] by (intro card_mono) auto
  also have "\<dots> \<le> 3" by (simp add: card_insert_if)
  finally show ?thesis .
qed

lemma quantities_positive:
  "ok inp \<Longrightarrow> i \<in> set (Intents (step inp)) \<Longrightarrow> Action i \<noteq> ''BUY'' \<Longrightarrow> 0 < QtyAsset i"
  using intents_ok [of inp i] by (auto simp: intent_ok_def)

end

section \<open>Step meets the contract\<close>

definition account_ok :: "PortfolioState \<Rightarrow> bool" where
  "account_ok p \<longleftrightarrow> f_fin (SpendableUSDT p) \<and> f_val (SpendableUSDT p) \<le> 2 powi 1000 \<and>
     f_fin (DeadStack p) \<and> 0 \<le> f_val (DeadStack p) \<and> f_fin (FloatStack p)"

definition step_input_ok :: "libm \<Rightarrow> StrategyInput \<Rightarrow> bool" where
  "step_input_ok m inp \<longleftrightarrow> libm_ok m \<and> f_fin (last (StCloses inp)) \<and> 0 < f_val (last (StCloses inp)) \<and>
     account_ok (StPortfolio inp) \<and> legal_chromosome (StParams inp) \<and> spawn_ok (StSpawn inp)"

lemma macro_intent_ok:
  assumes "account_ok (McPortfolio inp)" "McIntent (ComputeMacroDecision inp) = Some i"
  shows "intent_ok (McPortfolio inp) i"
proof -
  obtain t where t: "fired_tier inp = Some t" and
    i: "i = macro_buy (order_amount (SpendableUSDT (McPortfolio inp)) t)"
    using assms(2) by (auto simp: ComputeMacroDecision_fired split: option.splits)
  note f = fired_tierD [OF t]
  have sp: "f_fin (SpendableUSDT (McPortfolio inp))" "f_val (SpendableUSDT (McPortfolio inp)) \<le> 2 powi 1000"
    using assms(1) by (auto simp: account_ok_def)
  have e: "\<not> RoundToUSDT (SpendableUSDT (McPortfolio inp) * t_spendPct t) < macroMinOrderUSDT"
    using f(2) by (simp add: eligible_def)
  note b = order_amount_bounds [OF sp f(3) macro_tiers_cases(2) [OF f(1)] e]
  with f(2) show ?thesis by (simp add: intent_ok_def i macro_buy_def)
qed

lemma release_intent_ok:
  assumes "account_ok p" "spawn_ok sp" "runRelease p sp price = Some i"
  shows "intent_ok p i"
proof -
  have d: "f_fin (DeadStack p)" "0 \<le> f_val (DeadStack p)" using assms(1) by (auto simp: account_ok_def)
  note b = release_bounds [OF d assms(2), of price]
  have i: "i = \<lparr>Action = ''RELEASE'', Engine = ''MACRO'', LotType = ''DEAD_STACK'', AmountUSDT = 0,
      QtyAsset = Released (TryReleaseDeadToFloat p sp price)\<rparr>"
    and n: "\<not> Released (TryReleaseDeadToFloat p sp price) \<le> 0"
    using assms(3) by (auto simp: runRelease_def Let_def split: if_splits)
  have "0 < Released (TryReleaseDeadToFloat p sp price)"
    using n f_fin_not(1) [OF b(1)] by (simp add: f_not_less [symmetric])
  moreover have "Released (TryReleaseDeadToFloat p sp price) \<le> DeadStack p"
    using b(3) f_fin_not(1) [OF b(1)] f_fin_not(1) [OF d(1)] by (simp add: f_le_val)
  ultimately show ?thesis by (simp add: intent_ok_def i)
qed

lemma legal_sensitivity:
  assumes "legal_chromosome c"
  shows "f_fin (SigmoidSensitivity c)" "0 < f_val (SigmoidSensitivity c)"
proof -
  have b: "f_fin SigmoidSensitivityMin" "f_fin SigmoidSensitivityMax" "0 < SigmoidSensitivityMin"
    by (code_simp, code_simp, code_simp)
  have le: "SigmoidSensitivityMin \<le> SigmoidSensitivity c" "SigmoidSensitivity c \<le> SigmoidSensitivityMax"
    using assms by (auto simp: legal_chromosome_def)
  then show "f_fin (SigmoidSensitivity c)"
    by (intro f_fin_between [OF _ b(1,2)]) (auto dest: f_leD)
  show "0 < f_val (SigmoidSensitivity c)" using le(1) b(3) by (auto dest!: f_leD f_lessD)
qed

lemma micro_intent_ok:
  assumes "libm_ok m" "account_ok (MiPortfolio inp)" "legal_chromosome (MiParams inp)"
    and p: "f_fin (MiPrice inp)" "0 < f_val (MiPrice inp)" "MiEMA200 inp < MiPrice inp"
    and i: "MiIntent (ComputeMicroDecision m inp) = Some i"
  shows "intent_ok (MiPortfolio inp) i"
proof -
  let ?q = "FloatStack (MiPortfolio inp)"
  have q: "f_fin ?q" "\<not> f_nan ?q" using assms(2) f_fin_not(1) by (auto simp: account_ok_def)
  have "0 < QtyAsset i \<and> QtyAsset i \<le> ?q"
  proof (cases "stop_loss_fires inp")
    case True
    with micro_stop_loss_cases(1) [of inp m] i have "i = micro_sell ?q" "0 < ?q" by (auto split: if_splits)
    then show ?thesis using q(2) by (simp add: micro_sell_def f_le_val)
  next
    case False
    note c = micro_signal_case [OF False i]
    have "\<not> f_nan (MiEMA200 inp)" using p(3) by (auto dest: f_lessD)
    moreover have "0 \<le> f_val (MiEMA200 inp)" "f_val (MiEMA200 inp) \<le> f_val (MiPrice inp)"
      using c(1) p(3) by (auto simp: f_le_val dest!: f_lessD)
    ultimately have "f_fin (MiEMA200 inp)" by (intro f_fin_between [OF _ f_nan_0(2) p(1)]) auto
    then have "micro_input_ok inp"
      using p q legal_sensitivity [OF assms(3)] by (simp add: micro_input_ok_def)
    from micro_signal_bounds [OF assms(1) this False i] show ?thesis by blast
  qed
  then show ?thesis using micro_shape [OF i] by (auto simp: intent_ok_def micro_sell_def)
qed

lemma Step_intents_ok:
  assumes "step_input_ok m inp" "i \<in> set (Intents (Step m inp))"
  shows "intent_ok (StPortfolio inp) i"
proof -
  have len: "24 \<le> length (StCloses inp)"
    using assms(2) Step_short [of inp m] by (cases "length (StCloses inp) < 24") auto
  have rel: "intent_ok (StPortfolio inp) i" if "i \<in> set (release_intents inp)"
    using that assms(1) release_intent_ok by (auto simp: release_intents_def step_input_ok_def)
  consider "regime inp = ''QUIET''" | "regime inp = ''BEAR''" | "regime inp = ''BULL''"
    using regime_cases by blast
  then show ?thesis
  proof cases
    case 1
    then show ?thesis using assms(2) Step_QUIET [OF len] by simp
  next
    case 2
    then show ?thesis
      using assms rel Step_BEAR [OF len 2, of m] macro_intent_ok [of "macro_input inp" i]
      by (auto simp: Let_def step_input_ok_def macro_input_def)
  next
    case 3
    then have "EMA200 (rt_after inp) < last (StCloses inp)"
      using State_BULL [of "ms_input inp"]
      by (simp add: regime_def rt_after_def ComputeMarketState_rt ms_input_def)
    then show ?thesis
      using assms rel Step_BULL [OF len 3, of m] micro_intent_ok [of m "micro_input inp" i]
      by (auto simp: Let_def step_input_ok_def micro_input_def)
  qed
qed

lemma macro_action: "McIntent (ComputeMacroDecision inp) = Some i \<Longrightarrow> Action i = ''BUY''"
  by (auto simp: ComputeMacroDecision_fired macro_buy_def split: option.splits)

lemma micro_action: "MiIntent (ComputeMicroDecision m inp) = Some i \<Longrightarrow> Action i = ''SELL''"
  using micro_shape [of m inp] by (auto simp: micro_sell_def)

lemma release_action: "i \<in> set (release_intents inp) \<Longrightarrow> Action i = ''RELEASE''"
  by (auto simp: release_intents_def runRelease_def Let_def split: if_splits)

lemma distinct_append_opt: "distinct (map f (append_opt [] y))"
  by (simp add: append_opt_def split: option.split)

lemma Step_one_per_action: "distinct (map Action (Intents (Step m inp)))"
proof (cases "length (StCloses inp) < 24")
  case False
  then have len: "24 \<le> length (StCloses inp)" by simp
  have r: "distinct (map Action (release_intents inp))"
    unfolding release_intents_def by (rule distinct_append_opt)
  have disj: "set (map Action xs) \<inter> set (map Action (release_intents inp)) = {}"
    if "\<And>i. i \<in> set xs \<Longrightarrow> Action i \<noteq> ''RELEASE''" for xs
    using that release_action [of _ inp] by fastforce
  from regime_cases [of inp] show ?thesis
    by (elim disjE; simp add: Step_QUIET [OF len] Step_BEAR [OF len] Step_BULL [OF len] Let_def r
        distinct_append_opt del: set_map)
      (auto dest!: release_action macro_action micro_action)
qed (simp add: Step_short)

interpretation sd: strategy "Step m" "step_input_ok m" for m
  by unfold_locales (auto intro: Step_intents_ok Step_one_per_action)

section \<open>An account without funds\<close>

text \<open>With no funds and no coins but a positive initial value the return is minus one, below every
  legal threshold: a bullish step sets the stop-loss.\<close>

definition unfunded :: "PortfolioState \<Rightarrow> bool" where
  "unfunded p \<longleftrightarrow> TotalUSDT p = 0 \<and> SpendableUSDT p = 0 \<and> DeadStack p = 0 \<and> FloatStack p = 0 \<and>
     ColdSealedStack p = 0 \<and> f_fin (NAVInitial p) \<and> 0 < NAVInitial p"

lemma zero_add_zero: "(0::f64) + 0 = 0"
  by code_simp

lemma zero_mul: "f_fin x \<Longrightarrow> 0 < f_val x \<Longrightarrow> 0 * x = 0"
proof -
  assume x: "f_fin x" "0 < f_val x"
  then have "\<not> f_sign x" using mag_nonneg [of "f_bits x"] f_bits_range [of x] by (auto simp: f_val_def split: if_splits)
  then show ?thesis using x f_fin_not [OF x(1)] f_nan_0(4)
    by (simp add: times_f64_def Let_def f_fin_not [OF f_nan_0(2)]) (simp add: zero_f64_def)
qed

lemma unfunded_roi:
  assumes "unfunded p" "f_fin price" "0 < f_val price"
  shows "f_val (roi_of p price) = - 1" "\<not> f_nan (roi_of p price)"
proof -
  have nav: "nav_of p price = 0"
    using assms by (simp add: unfunded_def nav_of_def zero_add_zero zero_mul)
  let ?n = "NAVInitial p"
  have n: "f_fin ?n" "0 < ?n" "0 < f_val ?n" using assms(1) by (auto simp: unfunded_def dest: f_lessD)
  have d: "f_val (0 - ?n) = - f_val ?n"
    using n f_fin_not(1) [OF n(1)] R_f_val [of "- ?n"] by (simp add: f_val_sub)
  have "\<not> f_nan (0 - ?n)" using n(1) by (simp add: f_nan_sub)
  then have df: "f_fin (0 - ?n)" using d n(1) by (simp add: f_fin_iff)
  have "R (- 1) = - 1" using R_of_int [of "- 1"] by simp
  then show "f_val (roi_of p price) = - 1"
    using n d df by (simp add: roi_of_def nav f_val_div)
  show "\<not> f_nan (roi_of p price)" using n df by (simp add: roi_of_def nav f_nan_div)
qed

lemma legal_stop_loss:
  assumes "legal_chromosome c" "f_val x = - 1" "\<not> f_nan x"
  shows "x < StopLossThreshold c"
proof -
  have "lit (- 5) 10 < StopLossThresholdMin" by code_simp
  moreover have "f_val (lit (- 5) 10) = - (1 / 2)"
  proof -
    have "R (of_int (- 1) * 2 powi (- 1)) = of_int (- 1) * 2 powi (- 1)" by (rule R_dyadic) simp_all
    then show ?thesis by (simp add: lit_def f_val_rnd power_int_minus)
  qed
  moreover have "StopLossThresholdMin \<le> StopLossThreshold c" using assms(1) by (simp add: legal_chromosome_def)
  ultimately show ?thesis using assms(2,3) by (auto simp: f_less_val dest!: f_leD f_lessD)
qed

lemma Step_unfunded_bull:
  assumes "24 \<le> length (StCloses inp)" "regime inp = ''BULL''" "unfunded (StPortfolio inp)"
    and "legal_chromosome (StParams inp)" "f_fin (last (StCloses inp))" "0 < f_val (last (StCloses inp))"
  shows "StopLossHit (OutRuntime (Step m inp))"
  using legal_stop_loss [OF assms(4)] unfunded_roi [OF assms(3,5,6)] Step_BULL [OF assms(1,2), of m]
  by (simp add: Let_def micro_rt micro_input_def)

lemma StopLossHit_mono: "StopLossHit (StRuntime inp) \<Longrightarrow> StopLossHit (OutRuntime (Step m inp))"
proof (cases "length (StCloses inp) < 24")
  case False
  assume hit: "StopLossHit (StRuntime inp)"
  have len: "24 \<le> length (StCloses inp)" using False by simp
  have rt: "StopLossHit (rt_after inp)" using hit by (simp add: rt_after_def ComputeMarketState_rt ms_input_def)
  from regime_cases [of inp] show ?thesis
    by (elim disjE; simp add: Step_QUIET [OF len] Step_BEAR [OF len] Step_BULL [OF len] Let_def rt
        macro_frame macro_input_def micro_rt micro_input_def)
qed (simp add: Step_short)

lemma Step_hit_no_sell:
  assumes "StopLossHit (StRuntime inp)" "i \<in> set (Intents (Step m inp))"
  shows "Action i \<noteq> ''SELL''"
proof -
  have len: "24 \<le> length (StCloses inp)"
    using assms(2) Step_short [of inp m] by (cases "length (StCloses inp) < 24") auto
  have rt: "StopLossHit (rt_after inp)"
    using assms(1) by (simp add: rt_after_def ComputeMarketState_rt ms_input_def)
  then have "MiIntent (ComputeMicroDecision m (micro_input inp)) = None"
    by (intro micro_stop_loss_cases) (simp add: micro_input_def)
  then show ?thesis
    using assms(2) regime_cases [of inp]
    by (auto simp: Step_QUIET [OF len] Step_BEAR [OF len] Step_BULL [OF len] Let_def
        dest!: macro_action release_action)
qed

section \<open>Properties\<close>

text \<open>The pipeline routes a tick by its history and regime: fewer than 24 bars leave everything
  alone; a quiet market only updates the EMA200; a bear market runs the macro engine and a bull
  market the micro engine on the updated runtime state; outside a quiet market the release check
  comes last.\<close>

theorem step_routing:
  "Step m inp =
    (if length (StCloses inp) < 24 then \<lparr>Intents = [], OutRuntime = StRuntime inp\<rparr>
     else if regime inp = ''QUIET'' then \<lparr>Intents = [], OutRuntime = rt_after inp\<rparr>
     else if regime inp = ''BEAR'' then (let mo = ComputeMacroDecision (macro_input inp) in
       \<lparr>Intents = append_opt [] (McIntent mo) @ release_intents inp, OutRuntime = McOutRT mo\<rparr>)
     else (let mo = ComputeMicroDecision m (micro_input inp) in
       \<lparr>Intents = append_opt [] (MiIntent mo) @ release_intents inp, OutRuntime = MiOutRT mo\<rparr>))"
  using regime_cases [of inp] Step_short [of inp m] Step_QUIET [of inp m] Step_BEAR [of inp m]
    Step_BULL [of inp m] by (simp add: not_less) blast

text \<open>C1. On an account and parameters within bounds every intent of a step can be executed: a buy is
  at least 10.1 USDT and within the spendable balance, a sell positive and within the float stack, a release
  positive and within the dead stack. Buys come only in a bear market, sells only in a bull market,
  no two intents have the same action, and there are at most three.\<close>

theorem step_contract:
  assumes "step_input_ok m inp" "i \<in> set (Intents (Step m inp))"
  shows "intent_ok (StPortfolio inp) i \<and> distinct (map Action (Intents (Step m inp))) \<and>
    length (Intents (Step m inp)) \<le> 3 \<and>
    (Action i = ''BUY'' \<longrightarrow> regime inp = ''BEAR'') \<and> (Action i = ''SELL'' \<longrightarrow> regime inp = ''BULL'')"
proof -
  have len: "24 \<le> length (StCloses inp)"
    using assms(2) Step_short [of inp m] by (cases "length (StCloses inp) < 24") auto
  have "(Action i = ''BUY'' \<longrightarrow> regime inp = ''BEAR'') \<and> (Action i = ''SELL'' \<longrightarrow> regime inp = ''BULL'')"
    using assms(2) regime_cases [of inp]
    by (auto simp: Step_QUIET [OF len] Step_BEAR [OF len] Step_BULL [OF len] Let_def
        dest!: macro_action micro_action release_action)
  then show ?thesis
    using sd.intents_ok [OF assms] sd.one_per_action [of m inp] sd.at_most_three [OF assms(1)] by blast
qed

text \<open>Parsing a parameter pack always yields genes in the legal search space, for every text:
  decoded genes, which JSON cannot make NaN, are clamped, and a text that does not decode gives the
  default seed with a zero spawn point.\<close>

theorem param_pack_legal:
  assumes "\<And>raw pp. unmarshal raw = Some pp \<Longrightarrow> nan_free (PpConfig pp)"
  shows "legal_chromosome (fst (ParseParamPack unmarshal raw)) \<and>
    (unmarshal raw = None \<longrightarrow> ParseParamPack unmarshal raw = (DefaultSeedChromosome, zero_spawn))"
  using assms [of raw] by (auto simp: ParseParamPack_def Let_def legal_DefaultSeed ClampChromosome_legal
    split: option.split)

definition example_unmarshal :: "string \<Rightarrow> paramPack option" where
  "example_unmarshal raw = (if raw = ''{}'' then Some \<lparr>PpSpawnPoint = zero_spawn,
     PpConfig = \<lparr>DCADropPct = 0, SigmoidSensitivity = 0, StopLossThreshold = 0\<rparr>\<rparr> else None)"

theorem param_pack_legal_witness:
  "legal_chromosome (fst (ParseParamPack example_unmarshal ''{}'')) \<and>
   ParseParamPack example_unmarshal ''x'' = (DefaultSeedChromosome, zero_spawn)"
proof -
  have h: "nan_free (PpConfig pp)" if "example_unmarshal raw = Some pp" for raw pp
    using that by (auto simp: example_unmarshal_def nan_free_def split: if_splits)
  show ?thesis
    using param_pack_legal [where unmarshal = example_unmarshal and raw = "''{}''", OF h]
      param_pack_legal [where unmarshal = example_unmarshal and raw = "''x''", OF h]
    by (simp add: example_unmarshal_def)
qed

definition step_example :: StrategyInput where
  "step_example = \<lparr>StCloses = replicate 24 (lit 80 1), StHighs = replicate 24 (lit 82 1),
     StLows = replicate 24 (lit 78 1), StTimestamps = [1700000000000],
     StPortfolio = \<lparr>TotalUSDT = lit 1000 1, ReserveFloor = 0, SpendableUSDT = lit 1000 1, DeadStack = 0,
       FloatStack = 0, ColdSealedStack = 0, NAVInitial = lit 1000 1\<rparr>,
     StRuntime = zero_runtime\<lparr>EMA200 := lit 100 1, MonthStr := ''2023-11'', MonthHigh := lit 100 1\<rparr>,
     StParams = DefaultSeedChromosome, StSpawn = zero_spawn\<rparr>"

lemma step_example_ok: "step_input_ok step_libm step_example"
proof -
  have "(1000::rat) \<le> 2 powi 10" by (simp add: power_int_def)
  also have "\<dots> \<le> 2 powi 1000" by (rule p2_mono) simp
  finally have "(1000::rat) \<le> 2 powi 1000" .
  then show ?thesis
    using lit_int [of 1000] lit_int [of 80] legal_DefaultSeed
    by (simp add: step_input_ok_def step_libm_ok step_example_def account_ok_def spawn_ok_def zero_spawn_def
        del: power_int_numeral)
qed

theorem step_contract_witness:
  "\<exists>i \<in> set (Intents (Step step_libm step_example)). Action i = ''BUY'' \<and>
    intent_ok (StPortfolio step_example) i \<and> regime step_example = ''BEAR''"
proof -
  have a: "map Action (Intents (Step step_libm step_example)) = [''BUY'']" by code_simp
  then obtain i where i: "i \<in> set (Intents (Step step_libm step_example))" "Action i = ''BUY''"
    by (cases "Intents (Step step_libm step_example)") auto
  then show ?thesis using step_contract [OF step_example_ok i(1)] by blast
qed

end
