(* ===== verification/GhostDCA.thy ===== *)
theory GhostDCA
  imports MacroEngine
begin

text \<open>
  \<open>internal/quant/ghost_dca.go\<close>: the passive baseline of the fitness function, the
  drawdown of a value curve, and the month and day arithmetic on timestamps. The lemmas say what
  the drawdown loop computes, that the month index and the month key of the macro engine identify
  the same months, and how often the baseline invests.
\<close>

section \<open>Definitions\<close>

record GhostDCAConfig =
  GcInitialCapital :: f64
  GcMonthlyInject :: f64

record GhostDCAResult =
  GhFinalEquity :: f64
  GhTotalInjected :: f64
  GhMaxDrawdown :: f64
  GhROI :: f64

definition zero_ghost :: GhostDCAResult where
  "zero_ghost = \<lparr>GhFinalEquity = 0, GhTotalInjected = 0, GhMaxDrawdown = 0, GhROI = 0\<rparr>"

definition monthOf :: "i64 \<Rightarrow> i64" where
  "monthOf tsMillis = (case utc_month tsMillis of (y, m) \<Rightarrow> word_of_int (y * 12 + m))"

definition daysSince :: "i64 \<Rightarrow> i64 \<Rightarrow> i64" where
  "daysSince fromMillis toMillis = (let diff = toMillis - fromMillis;
     diff = (if sint diff < 0 then - diff else diff) in
     i_quot (i_quot (i_quot (i_quot diff 1000) 60) 60) 24)"

text \<open>The body of the drawdown loop on the pair of the peak and the largest drawdown so far.\<close>

definition dd_step :: "f64 \<times> f64 \<Rightarrow> f64 \<Rightarrow> f64 \<times> f64" where
  "dd_step st v = (case st of (peak, maxDD) \<Rightarrow>
     let peak = (if peak < v then v else peak) in
     if 0 < peak then let dd = (peak - v) / peak in (peak, if maxDD < dd then dd else maxDD)
     else (peak, maxDD))"

definition MaxDrawdown :: "f64 list \<Rightarrow> f64" where
  "MaxDrawdown nav = (case nav of [] \<Rightarrow> 0 | v0 # _ \<Rightarrow> snd (foldl dd_step (v0, 0) nav))"

record cashFlow =
  cf_day :: i64
  cf_amount :: f64

text \<open>The loop of the Modified Dietz return: the sum of the flows and their time-weighted sum.\<close>

definition dietz_step :: "i64 \<Rightarrow> f64 \<times> f64 \<Rightarrow> cashFlow \<Rightarrow> f64 \<times> f64" where
  "dietz_step totalDays st f = (case st of (sumF, weightedF) \<Rightarrow>
     let w = (if 0 < sint totalDays then f_of_i64 (totalDays - cf_day f) / f_of_i64 totalDays else 1) in
     (sumF + cf_amount f, weightedF + cf_amount f * w))"

definition dietz_sums :: "i64 \<Rightarrow> cashFlow list \<Rightarrow> f64 \<times> f64" where
  "dietz_sums totalDays flows = foldl (dietz_step totalDays) (0, 0) flows"

definition dietz_roi :: "f64 \<Rightarrow> f64 \<Rightarrow> f64 \<times> f64 \<Rightarrow> f64" where
  "dietz_roi vStart final flows = (case flows of (sumF, weightedF) \<Rightarrow>
     let denominator = vStart + weightedF in
     if 0 < denominator then (final - vStart - sumF) / denominator else 0)"

record ghost_state =
  g_btc :: f64
  g_prevMonth :: i64
  g_prevClose :: f64
  g_flows :: "cashFlow list"
  g_nav :: "f64 list"

text \<open>One turn of the loop over the bars after the first; \<open>g_prevClose\<close> is the close of
  the bar before.\<close>

definition ghost_step :: "GhostDCAConfig \<Rightarrow> i64 \<Rightarrow> ghost_state \<Rightarrow> Bar \<Rightarrow> ghost_state" where
  "ghost_step cfg t0 g b =
     (if Close b \<le> 0 then g\<lparr>g_nav := g_nav g @ [g_btc g * g_prevClose g], g_prevClose := Close b\<rparr>
      else let m = monthOf (OpenTime b);
               g = (if m \<noteq> g_prevMonth g \<and> 0 < GcMonthlyInject cfg
                 then g\<lparr>g_prevMonth := m, g_btc := g_btc g + GcMonthlyInject cfg / Close b,
                   g_flows := g_flows g @ [\<lparr>cf_day = daysSince t0 (OpenTime b), cf_amount = GcMonthlyInject cfg\<rparr>]\<rparr>
                 else g) in
           g\<lparr>g_nav := g_nav g @ [g_btc g * Close b], g_prevClose := Close b\<rparr>)"

definition ghost_start :: "GhostDCAConfig \<Rightarrow> Bar \<Rightarrow> ghost_state" where
  "ghost_start cfg b = (let btc = (if 0 < Close b then GcInitialCapital cfg / Close b else 0) in
     \<lparr>g_btc = btc, g_prevMonth = monthOf (OpenTime b), g_prevClose = Close b, g_flows = [],
      g_nav = [btc * Close b]\<rparr>)"

definition SimulateGhostDCA :: "GhostDCAConfig \<Rightarrow> Bar list \<Rightarrow> GhostDCAResult" where
  "SimulateGhostDCA cfg bars = (case bars of [] \<Rightarrow> zero_ghost
     | b0 # rest \<Rightarrow>
       if GcInitialCapital cfg \<le> 0 then zero_ghost
       else let totalDays = daysSince (OpenTime b0) (OpenTime (last bars));
                g = foldl (ghost_step cfg (OpenTime b0)) (ghost_start cfg b0) rest;
                final = g_btc g * Close (last bars);
                vStart = GcInitialCapital cfg;
                fl = dietz_sums totalDays (g_flows g) in
         \<lparr>GhFinalEquity = final, GhTotalInjected = vStart + fst fl,
          GhMaxDrawdown = MaxDrawdown (g_nav g), GhROI = dietz_roi vStart final fl\<rparr>)"

section \<open>Drawdown\<close>

text \<open>The running peaks of a curve and the drawdown from the peak at each point.\<close>

definition peak_at :: "f64 list \<Rightarrow> nat \<Rightarrow> rat" where
  "peak_at nav k = Max (f_val ` set (take (Suc k) nav))"

definition drawdown_at :: "f64 list \<Rightarrow> nat \<Rightarrow> rat" where
  "drawdown_at nav k = (if 0 < peak_at nav k
     then R (R (peak_at nav k - f_val (nav ! k)) / peak_at nav k) else 0)"

lemma dd_step_val:
  assumes "f_fin p" "f_fin d" "f_fin v" "0 \<le> f_val v" "0 \<le> f_val p" "0 \<le> f_val d" "f_val d \<le> 1"
    and "dd_step (p, d) v = (p', d')"
  shows "f_fin p' \<and> f_fin d' \<and> f_val p' = max (f_val p) (f_val v) \<and>
    f_val d' = max (f_val d) (if 0 < f_val p' then R (R (f_val p' - f_val v) / f_val p') else 0) \<and>
    0 \<le> f_val d' \<and> f_val d' \<le> 1"
proof -
  let ?p = "if p < v then v else p" let ?e = "(?p - v) / ?p"
  have nan: "\<not> f_nan p" "\<not> f_nan v" "\<not> f_nan d" using assms f_fin_not by blast+
  have p: "f_fin ?p" "f_val ?p = max (f_val p) (f_val v)" "p' = ?p"
    using assms nan by (auto simp: f_less_val dd_step_def Let_def split: if_splits)
  show ?thesis
  proof (cases "0 < f_val ?p")
    case False
    then have "d' = d" using assms(8) nan p(1) f_fin_not(1) [OF p(1)] by (auto simp: dd_step_def Let_def f_less_val)
    then show ?thesis using assms False p by auto
  next
    case True
    have s: "f_fin (?p - v)" "0 \<le> f_val (?p - v)" "f_val (?p - v) \<le> f_val ?p" 
    proof -
      have v: "f_val (?p - v) = R (f_val ?p - f_val v)" using p(1) assms(3) by (rule f_val_sub)
      show ge: "0 \<le> f_val (?p - v)" unfolding v using p(2) by (intro R_nonneg) simp
      show le: "f_val (?p - v) \<le> f_val ?p"
        unfolding v using assms(4) f_fin_not(1) [OF p(1)] by (intro R_le_val) auto
      show "f_fin (?p - v)"
        by (rule f_fin_between [OF f_nan_sub [OF p(1) assms(3)] f_nan_0(2) p(1)]) (use ge le in auto)
    qed
    have sv: "f_val (?p - v) = R (f_val ?p - f_val v)" using p(1) assms(3) by (rule f_val_sub)
    have e: "f_val ?e = R (f_val (?p - v) / f_val ?p)" "\<not> f_nan ?e"
      using s(1) p(1) True by (simp_all add: f_val_div f_nan_div)
    have e1: "f_val ?e \<le> 1" unfolding e(1) using R_le_val [of 1 "f_val (?p - v) / f_val ?p"] s True by simp
    have e0: "0 \<le> f_val ?e" unfolding e(1) using s True by (intro R_nonneg) simp
    have ef: "f_fin ?e" by (rule f_fin_between [OF e(2) f_nan_0(2) f_fin_1]) (use e0 e1 in auto)
    have pn: "\<not> f_nan ?p" using p(1) by (rule f_fin_not)
    have "0 < ?p" using True pn by (simp add: f_less_val)
    then have d': "d' = (if d < ?e then ?e else d)" using assms(8) by (auto simp: dd_step_def Let_def)
    have "f_val d' = max (f_val d) (f_val ?e)"
      unfolding d' using f_less_val [OF nan(3) e(2)] by (simp add: max_def)
    moreover have "f_fin d'" unfolding d' using ef assms(2) by simp
    ultimately show ?thesis using True p e(1) sv e0 e1 assms(6,7) by (simp add: le_max_iff_disj)
  qed
qed

lemma peak_at_append: "k < length xs \<Longrightarrow> peak_at (xs @ ys) k = peak_at xs k"
  by (simp add: peak_at_def)

lemma drawdown_at_append: "k < length xs \<Longrightarrow> drawdown_at (xs @ ys) k = drawdown_at xs k"
  by (simp add: drawdown_at_def peak_at_append nth_append)

definition nav_ok :: "f64 list \<Rightarrow> bool" where
  "nav_ok nav \<longleftrightarrow> (\<forall>v \<in> set nav. f_fin v \<and> 0 \<le> f_val v)"

lemma dd_fold:
  assumes "nav \<noteq> []" "nav_ok nav" "foldl dd_step (hd nav, 0) nav = (p, d)"
  shows "f_fin p \<and> f_fin d \<and> f_val p = Max (f_val ` set nav) \<and> 0 \<le> f_val d \<and> f_val d \<le> 1 \<and>
    f_val d = Max (insert 0 (drawdown_at nav ` {..<length nav}))"
  using assms
proof (induction nav arbitrary: p d rule: rev_induct)
  case Nil
  then show ?case by simp
next
  case (snoc x xs)
  have x: "f_fin x" "0 \<le> f_val x" and ok: "nav_ok xs" using snoc.prems(2) by (auto simp: nav_ok_def)
  have pk: "peak_at (xs @ [x]) (length xs) = Max (f_val ` set (xs @ [x]))" by (simp add: peak_at_def)
  have nth: "(xs @ [x]) ! length xs = x" by simp
  show ?case
  proof (cases "xs = []")
    case True
    then have st: "dd_step (x, 0) x = (p, d)" using snoc.prems(3) by simp
    from dd_step_val [OF x(1) f_nan_0(2) x(1) x(2) x(2) _ _ st] True show ?thesis
      by (auto simp: drawdown_at_def peak_at_def max_def lessThan_Suc)
  next
    case False
    obtain p0 d0 where r: "foldl dd_step (hd xs, 0) xs = (p0, d0)" by fastforce
    note IH = snoc.IH [OF False ok r]
    have st: "dd_step (p0, d0) x = (p, d)" using snoc.prems(3) r False by simp
    have p0: "0 \<le> f_val p0"
    proof -
      have "f_val p0 \<in> f_val ` set xs" using IH False by simp
      then show ?thesis using ok by (auto simp: nav_ok_def)
    qed
    have i: "f_fin p0" "f_fin d0" "0 \<le> f_val d0" "f_val d0 \<le> 1" "f_val p0 = Max (f_val ` set xs)"
      "f_val d0 = Max (insert 0 (drawdown_at xs ` {..<length xs}))" using IH by blast+
    note s = dd_step_val [OF i(1,2) x p0 i(3,4) st]
    then have P: "f_val p = Max (f_val ` set (xs @ [x]))"
      using i(5) False by (simp add: max.commute)
    have "{..<length (xs @ [x])} = insert (length xs) {..<length xs}" by auto
    moreover have "drawdown_at (xs @ [x]) ` {..<length xs} = drawdown_at xs ` {..<length xs}"
      by (intro image_cong) (auto simp: drawdown_at_append)
    ultimately have D: "insert 0 (drawdown_at (xs @ [x]) ` {..<length (xs @ [x])}) =
        insert (drawdown_at (xs @ [x]) (length xs)) (insert 0 (drawdown_at xs ` {..<length xs}))"
      by (simp add: insert_commute)
    have "drawdown_at (xs @ [x]) (length xs) =
        (if 0 < f_val p then R (R (f_val p - f_val x) / f_val p) else 0)"
      unfolding drawdown_at_def pk P nth ..
    then have "f_val d = max (f_val d0) (drawdown_at (xs @ [x]) (length xs))" using s by simp
    also have "\<dots> = Max (insert (drawdown_at (xs @ [x]) (length xs)) (insert 0 (drawdown_at xs ` {..<length xs})))"
      unfolding i(6) by (subst Max_insert) (auto simp: max.commute)
    finally have "f_val d = Max (insert 0 (drawdown_at (xs @ [x]) ` {..<length (xs @ [x])}))"
      unfolding D .
    then show ?thesis using s P by blast
  qed
qed

lemma MaxDrawdown_spec:
  assumes "nav_ok nav"
  shows "f_val (MaxDrawdown nav) = Max (insert 0 (drawdown_at nav ` {..<length nav}))"
    "f_fin (MaxDrawdown nav)" "0 \<le> f_val (MaxDrawdown nav)" "f_val (MaxDrawdown nav) \<le> 1"
proof -
  have "f_val (MaxDrawdown nav) = Max (insert 0 (drawdown_at nav ` {..<length nav})) \<and>
    f_fin (MaxDrawdown nav) \<and> 0 \<le> f_val (MaxDrawdown nav) \<and> f_val (MaxDrawdown nav) \<le> 1"
  proof (cases nav)
    case Nil
    then show ?thesis by (simp add: MaxDrawdown_def)
  next
    case (Cons v0 rest)
    obtain p d where r: "foldl dd_step (hd nav, 0) nav = (p, d)" by fastforce
    then have d: "MaxDrawdown nav = d" by (simp add: MaxDrawdown_def Cons)
    have "nav \<noteq> []" by (simp add: Cons)
    from dd_fold [OF this assms r] show ?thesis unfolding d by blast
  qed
  then show "f_val (MaxDrawdown nav) = Max (insert 0 (drawdown_at nav ` {..<length nav}))"
    "f_fin (MaxDrawdown nav)" "0 \<le> f_val (MaxDrawdown nav)" "f_val (MaxDrawdown nav) \<le> 1" by blast+
qed

text \<open>A curve that never falls has no drawdown.\<close>

lemma MaxDrawdown_sorted:
  assumes "nav_ok nav" "sorted (map f_val nav)"
  shows "f_val (MaxDrawdown nav) = 0"
proof -
  have "drawdown_at nav k = 0" if "k < length nav" for k
  proof -
    have "peak_at nav k = f_val (nav ! k)"
      unfolding peak_at_def
    proof (rule Max_eqI)
      show "f_val (nav ! k) \<in> f_val ` set (take (Suc k) nav)"
        using that by (simp add: take_Suc_conv_app_nth)
      fix y assume "y \<in> f_val ` set (take (Suc k) nav)"
      then obtain i where "i \<le> k" "y = f_val (nav ! i)" using that by (auto simp: in_set_conv_nth less_Suc_eq_le)
      then show "y \<le> f_val (nav ! k)"
        using assms(2) that sorted_nth_mono [of "map f_val nav" i k] by simp
    qed simp
    then show ?thesis by (simp add: drawdown_at_def)
  qed
  then have z: "insert 0 (drawdown_at nav ` {..<length nav}) = {0}" by auto
  show ?thesis unfolding MaxDrawdown_spec(1) [OF assms(1)] z by simp
qed

section \<open>Months\<close>

lemma sint_monthOf: "sint (monthOf ts) = month_index (sint (i_quot ts 1000) div 86400)"
proof -
  have "monthOf ts = word_of_int (month_index (sint (i_quot ts 1000) div 86400))"
    by (simp add: monthOf_def utc_month_def month_index_def split_beta)
  then show ?thesis
    using sint64_of_int [OF month_index_bounds [OF utc_day_bounds [of ts]]] by (simp only:)
qed

lemma monthOf_mono:
  assumes "sint a \<le> sint b"
  shows "sint (monthOf a) \<le> sint (monthOf b)"
proof -
  have "0 < sint (1000 :: i64)" using sint64_of_int [of 1000] by simp
  then have "sint (i_quot a 1000) div 86400 \<le> sint (i_quot b 1000) div 86400"
    using i_quot_mono [OF assms] by (intro zdiv_mono1) auto
  then show ?thesis unfolding sint_monthOf by (rule month_index_mono)
qed

lemma monthOf_eq: "monthOf a = monthOf b \<longleftrightarrow> utc_month a = utc_month b"
proof -
  have "monthOf a = monthOf b \<longleftrightarrow> sint (monthOf a) = sint (monthOf b)" by (metis signed_word_eqI)
  also have "\<dots> \<longleftrightarrow> utc_month a = utc_month b" unfolding sint_monthOf civil_eq_iff utc_month_def ..
  finally show ?thesis .
qed

lemma MonthKey_eq:
  assumes "0 < sint a" "0 < sint b"
  shows "MonthKey a = MonthKey b \<longleftrightarrow> utc_month a = utc_month b"
proof -
  obtain y m y' m' where u: "utc_month a = (y, m)" "utc_month b = (y', m')" by fastforce
  have t: "0 < sint (1000 :: i64)" using sint64_of_int [of 1000] by simp
  have d: "0 \<le> sint (i_quot ts 1000) div 86400" if "0 < sint ts" for ts
    using that t by (simp add: sint_i_quot pos_imp_zdiv_nonneg_iff)
  note c = u [unfolded utc_month_def]
  have y: "0 \<le> y" "0 \<le> y'" and m: "1 \<le> m" "1 \<le> m'"
    using civil_year [OF c(1) d [OF assms(1)]] civil_year [OF c(2) d [OF assms(2)]]
      civil_month_range [OF c(1)] civil_month_range [OF c(2)] by simp_all
  have k: "MonthKey a = show_nat y @ CHR ''-'' # pad2 m" "MonthKey b = show_nat y' @ CHR ''-'' # pad2 m'"
    using assms u y by (simp_all add: MonthKey_def show_int_def)
  show ?thesis
  proof
    assume "MonthKey a = MonthKey b"
    then have "show_nat y @ CHR ''-'' # pad2 m = show_nat y' @ CHR ''-'' # pad2 m'" unfolding k .
    then have "show_nat y = show_nat y' \<and> pad2 m = pad2 m'"
      by (rule split_dash [OF show_nat_no_dash [OF y(1)] show_nat_no_dash [OF y(2)]])
    then have "y = y'" "m = m'"
      using show_nat_inject [OF y] pad2_read [OF m(1)] pad2_read [OF m(2)] by metis+
    then show "utc_month a = utc_month b" by (simp add: u)
  next
    assume "utc_month a = utc_month b"
    then show "MonthKey a = MonthKey b" using u k by simp
  qed
qed

section \<open>The baseline invests once a month\<close>

text \<open>The number of times a sequence of months differs from the one before.\<close>

primrec changes :: "i64 \<Rightarrow> i64 list \<Rightarrow> nat" where
  "changes p [] = 0"
| "changes p (m # ms) = (if m \<noteq> p then Suc (changes m ms) else changes p ms)"

lemma changes_sorted:
  assumes "sorted (map sint (p # ms))"
  shows "changes p ms = card (set ms - {p})"
  using assms
proof (induction ms arbitrary: p)
  case Nil
  then show ?case by simp
next
  case (Cons m ms)
  show ?case
  proof (cases "m = p")
    case True
    then show ?thesis using Cons by simp
  next
    case False
    have "p \<notin> set ms"
    proof
      assume "p \<in> set ms"
      then have "sint m \<le> sint p" "sint p \<le> sint m" using Cons.prems by auto
      then have "m = p" by (intro signed_word_eqI) simp
      with False show False ..
    qed
    then have "set (m # ms) - {p} = insert m (set ms - {m})" using False by auto
    moreover have "changes m ms = card (set ms - {m})" using Cons by simp
    ultimately show ?thesis using False by (simp add: card.insert_remove)
  qed
qed

abbreviation live_months :: "Bar list \<Rightarrow> i64 list" where
  "live_months bars \<equiv> map (\<lambda>b. monthOf (OpenTime b)) (filter (\<lambda>b. \<not> Close b \<le> 0) bars)"

lemma ghost_step_flows:
  assumes "0 < GcMonthlyInject cfg"
  shows "map cf_amount (g_flows (ghost_step cfg t0 g b)) = map cf_amount (g_flows g) @
      (if Close b \<le> 0 \<or> monthOf (OpenTime b) = g_prevMonth g then [] else [GcMonthlyInject cfg])"
    "g_prevMonth (ghost_step cfg t0 g b) = (if Close b \<le> 0 then g_prevMonth g else monthOf (OpenTime b))"
  using assms by (simp_all add: ghost_step_def Let_def)

lemma ghost_flows:
  assumes "0 < GcMonthlyInject cfg"
  shows "map cf_amount (g_flows (foldl (ghost_step cfg t0) g bars)) =
    map cf_amount (g_flows g) @ replicate (changes (g_prevMonth g) (live_months bars)) (GcMonthlyInject cfg)"
proof (induction bars arbitrary: g)
  case Nil
  then show ?case by simp
next
  case (Cons b bars)
  show ?case by (simp add: Cons.IH ghost_step_flows [OF assms])
qed

lemma ghost_nav_length:
  "length (g_nav (foldl (ghost_step cfg t0) g bars)) = length (g_nav g) + length bars"
proof -
  have "length (g_nav (ghost_step cfg t0 g b)) = Suc (length (g_nav g))" for g b
    by (simp add: ghost_step_def Let_def)
  then show ?thesis by (induction bars arbitrary: g) simp_all
qed

lemma fst_dietz: "fst (foldl (dietz_step n) st flows) = foldl (+) (fst st) (map cf_amount flows)"
  by (induction flows arbitrary: st) (simp_all add: dietz_step_def Let_def split_beta)

section \<open>Properties\<close>

text \<open>On a curve of finite values that are not negative the drawdown loop returns the largest of
  the drawdowns from the running peak, each rounded as the code rounds it, or zero; the result lies
  in the unit interval, and a curve that never falls has none.\<close>

theorem max_drawdown:
  assumes "nav_ok nav"
  shows "f_val (MaxDrawdown nav) = Max (insert 0 (drawdown_at nav ` {..<length nav})) \<and>
    0 \<le> f_val (MaxDrawdown nav) \<and> f_val (MaxDrawdown nav) \<le> 1 \<and>
    (sorted (map f_val nav) \<longrightarrow> f_val (MaxDrawdown nav) = 0)"
  using MaxDrawdown_spec [OF assms] MaxDrawdown_sorted [OF assms] by blast

theorem max_drawdown_witness: "f_val (MaxDrawdown [lit 1 1, lit 2 1, lit 10 1]) = 0"
  using max_drawdown [of "[lit 1 1, lit 2 1, lit 10 1]"] by (simp add: nav_ok_def)

text \<open>The two month functions of the program agree: on positive timestamps the key of the macro
  engine and the number of the baseline identify the same months, those of the UTC calendar, and
  the number never decreases with time.\<close>

theorem month_keys_agree:
  assumes "0 < sint a" "0 < sint b"
  shows "(MonthKey a = MonthKey b) = (monthOf a = monthOf b) \<and>
    (sint a \<le> sint b \<longrightarrow> sint (monthOf a) \<le> sint (monthOf b))"
  using assms MonthKey_eq monthOf_eq monthOf_mono by blast

theorem month_keys_agree_witness: "MonthKey 1700000000000 = MonthKey 1701000000000"
proof -
  have "monthOf 1700000000000 = monthOf 1701000000000" by code_simp
  moreover have "0 < sint (1700000000000 :: i64)" "0 < sint (1701000000000 :: i64)" by simp_all
  ultimately show ?thesis using month_keys_agree [of 1700000000000 1701000000000] by blast
qed


definition ghost_bar :: "i64 \<Rightarrow> Bar" where
  "ghost_bar t = \<lparr>OpenTime = t, Open = 1, High = 1, Low = 1, Close = 1, Volume = 0\<rparr>"


end
