(* ===== verification/Crucible.thy ===== *)
theory Crucible
  imports QuantData
begin

text \<open>
  \<open>internal/quant/crucible.go\<close>: the four evaluation windows of the fitness function. The
  lemmas say that on bars in the order of time all four exist, where each starts, and that each
  holds exactly the bars from its warm-up start on.
\<close>

section \<open>Definitions\<close>

definition DefaultWarmupDays :: i64 where "DefaultWarmupDays = 1200"

record CrucibleWindow =
  CwLabel :: string
  CwWeight :: f64
  CwBars :: "Bar list"
  CwEvalStartMs :: i64

record CrucibleResult =
  CrWindow :: string
  CrScore :: f64
  CrROI :: f64
  CrMaxDD :: f64
  CrAlpha :: f64

definition msPerDay :: i64 where "msPerDay = 24 * 60 * 60 * 1000"

text \<open>The index of the first bar that is not before a time, the number of bars if there is none.\<close>

primrec findFirstIdx :: "i64 \<Rightarrow> Bar list \<Rightarrow> nat" where
  "findFirstIdx targetMs [] = 0"
| "findFirstIdx targetMs (b # bs) = (if sint targetMs \<le> sint (OpenTime b) then 0 else Suc (findFirstIdx targetMs bs))"

record window_spec =
  ws_label :: string
  ws_weight :: f64
  ws_days :: i64

definition crucible_specs :: "window_spec list" where
  "crucible_specs =
     [\<lparr>ws_label = ''6m'', ws_weight = lit 10 100, ws_days = 183\<rparr>,
      \<lparr>ws_label = ''2y'', ws_weight = lit 20 100, ws_days = 730\<rparr>,
      \<lparr>ws_label = ''5y'', ws_weight = lit 30 100, ws_days = 1825\<rparr>,
      \<lparr>ws_label = ''full'', ws_weight = lit 40 100, ws_days = 0\<rparr>]"

definition eval_start :: "i64 \<Rightarrow> i64 \<Rightarrow> window_spec \<Rightarrow> i64" where
  "eval_start firstMs lastMs s = (if ws_days s = 0 then firstMs
     else let e = lastMs - ws_days s * msPerDay in if sint e \<le> sint firstMs then firstMs else e)"

definition crucible_window :: "Bar list \<Rightarrow> i64 \<Rightarrow> i64 \<Rightarrow> i64 \<Rightarrow> window_spec \<Rightarrow> CrucibleWindow list" where
  "crucible_window allBars firstMs lastMs warmupMs s =
     (let evalStartMs = eval_start firstMs lastMs s in
      if length allBars \<le> findFirstIdx evalStartMs allBars then []
      else [\<lparr>CwLabel = ws_label s, CwWeight = ws_weight s,
        CwBars = drop (findFirstIdx (evalStartMs - warmupMs) allBars) allBars,
        CwEvalStartMs = evalStartMs\<rparr>])"

definition BuildCrucibleWindows :: "Bar list \<Rightarrow> i64 \<Rightarrow> CrucibleWindow list" where
  "BuildCrucibleWindows allBars warmupDays = (case allBars of [] \<Rightarrow> []
     | b0 # _ \<Rightarrow> concat (map (crucible_window allBars (OpenTime b0) (OpenTime (last allBars))
         (warmupDays * msPerDay)) crucible_specs))"

section \<open>Searching\<close>

lemma findFirstIdx_le: "findFirstIdx t bars \<le> length bars"
  by (induction bars) simp_all

lemma findFirstIdx_less: "findFirstIdx t bars < length bars \<longleftrightarrow> (\<exists>b \<in> set bars. sint t \<le> sint (OpenTime b))"
  by (induction bars) auto

lemma drop_findFirstIdx: "drop (findFirstIdx t bars) bars = dropWhile (\<lambda>b. sint (OpenTime b) < sint t) bars"
  by (induction bars) (simp_all add: not_less)

abbreviation in_order :: "Bar list \<Rightarrow> bool" where
  "in_order bars \<equiv> sorted (map (\<lambda>b. sint (OpenTime b)) bars)"

lemma dropWhile_in_order:
  assumes "in_order bars"
  shows "dropWhile (\<lambda>b. sint (OpenTime b) < t) bars = filter (\<lambda>b. t \<le> sint (OpenTime b)) bars"
  using assms
proof (induction bars)
  case Nil
  then show ?case by simp
next
  case (Cons b bars)
  show ?case
  proof (cases "sint (OpenTime b) < t")
    case False
    then have "\<forall>c \<in> set bars. t \<le> sint (OpenTime c)" using Cons.prems by fastforce
    then show ?thesis using False by (simp add: filter_id_conv)
  qed (use Cons in auto)
qed

section \<open>Window arithmetic without wrap-around\<close>

text \<open>Timestamps and warm-ups for which no subtraction wraps: times from 1970 on and below
  \<open>2^62\<close>, at most ten million warm-up days.\<close>

definition times_ok :: "Bar list \<Rightarrow> i64 \<Rightarrow> bool" where
  "times_ok bars warmupDays \<longleftrightarrow> (\<forall>b \<in> set bars. 0 \<le> sint (OpenTime b) \<and> sint (OpenTime b) < 2 ^ 62) \<and>
     0 \<le> sint warmupDays \<and> sint warmupDays \<le> 10000000"

lemma sint_sub:
  fixes a b :: i64
  assumes "0 \<le> sint a" "sint a < 2 ^ 62" "sint b = k" "0 \<le> k" "k < 2 ^ 62"
  shows "sint (a - b) = sint a - k"
proof -
  obtain i where i: "sint a = i" "0 \<le> i" "i < 2 ^ 62" using assms by blast
  have "a = word_of_int i" "b = word_of_int k"
    unfolding i(1) [symmetric] assms(3) [symmetric] by simp_all
  then have "a - b = word_of_int (i - k)" by simp
  moreover have "sint (word_of_int (i - k) :: i64) = i - k"
    using i assms by (intro sint64_of_int) simp_all
  ultimately show ?thesis unfolding i(1) by (simp only:)
qed

lemma sint_days:
  fixes w :: i64
  assumes "0 \<le> sint w" "sint w \<le> 10000000"
  shows "sint (w * msPerDay) = sint w * 86400000"
proof -
  obtain k where k: "sint w = k" "0 \<le> k" "k \<le> 10000000" using assms by blast
  have "w = word_of_int k" unfolding k(1) [symmetric] by simp
  then have "w * msPerDay = word_of_int (k * 86400000)" by (simp add: msPerDay_def)
  moreover have "sint (word_of_int (k * 86400000) :: i64) = k * 86400000"
    using k by (intro sint64_of_int) simp_all
  ultimately show ?thesis unfolding k(1) by (simp only:)
qed

lemma eval_start_val:
  assumes "0 \<le> sint a" "sint a \<le> sint z" "sint z < 2 ^ 62" "sint (ws_days s) = n" "0 < n" "n \<le> 10000"
  shows "sint (eval_start a z s) = max (sint a) (sint z - n * 86400000)"
proof -
  have "sint (ws_days s * msPerDay) = n * 86400000" using sint_days [of "ws_days s"] assms by simp
  then have "sint (z - ws_days s * msPerDay) = sint z - n * 86400000"
    using assms by (intro sint_sub) simp_all
  moreover have "ws_days s \<noteq> 0" using assms by auto
  ultimately show ?thesis by (simp add: eval_start_def Let_def)
qed

text \<open>A window of the specification: it always exists, and holds the bars from its warm-up on.\<close>

lemma crucible_window_spec:
  assumes "in_order (b0 # bs)" "times_ok (b0 # bs) warmupDays"
  defines "a \<equiv> OpenTime b0" and "z \<equiv> OpenTime (last (b0 # bs))"
  assumes e: "sint (eval_start a z s) = t" "sint a \<le> t" "t \<le> sint z"
  shows "crucible_window (b0 # bs) a z (warmupDays * msPerDay) s =
    [\<lparr>CwLabel = ws_label s, CwWeight = ws_weight s,
      CwBars = filter (\<lambda>b. t - sint warmupDays * 86400000 \<le> sint (OpenTime b)) (b0 # bs),
      CwEvalStartMs = eval_start a z s\<rparr>]"
proof -
  have a: "0 \<le> sint a" and z: "sint z < 2 ^ 62" and w: "0 \<le> sint warmupDays" "sint warmupDays \<le> 10000000"
    using assms(2) by (auto simp: times_ok_def a_def z_def)
  have idx: "findFirstIdx (eval_start a z s) (b0 # bs) < length (b0 # bs)"
    unfolding findFirstIdx_less using e by (intro bexI [of _ "last (b0 # bs)"]) (auto simp: z_def)
  have "sint (eval_start a z s - warmupDays * msPerDay) = t - sint warmupDays * 86400000"
    using sint_sub [of "eval_start a z s" "warmupDays * msPerDay"] sint_days [OF w] a z w e by simp
  then have "drop (findFirstIdx (eval_start a z s - warmupDays * msPerDay) (b0 # bs)) (b0 # bs) =
      filter (\<lambda>b. t - sint warmupDays * 86400000 \<le> sint (OpenTime b)) (b0 # bs)"
    unfolding drop_findFirstIdx by (simp only: dropWhile_in_order [OF assms(1)])
  with idx show ?thesis unfolding crucible_window_def Let_def by simp
qed

lemma sint_small: "0 \<le> k \<Longrightarrow> k < 2 ^ 62 \<Longrightarrow> sint (word_of_int k :: i64) = k"
  by (rule sint64_of_int) simp_all

lemma spec_days:
  "sint (183 :: i64) = 183" "sint (730 :: i64) = 730" "sint (1825 :: i64) = 1825"
  using sint_small [of 183] sint_small [of 730] sint_small [of 1825] by simp_all

text \<open>The windows in the order of the code, with the starts of their evaluation.\<close>

lemma BuildCrucibleWindows_spec:
  assumes "in_order (b0 # bs)" "times_ok (b0 # bs) warmupDays"
  defines "F \<equiv> sint (OpenTime b0)" and "L \<equiv> sint (OpenTime (last (b0 # bs)))"
  shows "map (\<lambda>w. (CwLabel w, sint (CwEvalStartMs w))) (BuildCrucibleWindows (b0 # bs) warmupDays) =
      [(''6m'', max F (L - 183 * 86400000)), (''2y'', max F (L - 730 * 86400000)),
       (''5y'', max F (L - 1825 * 86400000)), (''full'', F)]"
    "\<forall>w \<in> set (BuildCrucibleWindows (b0 # bs) warmupDays). CwBars w =
       filter (\<lambda>b. sint (CwEvalStartMs w) - sint warmupDays * 86400000 \<le> sint (OpenTime b)) (b0 # bs)"
proof -
  let ?a = "OpenTime b0" and ?z = "OpenTime (last (b0 # bs))"
  have r: "0 \<le> sint ?a" "sint ?z < 2 ^ 62" using assms(2) by (auto simp: times_ok_def)
  have le: "sint ?a \<le> sint ?z" using assms(1) by (cases bs) auto
  note ev = eval_start_val [OF r(1) le r(2)] and sp = crucible_window_spec [OF assms(1,2) refl]
  have four: "\<exists>ws. BuildCrucibleWindows (b0 # bs) warmupDays = ws \<and> length ws = 4 \<and>
      (\<forall>i < 4. ws ! i = \<lparr>CwLabel = ws_label (crucible_specs ! i), CwWeight = ws_weight (crucible_specs ! i),
        CwBars = filter (\<lambda>b. sint (eval_start ?a ?z (crucible_specs ! i)) - sint warmupDays * 86400000
          \<le> sint (OpenTime b)) (b0 # bs), CwEvalStartMs = eval_start ?a ?z (crucible_specs ! i)\<rparr>)"
  proof -
    have b: "sint ?a \<le> sint (eval_start ?a ?z s) \<and> sint (eval_start ?a ?z s) \<le> sint ?z"
      if "s \<in> set crucible_specs" for s
      using that le ev [of s] by (auto simp: crucible_specs_def eval_start_def spec_days)
    show ?thesis
      using sp [of "crucible_specs ! 0"] sp [of "crucible_specs ! 1"] sp [of "crucible_specs ! 2"]
        sp [of "crucible_specs ! 3"] b
      by (simp add: BuildCrucibleWindows_def crucible_specs_def numeral_eq_Suc less_Suc_eq all_conj_distrib)
  qed
  then obtain ws where ws: "BuildCrucibleWindows (b0 # bs) warmupDays = ws" "length ws = 4"
    and nth: "\<And>i. i < 4 \<Longrightarrow> ws ! i = \<lparr>CwLabel = ws_label (crucible_specs ! i),
        CwWeight = ws_weight (crucible_specs ! i),
        CwBars = filter (\<lambda>b. sint (eval_start ?a ?z (crucible_specs ! i)) - sint warmupDays * 86400000
          \<le> sint (OpenTime b)) (b0 # bs), CwEvalStartMs = eval_start ?a ?z (crucible_specs ! i)\<rparr>"
    by blast
  have list4: "ws = [ws ! 0, ws ! 1, ws ! 2, ws ! 3]"
    using ws(2) by (intro nth_equalityI) (auto simp: numeral_eq_Suc less_Suc_eq)
  have "eval_start ?a ?z (crucible_specs ! 3) = ?a" by (simp add: crucible_specs_def eval_start_def)
  then show "map (\<lambda>w. (CwLabel w, sint (CwEvalStartMs w))) (BuildCrucibleWindows (b0 # bs) warmupDays) =
      [(''6m'', max F (L - 183 * 86400000)), (''2y'', max F (L - 730 * 86400000)),
       (''5y'', max F (L - 1825 * 86400000)), (''full'', F)]"
    unfolding ws(1) F_def L_def
    using ev [of "crucible_specs ! 0"] ev [of "crucible_specs ! 1"] ev [of "crucible_specs ! 2"]
    by (subst list4) (simp add: nth crucible_specs_def spec_days)
  show "\<forall>w \<in> set (BuildCrucibleWindows (b0 # bs) warmupDays). CwBars w =
      filter (\<lambda>b. sint (CwEvalStartMs w) - sint warmupDays * 86400000 \<le> sint (OpenTime b)) (b0 # bs)"
    unfolding ws(1) using nth ws(2) by (auto simp: in_set_conv_nth)
qed

section \<open>Properties\<close>

text \<open>C36. On bars in the order of time the four windows all exist, shortest first; each evaluation
  starts its number of days before the last bar but not before the first, and the window holds
  exactly the bars from its warm-up days before that on, so it is never empty.\<close>

theorem crucible_windows:
  assumes "in_order (b0 # bs)" "times_ok (b0 # bs) warmupDays"
  shows "map (\<lambda>w. (CwLabel w, sint (CwEvalStartMs w))) (BuildCrucibleWindows (b0 # bs) warmupDays) =
      [(''6m'', max (sint (OpenTime b0)) (sint (OpenTime (last (b0 # bs))) - 183 * 86400000)),
       (''2y'', max (sint (OpenTime b0)) (sint (OpenTime (last (b0 # bs))) - 730 * 86400000)),
       (''5y'', max (sint (OpenTime b0)) (sint (OpenTime (last (b0 # bs))) - 1825 * 86400000)),
       (''full'', sint (OpenTime b0))] \<and>
    (\<forall>w \<in> set (BuildCrucibleWindows (b0 # bs) warmupDays). CwBars w =
      filter (\<lambda>b. sint (CwEvalStartMs w) - sint warmupDays * 86400000 \<le> sint (OpenTime b)) (b0 # bs))"
  using BuildCrucibleWindows_spec [OF assms] by blast

definition crucible_bar :: "i64 \<Rightarrow> Bar" where
  "crucible_bar t = \<lparr>OpenTime = t, Open = 1, High = 1, Low = 1, Close = 1, Volume = 0\<rparr>"

theorem crucible_windows_witness:
  "map CwLabel (BuildCrucibleWindows [crucible_bar 1600000000000, crucible_bar 1700000000000] DefaultWarmupDays) =
     [''6m'', ''2y'', ''5y'', ''full'']"
proof -
  let ?bs = "[crucible_bar 1600000000000, crucible_bar 1700000000000]"
  have o: "in_order ?bs" by (simp add: crucible_bar_def)
  have t: "times_ok ?bs DefaultWarmupDays" by (simp add: times_ok_def crucible_bar_def DefaultWarmupDays_def)
  have "map fst (map (\<lambda>w. (CwLabel w, sint (CwEvalStartMs w))) (BuildCrucibleWindows ?bs DefaultWarmupDays)) =
      [''6m'', ''2y'', ''5y'', ''full'']"
    using crucible_windows [OF o t] by simp
  then show ?thesis by (simp add: comp_def)
qed

end
