(* ===== verification/Backtest.thy ===== *)
theory Backtest
  imports SigmoidDCA GhostDCA Crucible
begin

text \<open>
  \<open>internal/adapters/backtest/adapter.go\<close>: the loop that drives a strategy over a bar
  series, the execution of intents on the simulated account and the metrics. The strategy is the
  argument \<open>step\<close>, as the interface is in the code. The lemmas bound what an order does to
  the account, say what the warm-up leaves untouched, and relate the averages a run sees to the
  whole series.
\<close>

section \<open>Definitions\<close>

record Config =
  CfBars :: "Bar list"
  CfEvalStartMs :: i64
  CfChromosome :: Chromosome
  CfSpawnPoint :: SpawnPoint
  CfLotStep :: f64
  CfLotMin :: f64
  CfTakerFee :: f64

record Metrics =
  MtFinalEquity :: f64
  MtMaxDrawdown :: f64
  MtROI :: f64

definition zero_metrics :: Metrics where
  "zero_metrics = \<lparr>MtFinalEquity = 0, MtMaxDrawdown = 0, MtROI = 0\<rparr>"

definition clamp0 :: "f64 \<Rightarrow> f64" where
  "clamp0 v = (if v < 0 then 0 else v)"

definition snapToStep :: "f64 \<Rightarrow> f64 \<Rightarrow> f64" where
  "snapToStep qty step = (if step \<le> 0 then qty else f_of_i64 (f_trunc (qty / step)) * step)"

definition apply_buy :: "TradeIntent \<Rightarrow> PortfolioState \<Rightarrow> f64 \<Rightarrow> f64 \<Rightarrow> f64 \<Rightarrow> f64 \<Rightarrow> PortfolioState" where
  "apply_buy intent p price lotStep lotMin fee =
     (let spend = AmountUSDT intent in
      if spend \<le> 0 \<or> SpendableUSDT p < spend then p
      else let qty = snapToStep (spend / price * (1 - fee)) lotStep in
        if 0 < lotMin \<and> qty < lotMin then p
        else let p = p\<lparr>TotalUSDT := TotalUSDT p - qty * price\<rparr>;
                 p = p\<lparr>SpendableUSDT := clamp0 (TotalUSDT p - ReserveFloor p)\<rparr> in
          if LotType intent = ''DEAD_STACK'' then p\<lparr>DeadStack := DeadStack p + qty\<rparr>
          else if LotType intent = ''FLOATING'' then p\<lparr>FloatStack := FloatStack p + qty\<rparr>
          else p)"

definition apply_sell :: "TradeIntent \<Rightarrow> PortfolioState \<Rightarrow> f64 \<Rightarrow> f64 \<Rightarrow> f64 \<Rightarrow> f64 \<Rightarrow> PortfolioState" where
  "apply_sell intent p price lotStep lotMin fee =
     (let qty = snapToStep (QtyAsset intent) lotStep in
      if 0 < lotMin \<and> qty < lotMin \<or> FloatStack p < qty then p
      else let p = p\<lparr>FloatStack := FloatStack p - qty\<rparr>;
               p = p\<lparr>TotalUSDT := TotalUSDT p + qty * price * (1 - fee)\<rparr> in
        p\<lparr>SpendableUSDT := clamp0 (TotalUSDT p - ReserveFloor p)\<rparr>)"

definition apply_release :: "TradeIntent \<Rightarrow> PortfolioState \<Rightarrow> PortfolioState" where
  "apply_release intent p = (let qty = QtyAsset intent in
     if qty \<le> 0 \<or> DeadStack p < qty then p
     else p\<lparr>DeadStack := DeadStack p - qty, FloatStack := FloatStack p + qty\<rparr>)"

definition applyIntent :: "TradeIntent \<Rightarrow> PortfolioState \<Rightarrow> f64 \<Rightarrow> f64 \<Rightarrow> f64 \<Rightarrow> f64 \<Rightarrow> PortfolioState" where
  "applyIntent intent p price lotStep lotMin fee =
     (if Action intent = ''BUY'' then apply_buy intent p price lotStep lotMin fee
      else if Action intent = ''SELL'' then apply_sell intent p price lotStep lotMin fee
      else if Action intent = ''RELEASE'' then apply_release intent p
      else p)"

text \<open>The variables of the loop; \<open>b_seen\<close> is the prefix of bars whose closes, highs, lows
  and times the four growing slices hold.\<close>

record bt_state =
  b_seen :: "Bar list"
  b_portfolio :: PortfolioState
  b_runtime :: RuntimeState
  b_inEval :: bool
  b_evalFirstMs :: i64
  b_evalLastMs :: i64
  b_prevMonthKey :: string
  b_flows :: "cashFlow list"
  b_navCurve :: "f64 list"

definition bt_start :: "Config \<Rightarrow> bt_state" where
  "bt_start cfg = \<lparr>b_seen = [],
     b_portfolio = \<lparr>TotalUSDT = 0, ReserveFloor = SpReserveFloor (CfSpawnPoint cfg), SpendableUSDT = 0,
       DeadStack = 0, FloatStack = 0, ColdSealedStack = 0, NAVInitial = InitialCapital (CfSpawnPoint cfg)\<rparr>,
     b_runtime = zero_runtime, b_inEval = False, b_evalFirstMs = 0, b_evalLastMs = 0,
     b_prevMonthKey = '''', b_flows = [], b_navCurve = []\<rparr>"

definition fund :: "PortfolioState \<Rightarrow> f64 \<Rightarrow> PortfolioState" where
  "fund p usdt = p\<lparr>TotalUSDT := usdt, SpendableUSDT := clamp0 (usdt - ReserveFloor p)\<rparr>"

definition bt_enter :: "Config \<Rightarrow> Bar \<Rightarrow> bt_state \<Rightarrow> bt_state" where
  "bt_enter cfg bar s =
     (if \<not> b_inEval s \<and> sint (CfEvalStartMs cfg) \<le> sint (OpenTime bar)
      then s\<lparr>b_inEval := True, b_evalFirstMs := OpenTime bar,
        b_portfolio := fund (b_portfolio s) (InitialCapital (CfSpawnPoint cfg)),
        b_prevMonthKey := MonthKey (OpenTime bar)\<rparr>
      else s)"

definition bt_inject :: "Config \<Rightarrow> Bar \<Rightarrow> bt_state \<Rightarrow> bt_state" where
  "bt_inject cfg bar s =
     (if b_inEval s then
        let s = s\<lparr>b_evalLastMs := OpenTime bar\<rparr>; mk = MonthKey (OpenTime bar);
            inj = MonthlyInject (CfSpawnPoint cfg) in
        if mk \<noteq> b_prevMonthKey s \<and> 0 < inj
        then s\<lparr>b_prevMonthKey := mk,
          b_portfolio := fund (b_portfolio s) (TotalUSDT (b_portfolio s) + inj),
          b_flows := b_flows s @ [\<lparr>cf_day = i_quot (OpenTime bar - b_evalFirstMs s) (24 * 60 * 60 * 1000),
            cf_amount = inj\<rparr>]\<rparr>
        else s
      else s)"

definition bt_input :: "Config \<Rightarrow> bt_state \<Rightarrow> StrategyInput" where
  "bt_input cfg s = \<lparr>StCloses = ExtractCloses (b_seen s), StHighs = ExtractHighs (b_seen s),
     StLows = ExtractLows (b_seen s), StTimestamps = ExtractTimestamps (b_seen s),
     StPortfolio = b_portfolio s, StRuntime = b_runtime s, StParams = CfChromosome cfg,
     StSpawn = CfSpawnPoint cfg\<rparr>"

definition nav_sample :: "PortfolioState \<Rightarrow> f64 \<Rightarrow> f64" where
  "nav_sample p close = (let btcTotal = DeadStack p + FloatStack p + ColdSealedStack p in
     TotalUSDT p + btcTotal * close)"

definition bt_execute :: "Config \<Rightarrow> Bar \<Rightarrow> StrategyOutput \<Rightarrow> bt_state \<Rightarrow> bt_state" where
  "bt_execute cfg bar out s =
     (let s = s\<lparr>b_runtime := OutRuntime out\<rparr> in
      if b_inEval s \<and> 0 < Close bar
      then let p = foldl (\<lambda>p intent. applyIntent intent p (Close bar) (CfLotStep cfg) (CfLotMin cfg) (CfTakerFee cfg))
                 (b_portfolio s) (Intents out) in
        s\<lparr>b_portfolio := p, b_navCurve := b_navCurve s @ [nav_sample p (Close bar)]\<rparr>
      else s)"

definition bt_bar :: "Config \<Rightarrow> (StrategyInput \<Rightarrow> StrategyOutput) \<Rightarrow> bt_state \<Rightarrow> Bar \<Rightarrow> bt_state" where
  "bt_bar cfg step s bar =
     (let s = s\<lparr>b_seen := b_seen s @ [bar]\<rparr>;
          s = bt_inject cfg bar (bt_enter cfg bar s) in
      bt_execute cfg bar (step (bt_input cfg s)) s)"

definition bt_loop :: "Config \<Rightarrow> (StrategyInput \<Rightarrow> StrategyOutput) \<Rightarrow> bt_state" where
  "bt_loop cfg step = foldl (bt_bar cfg step) (bt_start cfg) (CfBars cfg)"

definition RunBacktest :: "Config \<Rightarrow> (StrategyInput \<Rightarrow> StrategyOutput) \<Rightarrow> Metrics" where
  "RunBacktest cfg step =
     (if CfBars cfg = [] \<or> InitialCapital (CfSpawnPoint cfg) \<le> 0 then zero_metrics
      else let s = bt_loop cfg step in
        if b_navCurve s = [] then zero_metrics
        else let finalEquity = last (b_navCurve s);
                 vStart = InitialCapital (CfSpawnPoint cfg);
                 totalDays = i_quot (b_evalLastMs s - b_evalFirstMs s) (24 * 60 * 60 * 1000) in
          \<lparr>MtFinalEquity = finalEquity, MtMaxDrawdown = MaxDrawdown (b_navCurve s),
           MtROI = dietz_roi vStart finalEquity (dietz_sums totalDays (b_flows s))\<rparr>)"

section \<open>What an order leaves alone\<close>

lemma applyIntent_frame [simp]:
  "ReserveFloor (applyIntent i p price ls lm fee) = ReserveFloor p"
  "NAVInitial (applyIntent i p price ls lm fee) = NAVInitial p"
  "ColdSealedStack (applyIntent i p price ls lm fee) = ColdSealedStack p"
  by (simp_all add: applyIntent_def apply_buy_def apply_sell_def apply_release_def Let_def)

lemma execute_frame [simp]:
  "ReserveFloor (foldl (\<lambda>p i. applyIntent i p price ls lm fee) p is) = ReserveFloor p"
  "NAVInitial (foldl (\<lambda>p i. applyIntent i p price ls lm fee) p is) = NAVInitial p"
  "ColdSealedStack (foldl (\<lambda>p i. applyIntent i p price ls lm fee) p is) = ColdSealedStack p"
  by (induction "is" arbitrary: p) simp_all

section \<open>The warm-up\<close>

lemma bt_bar_seen: "b_seen (bt_bar cfg step s bar) = b_seen s @ [bar]"
  by (simp add: bt_bar_def bt_execute_def bt_inject_def bt_enter_def Let_def)

lemma bt_seen: "b_seen (foldl (bt_bar cfg step) s bars) = b_seen s @ bars"
  by (induction bars arbitrary: s) (simp_all add: bt_bar_seen)

text \<open>The input of the step at a bar outside the evaluation.\<close>

abbreviation warm_input :: "Config \<Rightarrow> bt_state \<Rightarrow> Bar \<Rightarrow> StrategyInput" where
  "warm_input cfg s bar \<equiv> bt_input cfg (s\<lparr>b_seen := b_seen s @ [bar]\<rparr>)"

lemma bt_bar_warm:
  assumes "\<not> b_inEval s" "sint (OpenTime bar) < sint (CfEvalStartMs cfg)"
  shows "bt_bar cfg step s bar =
    s\<lparr>b_seen := b_seen s @ [bar], b_runtime := OutRuntime (step (warm_input cfg s bar))\<rparr>"
  using assms by (simp add: bt_bar_def bt_execute_def bt_inject_def bt_enter_def Let_def)

lemma bt_warm:
  assumes "\<not> b_inEval s" "\<forall>b \<in> set bars. sint (OpenTime b) < sint (CfEvalStartMs cfg)"
  shows "foldl (bt_bar cfg step) s bars =
    s\<lparr>b_seen := b_seen s @ bars, b_runtime := b_runtime (foldl (bt_bar cfg step) s bars)\<rparr>"
  using assms
proof (induction bars rule: rev_induct)
  case Nil
  then show ?case by simp
next
  case (snoc b bars)
  let ?t = "foldl (bt_bar cfg step) s bars"
  have t: "?t = s\<lparr>b_seen := b_seen s @ bars, b_runtime := b_runtime ?t\<rparr>" using snoc by simp
  from arg_cong [OF t, of b_inEval] have "\<not> b_inEval ?t" using snoc.prems(1) by simp
  from bt_bar_warm [OF this] snoc.prems(2)
  have "bt_bar cfg step ?t b = ?t\<lparr>b_seen := b_seen ?t @ [b],
      b_runtime := OutRuntime (step (warm_input cfg ?t b))\<rparr>" by simp
  then show ?case by (subst (asm) t) (simp add: bt_seen)
qed

section \<open>The runtime state of a run\<close>

definition bt_pre :: "Config \<Rightarrow> Bar \<Rightarrow> bt_state \<Rightarrow> bt_state" where
  "bt_pre cfg bar s = bt_inject cfg bar (bt_enter cfg bar (s\<lparr>b_seen := b_seen s @ [bar]\<rparr>))"

lemma bt_bar_pre: "bt_bar cfg step s bar = bt_execute cfg bar (step (bt_input cfg (bt_pre cfg bar s))) (bt_pre cfg bar s)"
  by (simp add: bt_bar_def bt_pre_def Let_def)

lemma bt_pre_simps [simp]:
  "b_seen (bt_pre cfg bar s) = b_seen s @ [bar]" "b_runtime (bt_pre cfg bar s) = b_runtime s"
  "b_navCurve (bt_pre cfg bar s) = b_navCurve s"
  "DeadStack (b_portfolio (bt_pre cfg bar s)) = DeadStack (b_portfolio s)"
  "FloatStack (b_portfolio (bt_pre cfg bar s)) = FloatStack (b_portfolio s)"
  "ColdSealedStack (b_portfolio (bt_pre cfg bar s)) = ColdSealedStack (b_portfolio s)"
  "NAVInitial (b_portfolio (bt_pre cfg bar s)) = NAVInitial (b_portfolio s)"
  "ReserveFloor (b_portfolio (bt_pre cfg bar s)) = ReserveFloor (b_portfolio s)"
  by (simp_all add: bt_pre_def bt_inject_def bt_enter_def fund_def Let_def)

lemma bt_input_simps [simp]:
  "StCloses (bt_input cfg s) = ExtractCloses (b_seen s)" "StRuntime (bt_input cfg s) = b_runtime s"
  "StPortfolio (bt_input cfg s) = b_portfolio s" "StParams (bt_input cfg s) = CfChromosome cfg"
  "StSpawn (bt_input cfg s) = CfSpawnPoint cfg"
  by (simp_all add: bt_input_def)

lemma bt_bar_runtime:
  "b_runtime (bt_bar cfg step s bar) = OutRuntime (step (bt_input cfg (bt_pre cfg bar s)))"
  by (simp add: bt_bar_pre bt_execute_def Let_def)

text \<open>A step updates the averages exactly as the market state does, once there are 24 bars.\<close>

lemma Step_ema:
  "EMA200 (OutRuntime (Step m inp)) = (if length (StCloses inp) < 24 then EMA200 (StRuntime inp)
     else next_ema200 (ms_input inp))"
  "EMA200History (OutRuntime (Step m inp)) = (if length (StCloses inp) < 24 then EMA200History (StRuntime inp)
     else push_history (EMA200History (StRuntime inp)) (next_ema200 (ms_input inp)))"
proof -
  have rt: "EMA200 (rt_after inp) = next_ema200 (ms_input inp)"
    "EMA200History (rt_after inp) = push_history (EMA200History (StRuntime inp)) (next_ema200 (ms_input inp))"
    by (simp_all add: rt_after_def ComputeMarketState_rt) (simp add: ms_input_def)
  have "EMA200 (OutRuntime (Step m inp)) = (if length (StCloses inp) < 24 then EMA200 (StRuntime inp)
      else EMA200 (rt_after inp)) \<and> EMA200History (OutRuntime (Step m inp)) =
      (if length (StCloses inp) < 24 then EMA200History (StRuntime inp) else EMA200History (rt_after inp))"
  proof (cases "length (StCloses inp) < 24")
    case False
    then have len: "24 \<le> length (StCloses inp)" by simp
    from regime_cases [of inp] show ?thesis
      by (elim disjE; simp add: Step_QUIET [OF len] Step_BEAR [OF len] Step_BULL [OF len] Let_def
          macro_frame macro_input_def micro_rt micro_input_def False)
  qed (simp add: Step_short)
  then show "EMA200 (OutRuntime (Step m inp)) = (if length (StCloses inp) < 24 then EMA200 (StRuntime inp)
      else next_ema200 (ms_input inp))"
    "EMA200History (OutRuntime (Step m inp)) = (if length (StCloses inp) < 24 then EMA200History (StRuntime inp)
      else push_history (EMA200History (StRuntime inp)) (next_ema200 (ms_input inp)))"
    unfolding rt by blast+
qed

definition full_emas :: "f64 list \<Rightarrow> f64 list" where
  "full_emas cs = map (\<lambda>k. EMA (take k cs) ema200Period) [24..<Suc (length cs)]"

lemma full_emas_snoc:
  "full_emas (cs @ [p]) = (if length cs < 23 then [] else full_emas cs @ [EMA (cs @ [p]) ema200Period])"
  by (auto simp: full_emas_def intro!: map_cong)

lemma bt_emas:
  defines "rt \<equiv> \<lambda>m cfg bars. b_runtime (foldl (bt_bar cfg (Step m)) (bt_start cfg) bars)"
  shows "EMA200 (rt m cfg bars) = (if length bars < 24 then 0 else EMA (ExtractCloses bars) ema200Period) \<and>
    EMA200History (rt m cfg bars) = last_n ema200HistMax (full_emas (ExtractCloses bars))"
proof (induction bars rule: rev_induct)
  case Nil
  then show ?case
    by (simp add: rt_def bt_start_def zero_runtime_def full_emas_def last_n_def ExtractCloses_def)
next
  case (snoc b bars)
  let ?s = "foldl (bt_bar cfg (Step m)) (bt_start cfg) bars"
  let ?inp = "bt_input cfg (bt_pre cfg b ?s)" and ?cs = "ExtractCloses bars"
  have len: "length ?cs = length bars" by (simp add: ExtractCloses_def)
  have cl: "StCloses ?inp = ?cs @ [Close b]"
    by (simp add: bt_seen bt_start_def ExtractCloses_def)
  have rt0: "StRuntime ?inp = rt m cfg bars" by (simp add: rt_def)
  have ms: "MsCloses (ms_input ?inp) = ?cs @ [Close b]" "MsPrice (ms_input ?inp) = Close b"
    "MsRT (ms_input ?inp) = rt m cfg bars" using cl rt0 by (simp_all add: ms_input_def)
  have e: "next_ema200 (ms_input ?inp) = EMA (?cs @ [Close b]) ema200Period"
    if l: "\<not> length bars < 23"
  proof (cases "length bars < 24")
    case True
    then show ?thesis using snoc.IH ms by (simp add: next_ema200_def feq_0_zero)
  next
    case False
    then show ?thesis using next_ema200_full [of "ms_input ?inp" ?cs] snoc.IH ms by simp
  qed
  have eq: "ExtractCloses (bars @ [b]) = ?cs @ [Close b]" by (simp add: ExtractCloses_def)
  have step: "rt m cfg (bars @ [b]) = OutRuntime (Step m ?inp)" by (simp add: rt_def bt_bar_runtime)
  show ?case
  proof (cases "length bars < 23")
    case True
    then show ?thesis using snoc.IH cl rt0
      by (simp add: step Step_ema eq full_emas_snoc len) (simp add: full_emas_def len)
  next
    case False
    then show ?thesis using snoc.IH cl rt0 e [OF False]
      by (simp add: step Step_ema eq full_emas_snoc len push_history_def last_n_snoc)
  qed
qed

section \<open>A bullish warm-up sets the stop-loss\<close>

lemma bt_hit_mono:
  "StopLossHit (b_runtime s) \<Longrightarrow> StopLossHit (b_runtime (foldl (bt_bar cfg (Step m)) s bars))"
proof (induction bars arbitrary: s)
  case Nil
  then show ?case by simp
next
  case (Cons b bars)
  have "StopLossHit (b_runtime (bt_bar cfg (Step m) s b))"
    unfolding bt_bar_runtime using Cons.prems by (intro StopLossHit_mono) simp
  with Cons.IH show ?case by simp
qed

definition capital_ok :: "Config \<Rightarrow> bool" where
  "capital_ok cfg \<longleftrightarrow> f_fin (InitialCapital (CfSpawnPoint cfg)) \<and> 0 < InitialCapital (CfSpawnPoint cfg)"

lemma warm_bull_hit:
  fixes m :: libm
  assumes "\<forall>c \<in> set (warm @ [b]). sint (OpenTime c) < sint (CfEvalStartMs cfg)" "23 \<le> length warm"
    and "capital_ok cfg" "legal_chromosome (CfChromosome cfg)" "f_fin (Close b)" "0 < f_val (Close b)"
  defines "s \<equiv> foldl (bt_bar cfg (Step m)) (bt_start cfg) warm"
  assumes "regime (warm_input cfg s b) = ''BULL''"
  shows "StopLossHit (b_runtime (bt_bar cfg (Step m) s b))"
proof -
  have ev: "\<not> b_inEval (bt_start cfg)" by (simp add: bt_start_def)
  have s: "s = (bt_start cfg)\<lparr>b_seen := b_seen (bt_start cfg) @ warm, b_runtime := b_runtime s\<rparr>"
    unfolding s_def using assms(1) by (intro bt_warm [OF ev]) simp
  have cl: "StCloses (warm_input cfg s b) = ExtractCloses warm @ [Close b]"
    by (simp add: s_def bt_seen bt_start_def ExtractCloses_def)
  have pf: "StPortfolio (warm_input cfg s b) = b_portfolio (bt_start cfg)" by (subst s) simp
  have un: "unfunded (StPortfolio (warm_input cfg s b))"
    unfolding pf using assms(3) by (simp add: unfunded_def bt_start_def capital_ok_def)
  have "StopLossHit (OutRuntime (Step m (warm_input cfg s b)))"
    using assms(2,4-6) cl un assms(8)
    by (intro Step_unfunded_bull) (simp_all add: ExtractCloses_def)
  moreover have "\<not> b_inEval s" by (subst s) (simp add: ev)
  ultimately show ?thesis using assms(1) by (simp add: bt_bar_warm)
qed

section \<open>Properties\<close>

text \<open>C40. A run ticks through the bars with the averages of the whole series: after every prefix of
  at least 24 bars the EMA200 the strategy carries is, bit for bit, the average of all closes so
  far, and its history holds the last eleven of these averages; before that it is untouched.\<close>

theorem backtest_ema:
  "EMA200 (b_runtime (foldl (bt_bar cfg (Step m)) (bt_start cfg) bars)) =
    (if length bars < 24 then 0 else EMA (ExtractCloses bars) ema200Period) \<and>
   EMA200History (b_runtime (foldl (bt_bar cfg (Step m)) (bt_start cfg) bars)) =
    last_n ema200HistMax (full_emas (ExtractCloses bars))"
  by (rule bt_emas)

text \<open>The warm-up leaves the account alone: as long as every bar is before the evaluation start,
  whatever the strategy returns, the portfolio stays the initial one without funds, no value is
  sampled and no flow is recorded, and a run of such bars alone has zero metrics.\<close>

theorem warmup_untouched:
  assumes "\<forall>b \<in> set bars. sint (OpenTime b) < sint (CfEvalStartMs cfg)"
  shows "b_portfolio (foldl (bt_bar cfg step) (bt_start cfg) bars) = b_portfolio (bt_start cfg) \<and>
    b_navCurve (foldl (bt_bar cfg step) (bt_start cfg) bars) = [] \<and>
    b_flows (foldl (bt_bar cfg step) (bt_start cfg) bars) = [] \<and>
    RunBacktest (cfg\<lparr>CfBars := bars\<rparr>) step = zero_metrics"
proof -
  have ev: "\<not> b_inEval (bt_start c)" for c by (simp add: bt_start_def)
  have w: "b_portfolio (foldl (bt_bar c step) (bt_start c) bars) = b_portfolio (bt_start c) \<and>
      b_navCurve (foldl (bt_bar c step) (bt_start c) bars) = [] \<and>
      b_flows (foldl (bt_bar c step) (bt_start c) bars) = []"
    if "\<forall>b \<in> set bars. sint (OpenTime b) < sint (CfEvalStartMs c)" for c
    by (subst (1 2 3) bt_warm [OF ev that]) (simp add: bt_start_def)
  from w [of cfg] w [of "cfg\<lparr>CfBars := bars\<rparr>"] assms show ?thesis
    by (simp add: RunBacktest_def bt_loop_def Let_def)
qed

text \<open>C38. The strategy steps through the warm-up with an account that has an initial value but no
  funds, so its return is minus one: a single bullish warm-up bar sets the stop-loss, and no step
  of the rest of the run, evaluation included, sells.\<close>

theorem warmup_bull_mutes_sells:
  assumes "\<forall>c \<in> set (warm @ [b]). sint (OpenTime c) < sint (CfEvalStartMs cfg)" "23 \<le> length warm"
    and "capital_ok cfg" "legal_chromosome (CfChromosome cfg)" "f_fin (Close b)" "0 < f_val (Close b)"
    and "regime (warm_input cfg (foldl (bt_bar cfg (Step m)) (bt_start cfg) warm) b) = ''BULL''"
    and "i \<in> set (Intents (Step m (bt_input cfg (bt_pre cfg c
      (foldl (bt_bar cfg (Step m)) (bt_start cfg) (warm @ b # rest))))))"
  shows "Action i \<noteq> ''SELL''"
proof -
  have "StopLossHit (b_runtime (foldl (bt_bar cfg (Step m)) (bt_start cfg) (warm @ b # rest)))"
    using warm_bull_hit [OF assms(1-7)] by (simp add: bt_hit_mono)
  then show ?thesis using assms(8) by (intro Step_hit_no_sell) simp_all
qed

definition bt_bar_at :: "i64 \<Rightarrow> f64 \<Rightarrow> Bar" where
  "bt_bar_at t p = \<lparr>OpenTime = t, Open = p, High = p, Low = p, Close = p, Volume = 0\<rparr>"

definition bt_config :: Config where
  "bt_config = \<lparr>CfBars = [], CfEvalStartMs = 1000, CfChromosome = DefaultSeedChromosome,
     CfSpawnPoint = zero_spawn\<lparr>InitialCapital := lit 100 1\<rparr>, CfLotStep = 0, CfLotMin = 0, CfTakerFee = 0\<rparr>"

theorem warmup_untouched_witness:
  "RunBacktest (bt_config\<lparr>CfBars := [bt_bar_at 5 1]\<rparr>) (Step step_libm) = zero_metrics"
  using warmup_untouched [of "[bt_bar_at 5 1]" bt_config "Step step_libm"]
  by (simp add: bt_bar_at_def bt_config_def)

text \<open>Twenty-four bars at one and a twenty-fifth at two are bullish.\<close>

lemma ema_ones: "EMA (replicate (Suc n) 1) ema200Period = 1"
proof -
  have one: "ema_alpha ema200Period * 1 + (1 - ema_alpha ema200Period) * 1 = 1" by code_simp
  have "ema_loop (ema_alpha ema200Period) 1 (replicate n 1) = 1" by (induction n) (simp_all add: one)
  then show ?thesis by (simp add: EMA_def ema200Period_def)
qed

lemma bull_after_ones:
  "regime (warm_input bt_config (foldl (bt_bar bt_config (Step m)) (bt_start bt_config)
     (replicate 24 (bt_bar_at 5 1))) (bt_bar_at 6 (lit 2 1))) = ''BULL''"
proof -
  let ?bars = "replicate 24 (bt_bar_at 5 1)"
  let ?s = "foldl (bt_bar bt_config (Step m)) (bt_start bt_config) ?bars"
  let ?inp = "ms_input (warm_input bt_config ?s (bt_bar_at 6 (lit 2 1)))"
  have ones: "ExtractCloses ?bars = replicate 24 1" by (simp add: ExtractCloses_def bt_bar_at_def)
  have e1: "EMA (replicate 24 1) ema200Period = 1" using ema_ones [of 23] by (simp add: numeral_eq_Suc)
  have "full_emas (replicate 24 1) = [EMA (replicate 24 1) ema200Period]" by (simp add: full_emas_def)
  then have rt: "EMA200 (b_runtime ?s) = 1" "EMA200History (b_runtime ?s) = [1]"
    using bt_emas [where m = m and cfg = bt_config and bars = ?bars] by (simp_all add: ones e1 last_n_def ema200HistMax_def)
  have p: "MsPrice ?inp = lit 2 1" and r: "MsRT ?inp = b_runtime ?s"
    by (simp_all add: ms_input_def bt_bar_at_def bt_seen bt_start_def ExtractCloses_def)
  have "\<not> feq 1 0" by code_simp
  then have n: "next_ema200 ?inp = UpdateEMA 1 (lit 2 1) ema200Period" by (simp add: next_ema200_def r rt p)
  have hl: "MsHighs ?inp = replicate 24 1 @ [lit 2 1]" "MsLows ?inp = replicate 24 1 @ [lit 2 1]"
    by (simp_all add: ms_input_def bt_input_def bt_bar_at_def bt_seen bt_start_def ExtractHighs_def ExtractLows_def)
  have q: "\<not> sigma24h (replicate 24 1 @ [lit 2 1]) (replicate 24 1 @ [lit 2 1]) < quietSigmaThresh" by code_simp
  have g: "UpdateEMA 1 (lit 2 1) ema200Period < lit 2 1" by code_simp
  have sl: "0 < ema200Slope (push_history [1] (UpdateEMA 1 (lit 2 1) ema200Period))" by code_simp
  show ?thesis
    unfolding regime_def State_BULL n p r rt hl using q g sl by blast
qed

theorem warmup_bull_mutes_sells_witness:
  "''SELL'' \<notin> Action ` set (Intents (Step step_libm (bt_input bt_config (bt_pre bt_config (bt_bar_at 7 1)
      (foldl (bt_bar bt_config (Step step_libm)) (bt_start bt_config)
        (replicate 24 (bt_bar_at 5 1) @ bt_bar_at 6 (lit 2 1) # []))))))"
proof -
  let ?is = "Intents (Step step_libm (bt_input bt_config (bt_pre bt_config (bt_bar_at 7 1)
      (foldl (bt_bar bt_config (Step step_libm)) (bt_start bt_config)
        (replicate 24 (bt_bar_at 5 1) @ bt_bar_at 6 (lit 2 1) # [])))))"
  have t: "\<forall>c \<in> set (replicate 24 (bt_bar_at 5 1) @ [bt_bar_at 6 (lit 2 1)]).
      sint (OpenTime c) < sint (CfEvalStartMs bt_config)" by (auto simp: bt_bar_at_def bt_config_def)
  have c: "capital_ok bt_config" "legal_chromosome (CfChromosome bt_config)"
    using legal_DefaultSeed by (simp_all add: capital_ok_def bt_config_def f_less_val f_fin_not(1))
  show ?thesis
  proof (rule not_in_image)
    fix i
    assume i: "i \<in> set ?is"
    show "Action i \<noteq> ''SELL''"
      by (rule warmup_bull_mutes_sells [OF t _ c _ _ bull_after_ones i]) (simp_all add: bt_bar_at_def)
  qed
qed

end
