(* ===== verification/Execution.thy ===== *)
theory Execution
  imports Backtest
begin

text \<open>
  What the orders of the simulated account cost and keep: lemmas on \<open>applyIntent\<close> and
  \<open>snapToStep\<close> of \<open>internal/adapters/backtest/adapter.go\<close>, and the run of a strategy
  that meets the contract of the locale \<open>strategy\<close>, proved in that locale for every step.
\<close>

section \<open>Truncation and lots\<close>

lemma fin_of_R:
  assumes "\<not> f_nan z" "f_val z = R v" "0 \<le> v" "v \<le> 2 powi 1000"
  shows "f_fin z" "0 \<le> f_val z"
proof -
  have e: "R (2 powi 1000) = 2 powi 1000"
  proof -
    have "(2::rat) powi 1000 = of_int (2 ^ 52) * 2 powi 948" by (simp add: p2_nat)
    moreover have "R (of_int (2 ^ 52) * 2 powi 948) = of_int (2 ^ 52) * 2 powi 948" by (rule R_dyadic) simp_all
    ultimately show ?thesis by (simp only:)
  qed
  have "f_val z \<le> 2 powi 1000" unfolding assms(2) using R_mono [OF assms(4)] unfolding e .
  also have "\<dots> < f_lim" unfolding f_lim_def p2_less_iff by simp
  finally have "f_val z < f_lim" .
  moreover show ge: "0 \<le> f_val z" unfolding assms(2) using assms(3) by (rule R_nonneg)
  ultimately show "f_fin z" using assms(1) by (simp add: f_fin_iff)
qed

lemma f_trunc_val:
  assumes "f_fin x" "0 \<le> f_val x" "f_val x < 2 ^ 63"
  shows "f_val (f_of_i64 (f_trunc x)) = of_int \<lfloor>f_val x\<rfloor>" "f_fin (f_of_i64 (f_trunc x))"
proof -
  let ?t = "\<lfloor>f_val x\<rfloor>"
  have sx: "f_val x \<noteq> 0 \<Longrightarrow> \<not> f_sign x"
    using assms mag_nonneg [of "f_bits x"] f_bits_range [of x] by (auto simp: f_val_def)
  have t: "0 \<le> ?t" "?t < 2 ^ 63" using assms by (simp_all add: floor_less_iff)
  have "(if f_sign x then - \<lfloor>\<bar>f_val x\<bar>\<rfloor> else \<lfloor>\<bar>f_val x\<bar>\<rfloor>) = ?t"
    using sx assms(2) by (cases "f_val x = 0") auto
  then have "f_trunc x = word_of_int ?t"
    using t f_fin_not [OF assms(1)] by (simp add: f_trunc_def Let_def)
  moreover have "sint (word_of_int ?t :: i64) = ?t" using t by (intro sint64_of_int) simp_all
  ultimately have i: "f_of_i64 (f_trunc x) = f_of_int ?t" by (simp add: f_of_i64_def)
  have "f_val (f_of_int ?t) = of_int ?t \<and> f_fin (f_of_int ?t)"
  proof (cases "?t < 2 ^ 53")
    case True
    then show ?thesis using t(1) by (intro f_of_int) simp
  next
    case False
    then have "of_int (2 ^ 53) \<le> f_val x" by (simp only: le_floor_iff not_less)
    then have "2 powi 52 \<le> \<bar>f_val x\<bar>" by (simp add: p2_nat)
    then obtain k where k: "f_val x = of_int k" by (rule f_val_integer)
    then have "?t = k" by simp
    moreover have "R (of_int k) = of_int k" using R_f_val [OF f_fin_not(1) [OF assms(1)]] k by simp
    ultimately show ?thesis
      using k assms(1) by (simp add: f_of_int_def f_val_rnd f_fin_iff)
  qed
  then show "f_val (f_of_i64 (f_trunc x)) = of_int ?t" "f_fin (f_of_i64 (f_trunc x))" unfolding i by auto
qed

text \<open>A lot size at which a quantity can be cut: the number of lots fits an \<open>int64\<close>.\<close>

definition lot_ok :: "f64 \<Rightarrow> f64 \<Rightarrow> bool" where
  "lot_ok qty step \<longleftrightarrow> f_fin qty \<and> 0 \<le> f_val qty \<and>
     (step \<le> 0 \<or> f_fin step \<and> 0 < f_val step \<and> f_val qty / f_val step \<le> 2 ^ 62 \<and> f_val step \<le> 2 powi 900)"

lemma R_2_62: "R (2 ^ 62) = 2 ^ 62"
proof -
  have "(2::rat) ^ 62 = of_int 1 * 2 powi 62" by (simp add: p2_nat)
  moreover have "R (of_int 1 * 2 powi 62) = of_int 1 * 2 powi 62" by (rule R_dyadic) simp_all
  ultimately show ?thesis by (simp only:)
qed

lemma snap_lots:
  assumes "lot_ok qty step" "\<not> step \<le> 0"
  obtains n where "n = \<lfloor>R (f_val qty / f_val step)\<rfloor>" "0 \<le> n" "f_val (snapToStep qty step) = R (of_int n * f_val step)"
    "f_fin (snapToStep qty step)" "0 \<le> f_val (snapToStep qty step)"
proof -
  have q: "f_fin qty" "0 \<le> f_val qty" and s: "f_fin step" "0 < f_val step" "f_val step \<le> 2 powi 900"
    and r: "f_val qty / f_val step \<le> 2 ^ 62" using assms by (auto simp: lot_ok_def)
  have d: "f_val (qty / step) = R (f_val qty / f_val step)" "\<not> f_nan (qty / step)"
    using q s by (simp_all add: f_val_div f_nan_div)
  have d0: "0 \<le> f_val qty / f_val step" using q s by simp
  have "(2::rat) ^ 62 \<le> 2 powi 1000"
  proof -
    have "(2::rat) ^ 62 = 2 powi 62" by (simp add: p2_nat)
    also have "\<dots> \<le> 2 powi 1000" by (rule p2_mono) simp
    finally show ?thesis .
  qed
  then have df: "f_fin (qty / step)" "0 \<le> f_val (qty / step)"
    using fin_of_R [OF d(2,1) d0] r by (simp_all del: power_int_numeral)
  have "R (f_val qty / f_val step) \<le> 2 ^ 62" using R_mono [OF r] unfolding R_2_62 .
  then have dl: "f_val (qty / step) \<le> 2 ^ 62" unfolding d(1) .
  then have "f_val (qty / step) < 2 ^ 63" by simp
  note t = f_trunc_val [OF df this]
  let ?n = "\<lfloor>f_val (qty / step)\<rfloor>"
  have n0: "0 \<le> ?n" using df by simp
  have sn: "snapToStep qty step = f_of_i64 (f_trunc (qty / step)) * step" using assms(2) by (simp add: snapToStep_def)
  have v: "f_val (snapToStep qty step) = R (of_int ?n * f_val step)" "\<not> f_nan (snapToStep qty step)"
    unfolding sn using t s by (simp_all add: f_val_mul f_nan_mul)
  have "of_int ?n \<le> f_val (qty / step)" by simp
  then have "of_int ?n * f_val step \<le> 2 ^ 62 * 2 powi 900"
    using dl s n0 by (intro mult_mono) (auto intro: order_trans simp del: power_int_numeral)
  also have "\<dots> = 2 powi 962" by (simp add: p2_nat)
  also have "\<dots> \<le> 2 powi 1000" by (rule p2_mono) simp
  finally have "of_int ?n * f_val step \<le> 2 powi 1000" .
  from fin_of_R [OF v(2,1) _ this] n0 s have "f_fin (snapToStep qty step)" "0 \<le> f_val (snapToStep qty step)" by simp_all
  with v n0 show ?thesis by (intro that [of ?n]) (simp_all add: d(1))
qed

lemma snap_nonneg:
  assumes "lot_ok qty step"
  shows "f_fin (snapToStep qty step)" "0 \<le> f_val (snapToStep qty step)"
proof -
  have "f_fin (snapToStep qty step) \<and> 0 \<le> f_val (snapToStep qty step)"
  proof (cases "step \<le> 0")
    case True
    then show ?thesis using assms by (simp add: lot_ok_def snapToStep_def)
  next
    case False
    from snap_lots [OF assms this] show ?thesis by metis
  qed
  then show "f_fin (snapToStep qty step)" "0 \<le> f_val (snapToStep qty step)" by blast+
qed

section \<open>A buy costs at most its amount\<close>

text \<open>Ranges in which no product or quotient of a buy over- or underflows. The fee makes up for the
  six roundings.\<close>

definition mid :: "rat \<Rightarrow> bool" where
  "mid x \<longleftrightarrow> 2 powi (- 200) \<le> x \<and> x \<le> 2 powi 200"

definition buy_ok :: "f64 \<Rightarrow> f64 \<Rightarrow> f64 \<Rightarrow> f64 \<Rightarrow> bool" where
  "buy_ok spend price fee step \<longleftrightarrow> f_fin spend \<and> mid (f_val spend) \<and> f_fin price \<and> mid (f_val price) \<and>
     f_fin fee \<and> 2 powi (- 40) \<le> f_val fee \<and> f_val fee \<le> 1 / 2 \<and>
     (step \<le> 0 \<or> f_fin step \<and> mid (f_val step) \<and> f_val spend / f_val price / f_val step \<le> 2 powi 61)"

abbreviation ulp1 :: rat where "ulp1 \<equiv> 1 + 2 powi (- 53)"

lemma R_up: "2 powi (- 1022) \<le> x \<Longrightarrow> x \<le> b \<Longrightarrow> R x \<le> b * ulp1"
  by (rule order_trans [OF R_upper mult_right_mono]) auto

lemma R_p2: "- 1000 \<le> k \<Longrightarrow> k \<le> 900 \<Longrightarrow> R (2 powi k) = 2 powi k"
  using R_dyadic [of 1 k] by simp

lemma R_ge_p2: "2 powi k \<le> x \<Longrightarrow> - 1000 \<le> k \<Longrightarrow> k \<le> 900 \<Longrightarrow> 2 powi k \<le> R x"
  using R_mono [of "2 powi k" x] R_p2 [of k] by simp

lemma R_le_p2: "x \<le> 2 powi k \<Longrightarrow> - 1000 \<le> k \<Longrightarrow> k \<le> 900 \<Longrightarrow> R x \<le> 2 powi k"
  using R_mono [of x "2 powi k"] R_p2 [of k] by simp

lemma p2_prod_ge: "2 powi i \<le> x \<Longrightarrow> 2 powi j \<le> y \<Longrightarrow> 2 powi (i + j) \<le> x * (y :: rat)"
  unfolding p2_add by (intro mult_mono) (auto intro: order_trans [OF p2_nonneg])

lemma p2_prod_le: "x \<le> 2 powi i \<Longrightarrow> y \<le> 2 powi j \<Longrightarrow> 0 \<le> x \<Longrightarrow> 0 \<le> y \<Longrightarrow> x * (y :: rat) \<le> 2 powi (i + j)"
  unfolding p2_add by (intro mult_mono) auto

lemma p2_quot_ge: "2 powi i \<le> x \<Longrightarrow> y \<le> 2 powi j \<Longrightarrow> 0 < y \<Longrightarrow> 2 powi (i - j) \<le> x / (y :: rat)"
proof -
  assume a: "2 powi i \<le> x" "y \<le> 2 powi j" "0 < y"
  have "2 powi (i - j) * y \<le> 2 powi (i - j) * (2::rat) powi j" using a by (intro mult_left_mono) auto
  also have "\<dots> = 2 powi i" by (simp flip: p2_add)
  finally have "2 powi (i - j) * y \<le> x" using a by linarith
  then show ?thesis using a by (simp add: pos_le_divide_eq)
qed

lemma p2_quot_le: "x \<le> 2 powi i \<Longrightarrow> 2 powi j \<le> y \<Longrightarrow> 0 \<le> x \<Longrightarrow> x / (y :: rat) \<le> 2 powi (i - j)"
proof -
  assume a: "x \<le> 2 powi i" "2 powi j \<le> y" "0 \<le> x"
  have y: "0 < y" using a p2_pos [of j] by linarith
  have "x \<le> 2 powi (i - j) * 2 powi j" using a by (simp flip: p2_add)
  also have "\<dots> \<le> 2 powi (i - j) * y" using a by (intro mult_left_mono) auto
  finally show ?thesis using y by (simp add: pos_divide_le_eq)
qed

lemma p2_trans: "2 powi i \<le> x \<Longrightarrow> j \<le> i \<Longrightarrow> 2 powi j \<le> (x :: rat)"
  using p2_mono [of j i] by linarith

lemma p2_trans': "x \<le> 2 powi i \<Longrightarrow> i \<le> j \<Longrightarrow> (x :: rat) \<le> 2 powi j"
  using p2_mono [of i j] by linarith

lemma cube_law: "(x * e) * (y * e) * e = x * y * e ^ 3" for x y e :: rat
  by (simp add: power3_eq_cube algebra_simps)

lemma six_law: "0 < p \<Longrightarrow> (s / p * f * e ^ 3) * (p * e ^ 3) = s * (f * e ^ 6)" for s p f e :: rat
  by (simp add: power3_eq_cube numeral_eq_Suc)

text \<open>Six roundings cost less than the smallest fee.\<close>

lemma ulp1_6: "ulp1 ^ 6 * (1 - 2 powi (- 40)) \<le> 1"
  by (simp add: power_int_minus power_divide)

text \<open>The quantity of a buy before it is cut to lots: at most the amount less the fee, over the
  price, up to three roundings.\<close>

lemma buy_qty:
  assumes "buy_ok spend price fee step"
  defines "q \<equiv> spend / price * (1 - fee)"
  shows "f_fin q" "2 powi (- 402) \<le> f_val q"
    "f_val q \<le> f_val spend / f_val price * (1 - f_val fee) * ulp1 ^ 3" "f_val q \<le> 2 powi 401"
    "f_val q \<le> f_val spend / f_val price * 2"
proof -
  have s: "f_fin spend" "2 powi (- 200) \<le> f_val spend" "f_val spend \<le> 2 powi 200"
    and p: "f_fin price" "2 powi (- 200) \<le> f_val price" "f_val price \<le> 2 powi 200"
    and f: "f_fin fee" "2 powi (- 40) \<le> f_val fee" "f_val fee \<le> 1 / 2"
    using assms(1) by (auto simp: buy_ok_def mid_def)
  have p0: "0 < f_val price" using p p2_pos [of "- 200"] by linarith
  have s0: "0 < f_val spend" using s p2_pos [of "- 200"] by linarith
  let ?a = "f_val spend / f_val price"
  have a: "2 powi (- 400) \<le> ?a" "?a \<le> 2 powi 400"
    using p2_quot_ge [OF s(2) p(3) p0] p2_quot_le [OF s(3) p(2)] s0 by (simp_all del: power_int_numeral)
  have v0: "f_val (spend / price) = R ?a" "\<not> f_nan (spend / price)"
    using s p p0 by (simp_all add: f_val_div f_nan_div)
  have b0: "2 powi (- 400) \<le> R ?a" "R ?a \<le> 2 powi 400"
    using a R_ge_p2 [of "- 400"] R_le_p2 [of _ 400] by (simp_all del: power_int_numeral)
  have f0: "f_fin (spend / price)"
    by (rule fin_of_R(1) [OF v0(2,1)]) (use a s0 p0 p2_trans' [OF a(2), of 1000] in simp_all)
  have v1: "f_val (1 - fee) = R (1 - f_val fee)" "\<not> f_nan (1 - fee)" using f by (simp_all add: f_val_sub f_nan_sub)
  have h: "(2::rat) powi (- 1) = 1 / 2" by (simp add: power_int_minus)
  have b1: "1 / 2 \<le> R (1 - f_val fee)" "R (1 - f_val fee) \<le> 1"
    using R_ge_p2 [of "- 1" "1 - f_val fee"] R_le_p2 [of "1 - f_val fee" 0] f p2_pos [of "- 40"]
    unfolding h by (auto simp del: p2_pos)
  have f1: "f_fin (1 - fee)"
    by (rule f_fin_between [OF v1(2) f_nan_0(2) f_fin_1]) (use b1 v1 in simp_all)
  have v2: "f_val q = R (R ?a * R (1 - f_val fee))" "\<not> f_nan q"
    unfolding q_def using f0 f1 v0 v1 by (simp_all add: f_val_mul f_nan_mul)
  have ge: "2 powi (- 401) \<le> R ?a * R (1 - f_val fee)"
    using p2_prod_ge [OF b0(1), of "- 1" "R (1 - f_val fee)"] b1(1) unfolding h by (simp del: power_int_numeral)
  have le: "R ?a * R (1 - f_val fee) \<le> 2 powi 400"
    using p2_prod_le [OF b0(2), of "R (1 - f_val fee)" 0] b1 b0(1) p2_pos [of "- 400"] order_trans [OF p2_nonneg b0(1)]
    by (simp del: power_int_numeral)
  show "f_fin q"
    by (rule fin_of_R(1) [OF v2(2,1) order_trans [OF p2_nonneg ge] p2_trans' [OF le]]) simp
  show "2 powi (- 402) \<le> f_val q" unfolding v2(1) by (rule p2_trans [OF R_ge_p2 [OF ge]]) simp_all
  show "f_val q \<le> 2 powi 401" unfolding v2(1) by (rule p2_trans' [OF R_le_p2 [OF le]]) simp_all
  have t: "2 powi (- 1022) \<le> R ?a * R (1 - f_val fee)" by (rule p2_trans [OF ge]) simp
  have u1: "R ?a \<le> ?a * ulp1" by (rule R_upper [OF p2_trans [OF a(1)]]) simp
  have "2 powi (- 1022) \<le> 1 - f_val fee" using f(3) p2_mono [of "- 1022" "- 1"] unfolding h by linarith
  then have u2: "R (1 - f_val fee) \<le> (1 - f_val fee) * ulp1" by (rule R_upper)
  have "R ?a * R (1 - f_val fee) \<le> (?a * ulp1) * ((1 - f_val fee) * ulp1)"
    using u1 u2 b1 s0 p0 by (intro mult_mono) (auto intro!: mult_nonneg_nonneg add_nonneg_nonneg)
  then have "f_val q \<le> (?a * ulp1) * ((1 - f_val fee) * ulp1) * ulp1"
    unfolding v2(1) by (rule R_up [OF t])
  also have "\<dots> = ?a * (1 - f_val fee) * ulp1 ^ 3" by (rule cube_law)
  finally show "f_val q \<le> ?a * (1 - f_val fee) * ulp1 ^ 3" .
  have "R ?a * R (1 - f_val fee) \<le> (?a * ulp1) * 1"
    using u1 b1 s0 p0 by (intro mult_mono) (auto intro!: mult_nonneg_nonneg add_nonneg_nonneg)
  then have "f_val q \<le> (?a * ulp1) * 1 * ulp1" unfolding v2(1) by (rule R_up [OF t])
  also have "\<dots> \<le> ?a * 2"
  proof -
    have "ulp1 * ulp1 \<le> (1 + 1 / 1000) * (1 + 1 / 1000)" using u_bounds by (intro mult_mono) auto
    then have "ulp1 * ulp1 \<le> 2" by simp
    then have "?a * (ulp1 * ulp1) \<le> ?a * 2" using s0 p0 by (intro mult_left_mono) auto
    then show ?thesis by (simp add: mult.assoc)
  qed
  finally show "f_val q \<le> ?a * 2" .
qed

text \<open>The price of the lots bought: two roundings for the lots and one for the product.\<close>

lemma lots_cost:
  assumes q: "f_fin q" "2 powi (- 402) \<le> f_val q" "f_val q \<le> 2 powi 401"
    and p: "f_fin price" "mid (f_val price)"
    and step: "step \<le> 0 \<or> f_fin step \<and> mid (f_val step) \<and> f_val q / f_val step \<le> 2 ^ 62"
  shows "f_fin (snapToStep q step * price)" "0 \<le> f_val (snapToStep q step * price)"
    "f_val (snapToStep q step * price) \<le> f_val q * f_val price * ulp1 ^ 3"
    "f_fin (snapToStep q step)" "0 \<le> f_val (snapToStep q step)"
proof -
  have pb: "2 powi (- 200) \<le> f_val price" "f_val price \<le> 2 powi 200" "0 < f_val price"
    using p(2) p2_pos [of "- 200"] by (auto simp: mid_def simp del: p2_pos intro: less_le_trans [OF p2_pos])
  have q0: "0 < f_val q" using q(2) p2_pos [of "- 402"] by linarith
  have u: "1 \<le> ulp1" "0 \<le> ulp1" using u_bounds by simp_all
  have lot: "lot_ok q step"
    using step q(1) q0 p2_pos [of "- 200"] p2_trans' [of "f_val step" 200 900]
    by (auto simp: lot_ok_def mid_def simp del: p2_pos power_int_numeral intro: less_le_trans [OF p2_pos])
  note sn = snap_nonneg [OF lot]
  show "f_fin (snapToStep q step)" "0 \<le> f_val (snapToStep q step)" using sn .
  have core: "f_val (snapToStep q step) \<le> f_val q * ulp1 ^ 2 \<and>
      (f_val (snapToStep q step) = 0 \<or> 2 powi (- 402) \<le> f_val (snapToStep q step))"
  proof (cases "step \<le> 0")
    case True
    have "f_val q * 1 \<le> f_val q * ulp1 ^ 2" using q0 u by (intro mult_left_mono one_le_power) auto
    then show ?thesis using True q(2) by (simp add: snapToStep_def)
  next
    case False
    then have w: "2 powi (- 200) \<le> f_val step" "f_val step \<le> 2 powi 200" "f_val q / f_val step \<le> 2 ^ 62"
      using step by (auto simp: mid_def)
    have w0: "0 < f_val step" using w(1) p2_pos [of "- 200"] by linarith
    obtain n where n: "n = \<lfloor>R (f_val q / f_val step)\<rfloor>" "0 \<le> n"
      "f_val (snapToStep q step) = R (of_int n * f_val step)"
      using lot False by (rule snap_lots)
    show ?thesis
    proof (cases "n = 0")
      case True
      then show ?thesis using n q0 u by simp
    next
      case False
      then have n1: "(1::rat) \<le> of_int n" using n(2) by simp
      have qw: "2 powi (- 602) \<le> f_val q / f_val step" using p2_quot_ge [OF q(2) w(2) w0] by simp
      have "of_int n \<le> R (f_val q / f_val step)" unfolding n(1) by simp
      also have "\<dots> \<le> f_val q / f_val step * ulp1" by (rule R_upper [OF p2_trans [OF qw]]) simp
      finally have "of_int n * f_val step \<le> f_val q / f_val step * ulp1 * f_val step"
        using w0 by (intro mult_right_mono) auto
      also have "\<dots> = f_val q * ulp1" using w0 by simp
      finally have nw: "of_int n * f_val step \<le> f_val q * ulp1" .
      have "1 * f_val step \<le> of_int n * f_val step" using n1 w0 by (intro mult_right_mono) auto
      then have lw: "2 powi (- 200) \<le> of_int n * f_val step" using w(1) by linarith
      have "2 powi (- 1022) \<le> of_int n * f_val step" by (rule p2_trans [OF lw]) simp
      from R_up [OF this nw] have "f_val (snapToStep q step) \<le> f_val q * ulp1 ^ 2"
        unfolding n(3) power2_eq_square by (simp only: mult.assoc)
      moreover have "2 powi (- 402) \<le> f_val (snapToStep q step)"
        unfolding n(3) by (rule p2_trans [OF R_ge_p2 [OF lw]]) simp_all
      ultimately show ?thesis by blast
    qed
  qed
  have v: "f_val (snapToStep q step * price) = R (f_val (snapToStep q step) * f_val price)"
    "\<not> f_nan (snapToStep q step * price)" using sn p(1) by (simp_all add: f_val_mul f_nan_mul)
  have "ulp1 ^ 2 \<le> 2 powi 1"
  proof -
    have "ulp1 ^ 2 \<le> (1 + 1 / 1000) ^ 2" using u_bounds by (intro power_mono) auto
    also have "\<dots> \<le> 2 powi 1" by (simp add: power2_eq_square)
    finally show ?thesis .
  qed
  then have "f_val q * ulp1 ^ 2 \<le> 2 powi (401 + 1)"
    using q(3) q0 u by (intro p2_prod_le) auto
  then have "f_val (snapToStep q step) * f_val price \<le> 2 powi (402 + 200)"
    using core sn pb by (intro p2_prod_le) auto
  then have ub: "f_val (snapToStep q step) * f_val price \<le> 2 powi 1000" by (rule p2_trans') simp
  have nn: "0 \<le> f_val (snapToStep q step) * f_val price" using sn pb by simp
  show "f_fin (snapToStep q step * price)" "0 \<le> f_val (snapToStep q step * price)"
    using fin_of_R [OF v(2,1) nn ub] .
  have le: "f_val (snapToStep q step) * f_val price \<le> f_val q * ulp1 ^ 2 * f_val price"
    using core pb by (intro mult_right_mono) auto
  show "f_val (snapToStep q step * price) \<le> f_val q * f_val price * ulp1 ^ 3"
  proof (cases "f_val (snapToStep q step) = 0")
    case True
    then show ?thesis using q0 pb u by (simp add: v(1))
  next
    case False
    then have "2 powi (- 402 + - 200) \<le> f_val (snapToStep q step) * f_val price"
      using core pb by (intro p2_prod_ge) auto
    then have "2 powi (- 1022) \<le> f_val (snapToStep q step) * f_val price" by (rule p2_trans) simp
    from R_up [OF this le] show ?thesis
      unfolding v(1) by (simp only: power3_eq_cube power2_eq_square mult.assoc mult.commute mult.left_commute)
  qed
qed

lemma buy_cost:
  assumes ok: "buy_ok spend price fee step"
  defines "qty \<equiv> snapToStep (spend / price * (1 - fee)) step"
  shows "f_fin (qty * price)" "0 \<le> f_val (qty * price)" "f_val (qty * price) \<le> f_val spend"
    "f_fin qty" "0 \<le> f_val qty"
proof -
  let ?q = "spend / price * (1 - fee)"
  have s: "2 powi (- 200) \<le> f_val spend" and p: "f_fin price" "mid (f_val price)" "2 powi (- 200) \<le> f_val price"
    and f: "2 powi (- 40) \<le> f_val fee" "f_val fee \<le> 1 / 2"
    and st: "step \<le> 0 \<or> f_fin step \<and> mid (f_val step) \<and> f_val spend / f_val price / f_val step \<le> 2 powi 61"
    using ok by (auto simp: buy_ok_def mid_def)
  have p0: "0 < f_val price" using p(3) p2_pos [of "- 200"] by linarith
  have s0: "0 < f_val spend" using s p2_pos [of "- 200"] by linarith
  note b = buy_qty [OF ok]
  have lots: "step \<le> 0 \<or> f_fin step \<and> mid (f_val step) \<and> f_val ?q / f_val step \<le> 2 ^ 62"
  proof (cases "step \<le> 0")
    case False
    then have w: "f_fin step" "mid (f_val step)" "f_val spend / f_val price / f_val step \<le> 2 powi 61"
      using st by auto
    have w0: "0 < f_val step" using w(2) p2_pos [of "- 200"] unfolding mid_def by linarith
    have "f_val ?q / f_val step \<le> f_val spend / f_val price * 2 / f_val step"
      using b(5) w0 by (intro divide_right_mono) auto
    also have "\<dots> = f_val spend / f_val price / f_val step * 2" by simp
    also have "\<dots> \<le> 2 powi 61 * 2" using w(3) by (intro mult_right_mono) auto
    also have "\<dots> = 2 ^ 62" by (simp add: p2_nat)
    finally show ?thesis using w by blast
  qed simp
  note c = lots_cost [OF b(1,2,4) p(1,2) lots, folded qty_def]
  show "f_fin (qty * price)" "0 \<le> f_val (qty * price)" "f_fin qty" "0 \<le> f_val qty" using c by blast+
  let ?a = "f_val spend / f_val price"
  have "f_val (qty * price) \<le> f_val ?q * (f_val price * ulp1 ^ 3)" using c(3) by (simp only: mult.assoc)
  also have "\<dots> \<le> (?a * (1 - f_val fee) * ulp1 ^ 3) * (f_val price * ulp1 ^ 3)"
    using b(3) p0 u_bounds by (intro mult_right_mono mult_nonneg_nonneg) auto
  also have "\<dots> = f_val spend * ((1 - f_val fee) * ulp1 ^ 6)"
    using p0 by (simp only: six_law)
  also have "\<dots> \<le> f_val spend * 1"
  proof (rule mult_left_mono)
    have "(1 - f_val fee) * ulp1 ^ 6 \<le> (1 - 2 powi (- 40)) * ulp1 ^ 6"
      using f(1) u_bounds by (intro mult_right_mono) auto
    then show "(1 - f_val fee) * ulp1 ^ 6 \<le> 1" using ulp1_6 unfolding mult.commute [of _ "ulp1 ^ 6"] by (rule order_trans)
  qed (use s0 in simp)
  finally show "f_val (qty * price) \<le> f_val spend" by simp
qed

section \<open>The account never goes negative\<close>

lemma f_nonneg_cases: "0 \<le> x \<Longrightarrow> f_fin x \<and> 0 \<le> f_val x \<or> f_inf x \<and> \<not> f_sign x \<and> \<not> f_nan x"
  using f_nan_cases [of x] by (auto simp: less_eq_f64_def f_val_inf split: if_splits)

lemma f_nonneg_add: "0 \<le> x \<Longrightarrow> 0 \<le> y \<Longrightarrow> 0 \<le> x + (y :: f64)"
proof -
  assume a: "0 \<le> x" "0 \<le> y"
  have inf: "0 \<le> z" if "f_inf z" "\<not> f_sign z" "\<not> f_nan z" for z
    using that by (simp add: less_eq_f64_def f_val_inf)
  show ?thesis
  proof (cases "f_fin x \<and> f_fin y")
    case True
    then have "f_val (x + y) = R (f_val x + f_val y)" "\<not> f_nan (x + y)" by (simp_all add: f_val_add f_nan_add)
    moreover have "0 \<le> R (f_val x + f_val y)" using a by (intro R_nonneg) (auto dest!: f_leD)
    ultimately show ?thesis by (simp add: f_le_val)
  next
    case False
    then have "x + y = x \<or> x + y = y"
      using f_nonneg_cases [OF a(1)] f_nonneg_cases [OF a(2)]
      by (auto simp: plus_f64_def dest: f_fin_not)
    then show ?thesis using a by auto
  qed
qed

lemma f_nonneg_sub:
  assumes "0 \<le> x" "f_fin y" "0 \<le> f_val y" "y \<le> x"
  shows "0 \<le> x - y"
proof (cases "f_fin x")
  case True
  then show ?thesis
    using f_sub_part [OF True assms(2,3)] f_nan_sub [OF True assms(2)] assms(4) by (auto simp: f_le_val dest!: f_leD)
next
  case False
  then have "x - y = x"
    using f_nonneg_cases [OF assms(1)] f_fin_not [OF assms(2)]
    by (auto simp: minus_f64_def plus_f64_def)
  then show ?thesis using assms(1) by simp
qed

lemma f_nonneg_mul:
  assumes "0 \<le> x" "f_fin y" "0 < f_val y"
  shows "0 \<le> x * y"
proof (cases "f_fin x")
  case True
  then have "f_val (x * y) = R (f_val x * f_val y)" "\<not> f_nan (x * y)" using assms by (simp_all add: f_val_mul f_nan_mul)
  moreover have "0 \<le> R (f_val x * f_val y)" using assms by (intro R_nonneg) (auto dest!: f_leD)
  ultimately show ?thesis by (simp add: f_le_val)
next
  case False
  then have x: "f_inf x" "\<not> f_sign x" "\<not> f_nan x" using f_nonneg_cases [OF assms(1)] by auto
  have "\<not> f_sign y" using assms(3) mag_nonneg [of "f_bits y"] f_bits_range [of y] by (auto simp: f_val_def split: if_splits)
  then have "x * y = f_Inf False"
    using x assms f_fin_not [OF assms(2)] f_val_fin_inf [OF x(1)] by (simp add: times_f64_def Let_def)
  then show ?thesis by (simp add: less_eq_f64_def)
qed

lemma clamp0_le:
  assumes "0 \<le> t" "f_fin r" "0 \<le> f_val r"
  shows "clamp0 (t - r) \<le> t"
proof (cases "f_fin t")
  case True
  have v: "f_val (t - r) = R (f_val t - f_val r)" "\<not> f_nan (t - r)" using True assms by (simp_all add: f_val_sub f_nan_sub)
  have "f_val (t - r) \<le> f_val t" unfolding v using assms f_fin_not(1) [OF True] by (intro R_le_val) auto
  then show ?thesis using assms(1) v f_fin_not(1) [OF True] by (simp add: clamp0_def f_le_val)
next
  case False
  then have "t - r = t"
    using f_nonneg_cases [OF assms(1)] f_fin_not [OF assms(2)] by (auto simp: minus_f64_def plus_f64_def)
  then show ?thesis using assms(1) by (auto simp: clamp0_def less_eq_f64_def)
qed

definition wallet_ok :: "PortfolioState \<Rightarrow> bool" where
  "wallet_ok p \<longleftrightarrow> 0 \<le> TotalUSDT p \<and> 0 \<le> DeadStack p \<and> 0 \<le> FloatStack p \<and>
     f_fin (ReserveFloor p) \<and> 0 \<le> f_val (ReserveFloor p) \<and>
     SpendableUSDT p = clamp0 (TotalUSDT p - ReserveFloor p)"

text \<open>An order whose numbers stay in range at a price.\<close>

definition order_ok :: "TradeIntent \<Rightarrow> f64 \<Rightarrow> f64 \<Rightarrow> f64 \<Rightarrow> bool" where
  "order_ok i price step fee \<longleftrightarrow> f_fin price \<and> 0 < f_val price \<and> f_fin (1 - fee) \<and> 0 < f_val (1 - fee) \<and>
     (Action i = ''BUY'' \<longrightarrow> buy_ok (AmountUSDT i) price fee step) \<and>
     (Action i = ''SELL'' \<longrightarrow> lot_ok (QtyAsset i) step) \<and>
     (Action i = ''RELEASE'' \<longrightarrow> f_fin (QtyAsset i))"

lemma apply_buy_wallet:
  assumes "wallet_ok p" "buy_ok (AmountUSDT i) price fee step"
  shows "wallet_ok (apply_buy i p price step lm fee)"
proof (cases "AmountUSDT i \<le> 0 \<or> SpendableUSDT p < AmountUSDT i")
  case False
  let ?q = "snapToStep (AmountUSDT i / price * (1 - fee)) step"
  note c = buy_cost [OF assms(2)]
  have w: "0 \<le> TotalUSDT p" "f_fin (ReserveFloor p)" "0 \<le> f_val (ReserveFloor p)"
    "SpendableUSDT p = clamp0 (TotalUSDT p - ReserveFloor p)" using assms(1) by (auto simp: wallet_ok_def)
  have a: "f_fin (AmountUSDT i)" using assms(2) by (simp add: buy_ok_def)
  have sp: "SpendableUSDT p \<le> TotalUSDT p" unfolding w(4) by (rule clamp0_le [OF w(1-3)])
  then have "AmountUSDT i \<le> SpendableUSDT p"
    using False f_fin_not(1) [OF a] by (auto simp: less_f64_def less_eq_f64_def)
  then have "?q * price \<le> TotalUSDT p"
    using sp c(3) f_fin_not(1) [OF c(1)] by (auto simp: less_eq_f64_def)
  then have t: "0 \<le> TotalUSDT p - ?q * price" by (intro f_nonneg_sub [OF w(1) c(1,2)])
  have q: "0 \<le> ?q" using c(4,5) f_fin_not(1) by (simp add: f_le_val)
  show ?thesis
    using assms(1) False t f_nonneg_add [OF _ q, of "DeadStack p"] f_nonneg_add [OF _ q, of "FloatStack p"]
    by (auto simp: apply_buy_def Let_def wallet_ok_def)
qed (use assms(1) in \<open>auto simp: apply_buy_def\<close>)

lemma apply_sell_wallet:
  assumes "wallet_ok p" "lot_ok (QtyAsset i) step"
    and p: "f_fin price" "0 < f_val price" "f_fin (1 - fee)" "0 < f_val (1 - fee)"
  shows "wallet_ok (apply_sell i p price step lm fee)"
proof (cases "FloatStack p < snapToStep (QtyAsset i) step")
  case False
  let ?q = "snapToStep (QtyAsset i) step"
  note q = snap_nonneg [OF assms(2)]
  have w: "0 \<le> TotalUSDT p" "0 \<le> FloatStack p" using assms(1) by (auto simp: wallet_ok_def)
  have q0: "0 \<le> ?q" using q f_fin_not(1) by (simp add: f_le_val)
  have "?q \<le> FloatStack p" using False q0 w(2) by (auto simp: less_f64_def less_eq_f64_def)
  then have "0 \<le> FloatStack p - ?q" by (intro f_nonneg_sub [OF w(2) q])
  moreover have "0 \<le> TotalUSDT p + ?q * price * (1 - fee)"
    using f_nonneg_mul [OF f_nonneg_mul [OF q0 p(1,2)] p(3,4)] by (rule f_nonneg_add [OF w(1)])
  ultimately show ?thesis using assms(1) by (simp add: apply_sell_def Let_def wallet_ok_def)
qed (use assms(1) in \<open>auto simp: apply_sell_def Let_def\<close>)

lemma apply_release_wallet:
  assumes "wallet_ok p" "f_fin (QtyAsset i)"
  shows "wallet_ok (apply_release i p)"
proof (cases "QtyAsset i \<le> 0 \<or> DeadStack p < QtyAsset i")
  case False
  let ?q = "QtyAsset i"
  have w: "0 \<le> DeadStack p" "0 \<le> FloatStack p" using assms(1) by (auto simp: wallet_ok_def)
  have q: "0 \<le> ?q" "0 \<le> f_val ?q" "?q \<le> DeadStack p"
    using False f_fin_not(1) [OF assms(2)] w by (auto simp: less_f64_def less_eq_f64_def)
  then show ?thesis
    using assms(1) False f_nonneg_sub [OF w(1) assms(2) q(2,3)] f_nonneg_add [OF w(2) q(1)]
    by (simp add: apply_release_def Let_def wallet_ok_def)
qed (use assms(1) in \<open>auto simp: apply_release_def Let_def\<close>)

lemma applyIntent_wallet:
  "wallet_ok p \<Longrightarrow> order_ok i price step fee \<Longrightarrow> wallet_ok (applyIntent i p price step lm fee)"
  by (simp add: applyIntent_def order_ok_def apply_buy_wallet apply_sell_wallet apply_release_wallet)

lemma execute_wallet:
  "wallet_ok p \<Longrightarrow> \<forall>i \<in> set is. order_ok i price step fee \<Longrightarrow>
    wallet_ok (foldl (\<lambda>p i. applyIntent i p price step lm fee) p is)"
  by (induction "is" arbitrary: p) (simp_all add: applyIntent_wallet)

section \<open>Runs of a strategy that meets its contract\<close>

text \<open>Prices, fee, lot size and balances in ranges where orders within them stay in range.\<close>

definition market_ok :: "Config \<Rightarrow> f64 \<Rightarrow> PortfolioState \<Rightarrow> bool" where
  "market_ok cfg close p \<longleftrightarrow> f_fin close \<and> mid (f_val close) \<and>
     f_fin (CfTakerFee cfg) \<and> 2 powi (- 40) \<le> f_val (CfTakerFee cfg) \<and> f_val (CfTakerFee cfg) \<le> 1 / 2 \<and>
     f_fin (SpendableUSDT p) \<and> f_val (SpendableUSDT p) \<le> 2 powi 200 \<and> f_fin (DeadStack p) \<and> f_fin (FloatStack p) \<and>
     (CfLotStep cfg \<le> 0 \<or> f_fin (CfLotStep cfg) \<and> mid (f_val (CfLotStep cfg)) \<and>
        f_val (SpendableUSDT p) / f_val close / f_val (CfLotStep cfg) \<le> 2 powi 61 \<and>
        f_val (FloatStack p) / f_val (CfLotStep cfg) \<le> 2 ^ 62)"

lemma one_minus_fee:
  assumes "f_fin fee" "0 \<le> f_val fee" "f_val fee \<le> 1 / 2"
  shows "f_fin (1 - fee)" "0 < f_val (1 - fee)"
proof -
  have v: "f_val (1 - fee) = R (1 - f_val fee)" "\<not> f_nan (1 - fee)" using assms by (simp_all add: f_val_sub f_nan_sub)
  have "f_val (lit 5 10) \<le> 1 - f_val fee" using assms by simp
  then have lo: "1 / 2 \<le> f_val (1 - fee)" unfolding v(1) using R_ge_val [OF half(3)] by fastforce
  have hi: "f_val (1 - fee) \<le> 1" unfolding v(1) using R_le_val [of 1 "1 - f_val fee"] assms by simp
  show "0 < f_val (1 - fee)" using lo by simp
  show "f_fin (1 - fee)" by (rule f_fin_between [OF v(2) f_nan_0(2) f_fin_1]) (use lo hi in simp_all)
qed

lemma intent_order_ok:
  assumes "intent_ok p i" "market_ok cfg close p"
  shows "order_ok i close (CfLotStep cfg) (CfTakerFee cfg)"
proof -
  let ?w = "CfLotStep cfg"
  have c: "f_fin close" "mid (f_val close)" and f: "f_fin (CfTakerFee cfg)" "2 powi (- 40) \<le> f_val (CfTakerFee cfg)"
      "f_val (CfTakerFee cfg) \<le> 1 / 2"
    and sp: "f_fin (SpendableUSDT p)" "f_val (SpendableUSDT p) \<le> 2 powi 200"
    and fl: "f_fin (FloatStack p)" and dd: "f_fin (DeadStack p)"
    and w: "?w \<le> 0 \<or> f_fin ?w \<and> mid (f_val ?w) \<and> f_val (SpendableUSDT p) / f_val close / f_val ?w \<le> 2 powi 61 \<and>
      f_val (FloatStack p) / f_val ?w \<le> 2 ^ 62"
    using assms(2) unfolding market_ok_def by blast+
  have pos: "0 < x" if "mid x" for x using that p2_pos [of "- 200"] unfolding mid_def by linarith
  have f0: "0 \<le> f_val (CfTakerFee cfg)" using f(2) p2_pos [of "- 40"] by linarith
  have between: "f_fin x \<and> 0 \<le> f_val x \<and> f_val x \<le> f_val y" if "0 < x" "x \<le> y" "f_fin y" for x y
    using that f_fin_between [OF _ f_nan_0(2) that(3), of x] by (auto dest!: f_lessD f_leD)
  have buy: "buy_ok (AmountUSDT i) close (CfTakerFee cfg) ?w" if "Action i = ''BUY''"
  proof -
    have a: "macroMinOrderUSDT \<le> AmountUSDT i" "AmountUSDT i \<le> SpendableUSDT p"
      using assms(1) that by (auto simp: intent_ok_def)
    have m: "1 < macroMinOrderUSDT" by code_simp
    have "0 < AmountUSDT i" "1 \<le> f_val (AmountUSDT i)" using m a(1) by (auto simp: less_f64_def less_eq_f64_def)
    with between [OF _ a(2) sp(1)] have b: "f_fin (AmountUSDT i)" "1 \<le> f_val (AmountUSDT i)"
      "f_val (AmountUSDT i) \<le> f_val (SpendableUSDT p)" by auto
    have "mid (f_val (AmountUSDT i))"
      using b sp(2) p2_mono [of "- 200" 0] unfolding mid_def by (auto simp del: p2_le_iff)
    moreover have "f_val (AmountUSDT i) / f_val close / f_val ?w \<le> 2 powi 61"
      if "mid (f_val ?w)" "f_val (SpendableUSDT p) / f_val close / f_val ?w \<le> 2 powi 61"
      using that(2) b(3) pos [OF c(2)] pos [OF that(1)]
      by (intro order_trans [OF _ that(2)] divide_right_mono) auto
    ultimately show ?thesis using b(1) c f w unfolding buy_ok_def by blast
  qed
  have sell: "lot_ok (QtyAsset i) ?w" if "Action i = ''SELL''"
  proof -
    have q: "0 < QtyAsset i" "QtyAsset i \<le> FloatStack p" using assms(1) that by (auto simp: intent_ok_def)
    note b = between [OF q fl]
    have "f_val (QtyAsset i) / f_val ?w \<le> 2 ^ 62" if "mid (f_val ?w)" "f_val (FloatStack p) / f_val ?w \<le> 2 ^ 62"
      using b pos [OF that(1)] by (intro order_trans [OF _ that(2)] divide_right_mono) auto
    moreover have "f_val ?w \<le> 2 powi 900" if "mid (f_val ?w)" 
      by (rule p2_trans' [of _ 200]) (use that in \<open>simp_all add: mid_def\<close>)
    ultimately show ?thesis using b w pos unfolding lot_ok_def by blast
  qed
  have rel: "f_fin (QtyAsset i)" if "Action i = ''RELEASE''"
  proof -
    have "0 < QtyAsset i" "QtyAsset i \<le> DeadStack p" using assms(1) that by (auto simp: intent_ok_def)
    from between [OF this dd] show ?thesis by blast
  qed
  show ?thesis
    unfolding order_ok_def
    by (intro conjI impI c(1) pos [OF c(2)] one_minus_fee [OF f(1) f0 f(3)] buy sell rel)
qed

text \<open>The inputs a run meets in the evaluation are valid for the strategy and the market.\<close>

primrec run_ok :: "(StrategyInput \<Rightarrow> bool) \<Rightarrow> Config \<Rightarrow> (StrategyInput \<Rightarrow> StrategyOutput) \<Rightarrow> bt_state \<Rightarrow>
    Bar list \<Rightarrow> bool" where
  "run_ok ok cfg step s [] = True"
| "run_ok ok cfg step s (b # bs) =
     ((b_inEval (bt_pre cfg b s) \<and> 0 < Close b \<longrightarrow>
        ok (bt_input cfg (bt_pre cfg b s)) \<and> market_ok cfg (Close b) (b_portfolio (bt_pre cfg b s))) \<and>
      run_ok ok cfg step (bt_bar cfg step s b) bs)"

definition books_ok :: "bt_state \<Rightarrow> bool" where
  "books_ok s \<longleftrightarrow> wallet_ok (b_portfolio s) \<and> 0 \<le> ColdSealedStack (b_portfolio s) \<and> (\<forall>v \<in> set (b_navCurve s). 0 \<le> v)"

lemma fund_wallet: "wallet_ok p \<Longrightarrow> 0 \<le> usdt \<Longrightarrow> wallet_ok (fund p usdt)"
  by (simp add: wallet_ok_def fund_def)

lemma pre_books:
  assumes "books_ok s" "0 \<le> InitialCapital (CfSpawnPoint cfg)"
  shows "books_ok (bt_pre cfg b s)"
proof -
  have "wallet_ok (b_portfolio (bt_enter cfg b (s\<lparr>b_seen := b_seen s @ [b]\<rparr>)))"
    using assms fund_wallet by (simp add: bt_enter_def books_ok_def)
  moreover have "0 \<le> TotalUSDT q + MonthlyInject (CfSpawnPoint cfg)"
    if "wallet_ok q" "0 < MonthlyInject (CfSpawnPoint cfg)" for q
    using that by (intro f_nonneg_add) (auto simp: wallet_ok_def less_f64_def less_eq_f64_def)
  ultimately have "wallet_ok (b_portfolio (bt_pre cfg b s))"
    unfolding bt_pre_def bt_inject_def Let_def using fund_wallet by simp
  then show ?thesis using assms by (simp add: books_ok_def)
qed

context strategy
begin

lemma step_orders_ok:
  "ok inp \<Longrightarrow> market_ok cfg close (StPortfolio inp) \<Longrightarrow> i \<in> set (Intents (step inp)) \<Longrightarrow>
    order_ok i close (CfLotStep cfg) (CfTakerFee cfg)"
  using intents_ok intent_order_ok by blast

lemma bar_books:
  assumes "books_ok s" "0 \<le> InitialCapital (CfSpawnPoint cfg)"
    and "b_inEval (bt_pre cfg b s) \<and> 0 < Close b \<longrightarrow>
      ok (bt_input cfg (bt_pre cfg b s)) \<and> market_ok cfg (Close b) (b_portfolio (bt_pre cfg b s))"
  shows "books_ok (bt_bar cfg step s b)"
proof -
  let ?s = "bt_pre cfg b s" and ?out = "step (bt_input cfg (bt_pre cfg b s))"
  note pre = pre_books [OF assms(1,2), of b]
  show ?thesis
  proof (cases "b_inEval ?s \<and> 0 < Close b")
    case True
    then have okm: "ok (bt_input cfg ?s)" "market_ok cfg (Close b) (b_portfolio ?s)" using assms(3) by auto
    let ?p = "foldl (\<lambda>p i. applyIntent i p (Close b) (CfLotStep cfg) (CfLotMin cfg) (CfTakerFee cfg))
      (b_portfolio ?s) (Intents ?out)"
    have w: "wallet_ok ?p"
      using pre step_orders_ok [OF okm(1), of cfg "Close b"] okm(2)
      by (intro execute_wallet) (auto simp: books_ok_def)
    have cold: "0 \<le> ColdSealedStack ?p" using pre by (simp add: books_ok_def)
    have c: "f_fin (Close b)" "0 < f_val (Close b)"
      using okm(2) p2_pos [of "- 200"] by (auto simp: market_ok_def mid_def simp del: p2_pos)
    have "0 \<le> nav_sample ?p (Close b)"
      unfolding nav_sample_def Let_def using w cold c
      by (intro f_nonneg_add f_nonneg_mul) (auto simp: wallet_ok_def)
    then show ?thesis
      using True w cold pre by (simp add: bt_bar_pre bt_execute_def Let_def books_ok_def)
  next
    case False
    then have "bt_bar cfg step s b = ?s\<lparr>b_runtime := OutRuntime ?out\<rparr>"
      by (auto simp: bt_bar_pre bt_execute_def Let_def)
    then show ?thesis using pre by (simp add: books_ok_def)
  qed
qed

lemma run_books:
  "books_ok s \<Longrightarrow> 0 \<le> InitialCapital (CfSpawnPoint cfg) \<Longrightarrow> run_ok ok cfg step s bars \<Longrightarrow>
    books_ok (foldl (bt_bar cfg step) s bars)"
  by (induction bars arbitrary: s) (simp_all add: bar_books)

end

lemma start_books:
  assumes "f_fin (SpReserveFloor (CfSpawnPoint cfg))" "0 \<le> f_val (SpReserveFloor (CfSpawnPoint cfg))"
  shows "books_ok (bt_start cfg)"
proof -
  let ?r = "SpReserveFloor (CfSpawnPoint cfg)"
  have v: "f_val (0 - ?r) = R (0 - f_val ?r)" using assms by (simp add: f_val_sub)
  have n: "\<not> f_nan (0 - ?r)" using assms by (simp add: f_nan_sub)
  have "clamp0 (0 - ?r) = 0"
  proof (cases "f_val ?r = 0")
    case True
    have "0 - ?r = pack False 0"
      using True f_fin_not [OF assms(1)] f_fin_not [OF f_nan_0(2)] by (simp add: minus_f64_def plus_f64_def)
    then show ?thesis by (simp add: clamp0_def zero_f64_def)
  next
    case False
    then have "0 < f_val ?r" using assms(2) by simp
    then have "R (- f_val ?r) = - f_val ?r" using R_f_val [of "- ?r"] f_fin_not(1) [OF assms(1)] by simp
    then have "f_val (0 - ?r) < 0" using v \<open>0 < f_val ?r\<close> by simp
    then show ?thesis using n by (simp add: clamp0_def f_less_val)
  qed
  then show ?thesis
    using assms by (simp add: books_ok_def wallet_ok_def bt_start_def f_le_val)
qed

section \<open>Properties\<close>

text \<open>A simulated buy never costs more than its amount: the USDT balance falls by at most the
  amount (one rounding), the bought quantity is added to the dead stack, and the float stack, the
  sealed coins, the reserve floor and the initial value stay as they were. The six roundings of
  the price are covered by any fee of at least \<open>2^-40\<close>.\<close>

theorem buy_within_amount:
  fixes lotMin :: f64
  assumes "Action i = ''BUY''" "LotType i = ''DEAD_STACK''" "AmountUSDT i \<le> SpendableUSDT p"
    and "buy_ok (AmountUSDT i) price fee step" "f_fin (TotalUSDT p)" "0 \<le> DeadStack p" "f_fin (DeadStack p)"
  defines "p' \<equiv> applyIntent i p price step lotMin fee"
  shows "R (f_val (TotalUSDT p) - f_val (AmountUSDT i)) \<le> f_val (TotalUSDT p') \<and>
    f_val (TotalUSDT p') \<le> f_val (TotalUSDT p) \<and> f_val (DeadStack p) \<le> f_val (DeadStack p') \<and>
    FloatStack p' = FloatStack p \<and> ColdSealedStack p' = ColdSealedStack p \<and>
    ReserveFloor p' = ReserveFloor p \<and> NAVInitial p' = NAVInitial p"
proof -
  let ?q = "snapToStep (AmountUSDT i / price * (1 - fee)) step"
  note c = buy_cost [OF assms(4)]
  have a0: "0 \<le> f_val (AmountUSDT i)"
    using assms(4) p2_nonneg [of "- 200"] by (auto simp: buy_ok_def mid_def simp del: p2_nonneg)
  have tv: "f_val (TotalUSDT p - ?q * price) = R (f_val (TotalUSDT p) - f_val (?q * price))"
    using assms(5) c(1) by (rule f_val_sub)
  have t: "R (f_val (TotalUSDT p) - f_val (AmountUSDT i)) \<le> f_val (TotalUSDT p - ?q * price)"
    unfolding tv using c(3) by (intro R_mono) simp
  have t': "f_val (TotalUSDT p - ?q * price) \<le> f_val (TotalUSDT p)"
    unfolding tv using c(2) f_fin_not(1) [OF assms(5)] by (intro R_le_val) auto
  have t0: "R (f_val (TotalUSDT p) - f_val (AmountUSDT i)) \<le> f_val (TotalUSDT p)"
    using a0 f_fin_not(1) [OF assms(5)] by (intro R_le_val) auto
  have d: "f_val (DeadStack p) \<le> f_val (DeadStack p + ?q)"
    using c(4,5) assms(7) f_fin_not(1) [OF assms(7)] by (simp add: f_val_add R_ge_val)
  show ?thesis
    using assms(1,2) t t' t0 d by (simp add: p'_def applyIntent_def apply_buy_def Let_def)
qed

theorem buy_within_amount_witness:
  "f_val (DeadStack release_example) \<le> f_val (DeadStack (applyIntent (macro_buy (lit 50 1)) release_example 1 0 0 (lit 5 10)))"
proof -
  have "mid 50" "mid 1"
    using p2_mono [of "- 200" 0] p2_mono [of 6 200] p2_mono [of 0 200] unfolding mid_def
    by (simp_all del: p2_le_iff)
  moreover have "(2::rat) powi (- 40) \<le> 1 / 2" using p2_mono [of "- 40" "- 1"] by (simp add: power_int_minus)
  ultimately have b: "buy_ok (lit 50 1) 1 (lit 5 10) 0"
    using lit_int [of 50] by (simp add: buy_ok_def f_le_val del: power_int_numeral)
  have "lit 50 1 \<le> lit 100 1" "0 \<le> lit 2 1" by (code_simp, code_simp)
  then show ?thesis
    using buy_within_amount [of "macro_buy (lit 50 1)" release_example 1 "lit 5 10" 0 0] b
    by (simp add: macro_buy_def release_example_def f_le_val)
qed


definition run_config :: Config where
  "run_config = bt_config\<lparr>CfEvalStartMs := 0, CfTakerFee := lit 5 10\<rparr>"


text \<open>The fee of a buy is never charged: with a fee of one half, 100 USDT at price 1 buy 50 coins for
  50 USDT, and the value of the account is what it was.\<close>

lemma buy_fee_not_charged:
  "let p = applyIntent (macro_buy (lit 50 1)) release_example 1 0 0 (lit 5 10) in
   TotalUSDT p = lit 75 1 \<and> DeadStack p = lit 27 1 \<and> nav_of p 1 = nav_of release_example 1"
  by code_simp

end
