(* ===== verification/Evolvable.thy ===== *)
theory Evolvable
  imports Execution
begin

text \<open>
  \<open>internal/saas/ga/evolvable.go\<close> and \<open>sigmoid_dca_evolvable.go\<close>: the interface
  between the genetic algorithm and a strategy, and its implementation for the sigmoid DCA
  strategy. The interface is a record of its verbs, and the laws the engine relies on are the
  locale \<open>evolvable\<close>, interpreted on the implementation at the end.

  A random generator is a source of draws and the number of draws made so far. A context is the
  predicate that says at which check it is found cancelled. The JSON codec is a parameter: the
  decoder returns what it leaves in the value together with its success.
\<close>

section \<open>Random draws\<close>

record rand_src =
  r_float :: "nat \<Rightarrow> f64"
  r_norm :: "nat \<Rightarrow> f64"
  r_intn :: "nat \<Rightarrow> nat \<Rightarrow> nat"

type_synonym rng = nat

text \<open>The documented ranges: \<open>Float64\<close> in the half-open unit interval, \<open>NormFloat64\<close>
  finite, \<open>Intn n\<close> below \<open>n\<close>.\<close>

definition rand_ok :: "rand_src \<Rightarrow> bool" where
  "rand_ok src \<longleftrightarrow> (\<forall>k. f_fin (r_float src k) \<and> 0 \<le> r_float src k \<and> r_float src k < 1) \<and>
     (\<forall>k. f_fin (r_norm src k)) \<and> (\<forall>k n. 0 < n \<longrightarrow> r_intn src k n < n)"

section \<open>The interface\<close>

record DCABaseline =
  DbFinalEquity :: f64
  DbTotalInjected :: f64
  DbMaxDrawdown :: f64
  DbROI :: f64

record EvaluablePlan =
  PlPair :: string
  PlTemplateName :: string
  PlSpawn :: SpawnPoint
  PlLotStep :: f64
  PlLotMin :: f64
  PlWindows :: "CrucibleWindow list"
  PlDCABaselines :: "DCABaseline list"

record EpochResult =
  EpBestScore :: f64
  EpGenerations :: int
  EpChallengerID :: nat

record 'g EvolvableStrategy =
  ev_StrategyID :: string
  ev_Sample :: "rand_src \<Rightarrow> rng \<Rightarrow> 'g \<times> rng"
  ev_Mutate :: "rand_src \<Rightarrow> 'g \<Rightarrow> f64 \<Rightarrow> f64 \<Rightarrow> rng \<Rightarrow> 'g \<times> rng"
  ev_Crossover :: "rand_src \<Rightarrow> 'g \<Rightarrow> 'g \<Rightarrow> rng \<Rightarrow> 'g \<times> rng"
  ev_Fingerprint :: "'g \<Rightarrow> 64 word"
  ev_Evaluate :: "(nat \<Rightarrow> bool) \<Rightarrow> 'g \<Rightarrow> EvaluablePlan \<Rightarrow> f64 \<times> CrucibleResult list"
  ev_DecodeElite :: "string \<Rightarrow> 'g"
  ev_EncodeResult :: "'g \<Rightarrow> SpawnPoint option \<Rightarrow> string option"

section \<open>Sigmoid DCA: search operators\<close>

definition fatalScore :: f64 where "fatalScore = lit (- 99999) 1"
definition maxDDFatal :: f64 where "maxDDFatal = lit 88 100"
definition takerFee :: f64 where "takerFee = lit 1 1000"

definition Sample :: "rand_src \<Rightarrow> rng \<Rightarrow> Chromosome \<times> rng" where
  "Sample src rng =
     (ClampChromosome \<lparr>
        DCADropPct = DCADropPctMin + r_float src rng * (DCADropPctMax - DCADropPctMin),
        SigmoidSensitivity = SigmoidSensitivityMin +
          r_float src (rng + 1) * (SigmoidSensitivityMax - SigmoidSensitivityMin),
        StopLossThreshold = StopLossThresholdMin +
          r_float src (rng + 2) * (StopLossThresholdMax - StopLossThresholdMin)\<rparr>, rng + 3)"

definition geneSteps :: Chromosome where
  "geneSteps = \<lparr>DCADropPct = lit 1 100, SigmoidSensitivity = lit 50 100, StopLossThreshold = lit 1 100\<rparr>"

text \<open>One Bernoulli-gated field of a mutation.\<close>

definition mutate_field :: "rand_src \<Rightarrow> f64 \<Rightarrow> f64 \<Rightarrow> f64 \<Rightarrow> f64 \<Rightarrow> rng \<Rightarrow> f64 \<times> rng" where
  "mutate_field src prob scale step v rng =
     (if r_float src rng < prob then (v + r_norm src (rng + 1) * step * scale, rng + 2) else (v, rng + 1))"

definition Mutate :: "rand_src \<Rightarrow> Chromosome \<Rightarrow> f64 \<Rightarrow> f64 \<Rightarrow> rng \<Rightarrow> Chromosome \<times> rng" where
  "Mutate src c prob scale rng =
     (case mutate_field src prob scale (DCADropPct geneSteps) (DCADropPct c) rng of (d, rng) \<Rightarrow>
      case mutate_field src prob scale (SigmoidSensitivity geneSteps) (SigmoidSensitivity c) rng of (s, rng) \<Rightarrow>
      case mutate_field src prob scale (StopLossThreshold geneSteps) (StopLossThreshold c) rng of (t, rng) \<Rightarrow>
        (ClampChromosome \<lparr>DCADropPct = d, SigmoidSensitivity = s, StopLossThreshold = t\<rparr>, rng))"

definition Crossover :: "rand_src \<Rightarrow> Chromosome \<Rightarrow> Chromosome \<Rightarrow> rng \<Rightarrow> Chromosome \<times> rng" where
  "Crossover src c1 c2 rng = (let child = c1;
     child = (if r_float src rng < lit 5 10 then child\<lparr>DCADropPct := DCADropPct c2\<rparr> else child);
     child = (if r_float src (rng + 1) < lit 5 10 then child\<lparr>SigmoidSensitivity := SigmoidSensitivity c2\<rparr> else child);
     child = (if r_float src (rng + 2) < lit 5 10 then child\<lparr>StopLossThreshold := StopLossThreshold c2\<rparr> else child)
   in (ClampChromosome child, rng + 3))"

section \<open>Sigmoid DCA: fingerprint\<close>

definition le_bytes :: "64 word \<Rightarrow> 64 word list" where
  "le_bytes w = map (\<lambda>i. take_bit 8 (drop_bit (8 * i) w)) [0..<8]"

text \<open>FNV-1a: exclusive or with the byte, then multiplication by the prime.\<close>

definition fnv_byte :: "64 word \<Rightarrow> 64 word \<Rightarrow> 64 word" where
  "fnv_byte h b = xor h b * 1099511628211"

definition fnv64a :: "64 word list \<Rightarrow> 64 word" where
  "fnv64a bs = foldl fnv_byte 14695981039346656037 bs"

definition quantized :: "f64 \<Rightarrow> f64" where
  "quantized v = f_round (v * lit 1000000 1) / lit 1000000 1"

definition Fingerprint :: "Chromosome \<Rightarrow> 64 word" where
  "Fingerprint c = fnv64a (concat (map (\<lambda>v. le_bytes (Float64bits (quantized v)))
     [DCADropPct c, SigmoidSensitivity c, StopLossThreshold c]))"

section \<open>Sigmoid DCA: fitness\<close>

definition window_config :: "EvaluablePlan \<Rightarrow> Chromosome \<Rightarrow> CrucibleWindow \<Rightarrow> Config" where
  "window_config plan c w = \<lparr>CfBars = CwBars w, CfEvalStartMs = CwEvalStartMs w, CfChromosome = c,
     CfSpawnPoint = PlSpawn plan, CfLotStep = PlLotStep plan, CfLotMin = PlLotMin plan, CfTakerFee = takerFee\<rparr>"

definition window_result :: "Metrics \<Rightarrow> DCABaseline \<Rightarrow> CrucibleWindow \<Rightarrow> f64 \<Rightarrow> CrucibleResult" where
  "window_result m baseline w score = \<lparr>CrWindow = CwLabel w, CrScore = score, CrROI = MtROI m,
     CrMaxDD = MtMaxDrawdown m, CrAlpha = MtROI m - DbROI baseline\<rparr>"

definition slice_score :: "Metrics \<Rightarrow> DCABaseline \<Rightarrow> f64" where
  "slice_score m baseline = (let alpha = MtROI m - DbROI baseline;
     ddPenalty = lit 15 10 * f_max 0 (MtMaxDrawdown m - DbMaxDrawdown baseline) in alpha - ddPenalty)"

text \<open>The loop over the windows and their baselines; \<open>i\<close> is the index of the check of the
  context.\<close>

primrec eval_windows :: "(StrategyInput \<Rightarrow> StrategyOutput) \<Rightarrow> (nat \<Rightarrow> bool) \<Rightarrow> Chromosome \<Rightarrow> EvaluablePlan \<Rightarrow>
    (CrucibleWindow \<times> DCABaseline) list \<Rightarrow> nat \<Rightarrow> f64 \<Rightarrow> CrucibleResult list \<Rightarrow> f64 \<times> CrucibleResult list" where
  "eval_windows step cancelled c plan [] i scoreTotal results = (scoreTotal, results)"
| "eval_windows step cancelled c plan (wb # wbs) i scoreTotal results =
     (if cancelled i then (fatalScore, results)
      else case wb of (w, baseline) \<Rightarrow>
        let m = RunBacktest (window_config plan c w) step in
        if maxDDFatal \<le> MtMaxDrawdown m
        then (fatalScore, results @ [window_result m baseline w fatalScore])
        else let sliceScore = slice_score m baseline in
          eval_windows step cancelled c plan wbs (i + 1) (scoreTotal + CwWeight w * sliceScore)
            (results @ [window_result m baseline w sliceScore]))"

definition Evaluate :: "(StrategyInput \<Rightarrow> StrategyOutput) \<Rightarrow> (nat \<Rightarrow> bool) \<Rightarrow> Chromosome \<Rightarrow> EvaluablePlan \<Rightarrow>
    f64 \<times> CrucibleResult list" where
  "Evaluate step cancelled c plan =
     eval_windows step cancelled c plan (zip (PlWindows plan) (PlDCABaselines plan)) 0 0 []"

section \<open>Sigmoid DCA: codec\<close>

record json =
  j_unmarshal :: "string \<Rightarrow> paramPack \<times> bool"
  j_marshal :: "paramPack \<Rightarrow> string option"

definition DecodeElite :: "json \<Rightarrow> string \<Rightarrow> Chromosome" where
  "DecodeElite j raw = (if length raw = 0 then DefaultSeedChromosome
     else case j_unmarshal j raw of (pp, ok) \<Rightarrow>
       if \<not> ok then DefaultSeedChromosome else ClampChromosome (PpConfig pp))"

definition EncodeResult :: "json \<Rightarrow> Chromosome \<Rightarrow> SpawnPoint option \<Rightarrow> string option" where
  "EncodeResult j c spawn = (let pp = \<lparr>PpSpawnPoint = zero_spawn, PpConfig = c\<rparr>;
     pp = (case spawn of None \<Rightarrow> pp | Some sp \<Rightarrow> pp\<lparr>PpSpawnPoint := sp\<rparr>) in j_marshal j pp)"

definition DecodeSpawnFromParamPack :: "json \<Rightarrow> string \<Rightarrow> SpawnPoint" where
  "DecodeSpawnFromParamPack j raw = PpSpawnPoint (fst (j_unmarshal j raw))"

definition NewSigmoidDCAEvolvable :: "libm \<Rightarrow> json \<Rightarrow> Chromosome EvolvableStrategy" where
  "NewSigmoidDCAEvolvable m j = \<lparr>ev_StrategyID = ''sigmoid_dca_v1'', ev_Sample = Sample, ev_Mutate = Mutate,
     ev_Crossover = Crossover, ev_Fingerprint = Fingerprint, ev_Evaluate = Evaluate (Step m),
     ev_DecodeElite = DecodeElite j, ev_EncodeResult = EncodeResult j\<rparr>"

section \<open>The operators stay in the search space\<close>

lemma legal_fin:
  assumes "legal_chromosome c"
  shows "f_fin (DCADropPct c)" "f_fin (SigmoidSensitivity c)" "f_fin (StopLossThreshold c)"
proof -
  have b: "f_fin DCADropPctMin" "f_fin DCADropPctMax" "f_fin StopLossThresholdMin" "f_fin StopLossThresholdMax"
    by (code_simp, code_simp, code_simp, code_simp)
  show "f_fin (SigmoidSensitivity c)" using assms by (rule legal_sensitivity)
  show "f_fin (DCADropPct c)" "f_fin (StopLossThreshold c)"
    using assms f_fin_between [OF _ b(1,2), of "DCADropPct c"] f_fin_between [OF _ b(3,4), of "StopLossThreshold c"]
    by (auto simp: legal_chromosome_def dest: f_leD)
qed

lemma f_fin_part:
  assumes "f_fin x" "f_fin s" "0 \<le> f_val s" "f_val s \<le> 1"
  shows "f_fin (x * s)"
proof -
  have v: "f_val (x * s) = R (f_val x * f_val s)" "\<not> f_nan (x * s)" using assms by (simp_all add: f_val_mul f_nan_mul)
  have a: "\<bar>f_val x * f_val s\<bar> \<le> \<bar>f_val x\<bar>" using assms by (simp add: abs_mult mult_left_le)
  have "R (f_val x * f_val s) \<le> R \<bar>f_val x\<bar>" "R (- \<bar>f_val x\<bar>) \<le> R (f_val x * f_val s)"
    using a by (auto intro!: R_mono)
  moreover have "R \<bar>f_val x\<bar> = \<bar>f_val x\<bar>"
    using R_f_val [of x] R_minus [of "f_val x"] f_fin_not(1) [OF assms(1)] by (cases "0 \<le> f_val x") auto
  ultimately have "\<bar>f_val (x * s)\<bar> \<le> \<bar>f_val x\<bar>" using R_minus [of "\<bar>f_val x\<bar>"] unfolding v(1) by linarith
  then show ?thesis using assms(1) v(2) by (auto simp: f_fin_iff)
qed

lemma nan_free_add: "f_fin v \<Longrightarrow> \<not> f_nan y \<Longrightarrow> \<not> f_nan (v + y)"
  using f_nan_cases [of y] f_nan_add [of v y] by (auto simp: plus_f64_def dest: f_fin_not)

lemma mutated_nan_free:
  assumes "f_fin v" "f_fin n" "f_fin step" "0 \<le> f_val step" "f_val step \<le> 1" "f_fin scale"
  shows "\<not> f_nan (v + n * step * scale)"
  by (intro nan_free_add assms f_nan_mul f_fin_part)

lemma unit_fin:
  assumes "rand_ok src"
  shows "f_fin (r_float src k)" "0 \<le> f_val (r_float src k)" "f_val (r_float src k) \<le> 1"
proof -
  have "f_fin (r_float src k) \<and> 0 \<le> r_float src k \<and> r_float src k < 1" using assms by (simp add: rand_ok_def)
  then show "f_fin (r_float src k)" "0 \<le> f_val (r_float src k)" "f_val (r_float src k) \<le> 1"
    by (auto dest!: f_leD f_lessD)
qed

lemma sample_field:
  assumes "rand_ok src" "f_fin lo" "f_fin (hi - lo)" "0 \<le> f_val (hi - lo)"
  shows "\<not> f_nan (lo + r_float src k * (hi - lo))"
  by (intro nan_free_add assms f_fin_not(1) [OF f_scale(1)] unit_fin [OF assms(1)])

lemma bounds_fin:
  "f_fin DCADropPctMin" "f_fin (DCADropPctMax - DCADropPctMin)" "0 \<le> f_val (DCADropPctMax - DCADropPctMin)"
  "f_fin SigmoidSensitivityMin" "f_fin (SigmoidSensitivityMax - SigmoidSensitivityMin)"
  "0 \<le> f_val (SigmoidSensitivityMax - SigmoidSensitivityMin)"
  "f_fin StopLossThresholdMin" "f_fin (StopLossThresholdMax - StopLossThresholdMin)"
  "0 \<le> f_val (StopLossThresholdMax - StopLossThresholdMin)"
proof -
  have "f_fin DCADropPctMin \<and> f_fin (DCADropPctMax - DCADropPctMin) \<and> 0 \<le> DCADropPctMax - DCADropPctMin"
    "f_fin SigmoidSensitivityMin \<and> f_fin (SigmoidSensitivityMax - SigmoidSensitivityMin) \<and>
      0 \<le> SigmoidSensitivityMax - SigmoidSensitivityMin"
    "f_fin StopLossThresholdMin \<and> f_fin (StopLossThresholdMax - StopLossThresholdMin) \<and>
      0 \<le> StopLossThresholdMax - StopLossThresholdMin"
    by (code_simp, code_simp, code_simp)
  then show "f_fin DCADropPctMin" "f_fin (DCADropPctMax - DCADropPctMin)" "0 \<le> f_val (DCADropPctMax - DCADropPctMin)"
    "f_fin SigmoidSensitivityMin" "f_fin (SigmoidSensitivityMax - SigmoidSensitivityMin)"
    "0 \<le> f_val (SigmoidSensitivityMax - SigmoidSensitivityMin)"
    "f_fin StopLossThresholdMin" "f_fin (StopLossThresholdMax - StopLossThresholdMin)"
    "0 \<le> f_val (StopLossThresholdMax - StopLossThresholdMin)"
    by (auto dest: f_leD)
qed

lemma Sample_legal:
  assumes "rand_ok src"
  shows "legal_chromosome (fst (Sample src rng))"
  unfolding Sample_def fst_conv
  by (rule ClampChromosome_legal)
    (simp add: nan_free_def sample_field [OF assms] bounds_fin)

lemma steps_fin:
  "f_fin (DCADropPct geneSteps)" "0 \<le> f_val (DCADropPct geneSteps)" "f_val (DCADropPct geneSteps) \<le> 1"
  "f_fin (SigmoidSensitivity geneSteps)" "0 \<le> f_val (SigmoidSensitivity geneSteps)"
  "f_val (SigmoidSensitivity geneSteps) \<le> 1"
  "f_fin (StopLossThreshold geneSteps)" "0 \<le> f_val (StopLossThreshold geneSteps)"
  "f_val (StopLossThreshold geneSteps) \<le> 1"
proof -
  have "f_fin (lit 1 100) \<and> 0 \<le> lit 1 100 \<and> lit 1 100 \<le> 1" "f_fin (lit 50 100) \<and> 0 \<le> lit 50 100 \<and> lit 50 100 \<le> 1"
    by (code_simp, code_simp)
  then show "f_fin (DCADropPct geneSteps)" "0 \<le> f_val (DCADropPct geneSteps)" "f_val (DCADropPct geneSteps) \<le> 1"
    "f_fin (SigmoidSensitivity geneSteps)" "0 \<le> f_val (SigmoidSensitivity geneSteps)"
    "f_val (SigmoidSensitivity geneSteps) \<le> 1"
    "f_fin (StopLossThreshold geneSteps)" "0 \<le> f_val (StopLossThreshold geneSteps)"
    "f_val (StopLossThreshold geneSteps) \<le> 1"
    by (auto simp: geneSteps_def dest: f_leD)
qed

lemma mutate_field_nan_free:
  assumes "rand_ok src" "f_fin v" "f_fin step" "0 \<le> f_val step" "f_val step \<le> 1" "f_fin scale"
  shows "\<not> f_nan (fst (mutate_field src prob scale step v k))"
  using assms mutated_nan_free [OF assms(2) _ assms(3-6)] f_fin_not(1) [OF assms(2)]
  by (simp add: mutate_field_def rand_ok_def)

lemma Mutate_legal:
  assumes "rand_ok src" "legal_chromosome c" "f_fin scale"
  shows "legal_chromosome (fst (Mutate src c prob scale rng))"
proof -
  note n = mutate_field_nan_free [OF assms(1) _ _ _ _ assms(3), where prob = prob]
  show ?thesis
    unfolding Mutate_def split_beta fst_conv
    by (rule ClampChromosome_legal) (simp add: nan_free_def n legal_fin [OF assms(2)] steps_fin)
qed

text \<open>The child of legal parents takes each field from one of them.\<close>

lemma Crossover_fields:
  fixes src :: rand_src and rng :: rng
  assumes "legal_chromosome c1" "legal_chromosome c2"
  defines "child \<equiv> fst (Crossover src c1 c2 rng)"
  shows "legal_chromosome child" "DCADropPct child \<in> {DCADropPct c1, DCADropPct c2}"
    "SigmoidSensitivity child \<in> {SigmoidSensitivity c1, SigmoidSensitivity c2}"
    "StopLossThreshold child \<in> {StopLossThreshold c1, StopLossThreshold c2}"
proof -
  let ?d = "if r_float src rng < lit 5 10 then DCADropPct c2 else DCADropPct c1"
  let ?s = "if r_float src (rng + 1) < lit 5 10 then SigmoidSensitivity c2 else SigmoidSensitivity c1"
  let ?t = "if r_float src (rng + 2) < lit 5 10 then StopLossThreshold c2 else StopLossThreshold c1"
  let ?c = "c1\<lparr>DCADropPct := ?d, SigmoidSensitivity := ?s, StopLossThreshold := ?t\<rparr>"
  have legal: "legal_chromosome ?c" using assms(1,2) by (simp add: legal_chromosome_def)
  have "child = ClampChromosome ?c" unfolding child_def Crossover_def Let_def fst_conv by simp
  then have "child = ?c" using ClampChromosome_id [OF legal] by simp
  then show "legal_chromosome child" "DCADropPct child \<in> {DCADropPct c1, DCADropPct c2}"
    "SigmoidSensitivity child \<in> {SigmoidSensitivity c1, SigmoidSensitivity c2}"
    "StopLossThreshold child \<in> {StopLossThreshold c1, StopLossThreshold c2}"
    using legal by simp_all
qed

section \<open>The codec\<close>

text \<open>A pack JSON can carry: finite numbers and ASCII strings.\<close>

definition pack_plain :: "paramPack \<Rightarrow> bool" where
  "pack_plain pp \<longleftrightarrow> (let sp = PpSpawnPoint pp; c = PpConfig pp in
     f_fin (InitialCapital sp) \<and> f_fin (SpReserveFloor sp) \<and> f_fin (ROIReleaseTrigger sp) \<and>
     f_fin (ReleaseRatio sp) \<and> f_fin (MonthlyInject sp) \<and>
     (\<forall>x \<in> set (BaseCurrency sp @ TradingPair sp). of_char x < (128 :: nat)) \<and>
     f_fin (DCADropPct c) \<and> f_fin (SigmoidSensitivity c) \<and> f_fin (StopLossThreshold c))"

text \<open>What is used of \<open>encoding/json\<close>: such a pack is encoded to a text that is not empty and
  decodes to it, and decoding never produces a NaN.\<close>

definition json_ok :: "json \<Rightarrow> bool" where
  "json_ok j \<longleftrightarrow> (\<forall>pp. pack_plain pp \<longrightarrow>
      (\<exists>s. j_marshal j pp = Some s \<and> s \<noteq> [] \<and> j_unmarshal j s = (pp, True))) \<and>
     (\<forall>s. nan_free (PpConfig (fst (j_unmarshal j s))))"

lemma DecodeElite_legal: "json_ok j \<Longrightarrow> legal_chromosome (DecodeElite j raw)"
proof -
  assume j: "json_ok j"
  obtain pp ok where u: "j_unmarshal j raw = (pp, ok)" by fastforce
  have "nan_free (PpConfig (fst (j_unmarshal j raw)))" using j unfolding json_ok_def by blast
  then have "nan_free (PpConfig pp)" by (simp add: u)
  then show ?thesis by (simp add: DecodeElite_def u legal_DefaultSeed ClampChromosome_legal)
qed

section \<open>The laws of the interface\<close>

locale evolvable =
  fixes ev :: "'g EvolvableStrategy" and legal :: "'g \<Rightarrow> bool"
  assumes sample_legal: "rand_ok src \<Longrightarrow> legal (fst (ev_Sample ev src k))"
    and mutate_legal: "rand_ok src \<Longrightarrow> legal g \<Longrightarrow> f_fin scale \<Longrightarrow> legal (fst (ev_Mutate ev src g prob scale k))"
    and crossover_legal: "legal g \<Longrightarrow> legal h \<Longrightarrow> legal (fst (ev_Crossover ev src g h k))"
    and decode_legal: "legal (ev_DecodeElite ev raw)"

text \<open>The genes of the sigmoid DCA strategy are legal whenever the codec behaves.\<close>

interpretation sdca: evolvable "NewSigmoidDCAEvolvable m j" "\<lambda>c. json_ok j \<longrightarrow> legal_chromosome c" for m j
  by unfold_locales
    (auto simp: NewSigmoidDCAEvolvable_def Sample_legal Mutate_legal Crossover_fields(1) DecodeElite_legal)

section \<open>The cascade\<close>

definition window_metrics :: "(StrategyInput \<Rightarrow> StrategyOutput) \<Rightarrow> Chromosome \<Rightarrow> EvaluablePlan \<Rightarrow> CrucibleWindow \<Rightarrow> Metrics" where
  "window_metrics step c plan w = RunBacktest (window_config plan c w) step"

definition fatal_window :: "(StrategyInput \<Rightarrow> StrategyOutput) \<Rightarrow> Chromosome \<Rightarrow> EvaluablePlan \<Rightarrow>
    CrucibleWindow \<times> DCABaseline \<Rightarrow> bool" where
  "fatal_window step c plan wb \<longleftrightarrow> maxDDFatal \<le> MtMaxDrawdown (window_metrics step c plan (fst wb))"

definition scored :: "(StrategyInput \<Rightarrow> StrategyOutput) \<Rightarrow> Chromosome \<Rightarrow> EvaluablePlan \<Rightarrow>
    CrucibleWindow \<times> DCABaseline \<Rightarrow> CrucibleResult" where
  "scored step c plan wb = (let m = window_metrics step c plan (fst wb) in
     window_result m (snd wb) (fst wb) (slice_score m (snd wb)))"

text \<open>The weighted sum of the scores, in the order of the windows.\<close>

definition weighted_total :: "(StrategyInput \<Rightarrow> StrategyOutput) \<Rightarrow> Chromosome \<Rightarrow> EvaluablePlan \<Rightarrow> f64 \<Rightarrow>
    (CrucibleWindow \<times> DCABaseline) list \<Rightarrow> f64" where
  "weighted_total step c plan t wbs =
     foldl (\<lambda>t wb. t + CwWeight (fst wb) * CrScore (scored step c plan wb)) t wbs"

lemma eval_windows_live:
  assumes "\<forall>k < length wbs. \<not> cancelled (i + k)"
  shows "eval_windows step cancelled c plan wbs i t rs =
    (let good = takeWhile (\<lambda>wb. \<not> fatal_window step c plan wb) wbs in
     if length good = length wbs then (weighted_total step c plan t wbs, rs @ map (scored step c plan) wbs)
     else (fatalScore, rs @ map (scored step c plan) good @
       [window_result (window_metrics step c plan (fst (wbs ! length good))) (snd (wbs ! length good))
         (fst (wbs ! length good)) fatalScore]))"
  using assms
proof (induction wbs arbitrary: i t rs)
  case Nil
  then show ?case by (simp add: weighted_total_def)
next
  case (Cons wb wbs)
  have c: "\<not> cancelled i" using Cons.prems by fastforce
  have "\<forall>k < length wbs. \<not> cancelled (i + 1 + k)"
  proof (intro allI impI)
    fix k assume "k < length wbs"
    then show "\<not> cancelled (i + 1 + k)" using Cons.prems [rule_format, of "Suc k"] by simp
  qed
  note IH = Cons.IH [OF this, unfolded Suc_eq_plus1 [symmetric]]
  show ?case
    using c
    by (simp add: IH Let_def split_beta fatal_window_def scored_def window_metrics_def weighted_total_def
        window_result_def)
qed

text \<open>A cancelled context yields the fatal score, whatever was scored before.\<close>

lemma eval_windows_cancelled:
  assumes "k < length wbs" "cancelled (i + k)"
  shows "fst (eval_windows step cancelled c plan wbs i t rs) = fatalScore"
  using assms
proof (induction wbs arbitrary: i k t rs)
  case Nil
  then show ?case by simp
next
  case (Cons wb wbs)
  show ?case
  proof (cases k)
    case 0
    then show ?thesis using Cons.prems by simp
  next
    case (Suc k')
    then show ?thesis using Cons.IH [of k' "i + 1"] Cons.prems by (simp add: Let_def split_beta)
  qed
qed

section \<open>Properties\<close>

text \<open>Whatever the random source (within its documented ranges) and whatever is stored in the
  database, the search operators stay in the legal search space: a sampled gene, a mutant of a
  legal gene under any probability and finite scale, and a decoded elite have every field inside
  the hard bounds, and the child of two legal parents takes each field unchanged from one of
  them, so that the clamping at the end of \<open>Crossover\<close> never alters it.\<close>

theorem operators_legal:
  assumes "rand_ok src" "json_ok j" "legal_chromosome c1" "legal_chromosome c2" "f_fin scale"
  shows "legal_chromosome (fst (Sample src rng)) \<and> legal_chromosome (fst (Mutate src c1 prob scale rng)) \<and>
    legal_chromosome (DecodeElite j raw) \<and> legal_chromosome (fst (Crossover src c1 c2 rng)) \<and>
    DCADropPct (fst (Crossover src c1 c2 rng)) \<in> {DCADropPct c1, DCADropPct c2} \<and>
    SigmoidSensitivity (fst (Crossover src c1 c2 rng)) \<in> {SigmoidSensitivity c1, SigmoidSensitivity c2} \<and>
    StopLossThreshold (fst (Crossover src c1 c2 rng)) \<in> {StopLossThreshold c1, StopLossThreshold c2}"
  by (intro conjI Sample_legal Mutate_legal DecodeElite_legal Crossover_fields assms)


text \<open>What \<open>EncodeResult\<close> writes for a legal gene and a finite ASCII spawn point is read back
  unchanged: \<open>DecodeElite\<close> recovers the gene (its clamping is the identity there) and
  \<open>DecodeSpawnFromParamPack\<close> the spawn point, so a challenger stored by an epoch re-enters
  the next population, and the live strategy, as the gene that won.\<close>

theorem encode_decode_roundtrip:
  assumes "json_ok j" "legal_chromosome c" "pack_plain \<lparr>PpSpawnPoint = sp, PpConfig = c\<rparr>"
  shows "\<exists>s. EncodeResult j c (Some sp) = Some s \<and> DecodeElite j s = c \<and> DecodeSpawnFromParamPack j s = sp"
proof -
  from assms(1,3) obtain s where s: "j_marshal j \<lparr>PpSpawnPoint = sp, PpConfig = c\<rparr> = Some s" "s \<noteq> []"
      "j_unmarshal j s = (\<lparr>PpSpawnPoint = sp, PpConfig = c\<rparr>, True)"
    unfolding json_ok_def by blast
  then show ?thesis
    by (simp add: EncodeResult_def DecodeElite_def DecodeSpawnFromParamPack_def ClampChromosome_id assms(2))
qed

text \<open>Genes closer than \<open>1e-6\<close> need not share a fingerprint: rounding separates 0.1000004 from
  0.1000006.\<close>

lemma fingerprint_splits_close_genes:
  "Fingerprint (DefaultSeedChromosome\<lparr>DCADropPct := lit 1000004 10000000\<rparr>) \<noteq>
   Fingerprint (DefaultSeedChromosome\<lparr>DCADropPct := lit 1000006 10000000\<rparr>)"
proof -
  have q: "Float64bits (quantized (lit 1000004 10000000)) = 4591870180066957722"
    "Float64bits (quantized (lit 1000006 10000000)) = 4591870252124551760"
    "Float64bits (quantized (lit 5 1)) = 4617315517961601024"
    "Float64bits (quantized (lit (- 20) 100)) = 13819745816549104026"
    by (code_simp, code_simp, code_simp, code_simp)
  show ?thesis
    by (simp add: Fingerprint_def DefaultSeedChromosome_def q) (simp add: fnv64a_def le_bytes_def fnv_byte_def upt_rec)
qed

section \<open>Witnesses\<close>

text \<open>A codec that satisfies the hypotheses: the bits of the numbers, then the two strings with a
  separator that is not ASCII.\<close>

definition put_f64 :: "f64 \<Rightarrow> string" where
  "put_f64 x = map (\<lambda>b. if b then CHR ''1'' else CHR ''0'') (map (bit (Float64bits x)) [0..<64])"

definition get_f64 :: "string \<Rightarrow> nat \<Rightarrow> f64" where
  "get_f64 s k = F64 (horner_sum of_bool 2 (map (\<lambda>c. c = CHR ''1'') (take 64 (drop (64 * k) s))))"

definition put_pack :: "paramPack \<Rightarrow> string" where
  "put_pack pp = (let sp = PpSpawnPoint pp; c = PpConfig pp in
     put_f64 (InitialCapital sp) @ put_f64 (SpReserveFloor sp) @ put_f64 (ROIReleaseTrigger sp) @
     put_f64 (ReleaseRatio sp) @ put_f64 (MonthlyInject sp) @ put_f64 (DCADropPct c) @
     put_f64 (SigmoidSensitivity c) @ put_f64 (StopLossThreshold c) @
     BaseCurrency sp @ [char_of (255 :: nat)] @ TradingPair sp)"

definition get_pack :: "string \<Rightarrow> paramPack \<times> bool" where
  "get_pack s = (let rest = drop 512 s; base = takeWhile (\<lambda>x. of_char x < (128 :: nat)) rest;
       c = \<lparr>DCADropPct = get_f64 s 5, SigmoidSensitivity = get_f64 s 6, StopLossThreshold = get_f64 s 7\<rparr>
     in if nan_free c then (\<lparr>PpSpawnPoint = \<lparr>BaseCurrency = base, TradingPair = drop (length base + 1) rest,
          InitialCapital = get_f64 s 0, SpReserveFloor = get_f64 s 1, ROIReleaseTrigger = get_f64 s 2,
          ReleaseRatio = get_f64 s 3, MonthlyInject = get_f64 s 4\<rparr>, PpConfig = c\<rparr>, True)
        else (\<lparr>PpSpawnPoint = zero_spawn, PpConfig = DefaultSeedChromosome\<rparr>, False))"

definition bits_json :: json where
  "bits_json = \<lparr>j_unmarshal = get_pack, j_marshal = \<lambda>pp. Some (put_pack pp)\<rparr>"

lemma length_put_f64 [simp]: "length (put_f64 x) = 64"
  by (simp add: put_f64_def)

lemma decode_bits: "F64 (horner_sum of_bool 2 (map (\<lambda>c. c = CHR ''1'') (put_f64 x))) = x"
proof -
  have "map (\<lambda>c. c = CHR ''1'') (put_f64 x) = map (bit (Float64bits x)) [0..<64]"
    by (simp add: put_f64_def)
  then have "horner_sum of_bool 2 (map (\<lambda>c. c = CHR ''1'') (put_f64 x)) = take_bit 64 (Float64bits x)"
    by (simp only: horner_sum_bit_eq_take_bit)
  also have "\<dots> = Float64bits x" using take_bit_word_eq_self [of 64 "Float64bits x"] by simp
  finally show ?thesis by simp
qed

lemma get_pack_put_pack:
  assumes "pack_plain pp"
  shows "get_pack (put_pack pp) = (pp, True)"
proof -
  let ?sp = "PpSpawnPoint pp" and ?c = "PpConfig pp"
  have g: "get_f64 (put_pack pp) 0 = InitialCapital ?sp" "get_f64 (put_pack pp) 1 = SpReserveFloor ?sp"
    "get_f64 (put_pack pp) 2 = ROIReleaseTrigger ?sp" "get_f64 (put_pack pp) 3 = ReleaseRatio ?sp"
    "get_f64 (put_pack pp) 4 = MonthlyInject ?sp" "get_f64 (put_pack pp) 5 = DCADropPct ?c"
    "get_f64 (put_pack pp) 6 = SigmoidSensitivity ?c" "get_f64 (put_pack pp) 7 = StopLossThreshold ?c"
    by (simp_all add: get_f64_def put_pack_def Let_def decode_bits)
  have plain: "\<forall>x \<in> set (BaseCurrency ?sp). of_char x < (128 :: nat)" using assms by (auto simp: pack_plain_def Let_def)
  have rest: "drop 512 (put_pack pp) = BaseCurrency ?sp @ [char_of (255 :: nat)] @ TradingPair ?sp"
    by (simp add: put_pack_def Let_def)
  have tw: "takeWhile (\<lambda>x. of_char x < (128 :: nat)) (BaseCurrency ?sp @ [char_of (255 :: nat)] @ TradingPair ?sp) = BaseCurrency ?sp"
    using plain by (simp add: takeWhile_append)
  have n: "nan_free ?c" using assms by (auto simp: pack_plain_def nan_free_def Let_def dest: f_fin_not)
  show ?thesis
    unfolding get_pack_def Let_def rest tw g using n by (simp add: nan_free_def)
qed

lemma bits_json_ok: "json_ok bits_json"
proof -
  have "put_pack pp \<noteq> []" for pp by (simp add: put_pack_def Let_def)
  moreover have "nan_free (PpConfig (fst (get_pack s)))" for s
  proof -
    have "nan_free DefaultSeedChromosome" by code_simp
    then show ?thesis by (simp add: get_pack_def Let_def)
  qed
  ultimately show ?thesis by (simp add: json_ok_def bits_json_def get_pack_put_pack)
qed

definition quarter_src :: rand_src where
  "quarter_src = \<lparr>r_float = \<lambda>_. lit 1 4, r_norm = \<lambda>_. 1, r_intn = \<lambda>k n. k mod n\<rparr>"

lemma quarter_src_ok: "rand_ok quarter_src"
proof -
  have "f_fin (lit 1 4) \<and> 0 \<le> lit 1 4 \<and> lit 1 4 < 1" "f_fin 1" by (code_simp, code_simp)
  then show ?thesis by (simp add: rand_ok_def quarter_src_def)
qed

theorem operators_legal_witness:
  "legal_chromosome (fst (Mutate quarter_src DefaultSeedChromosome (lit 15 100) (lit 15 10) 7)) \<and>
   fst (Crossover quarter_src DefaultSeedChromosome DefaultSeedChromosome 0) = DefaultSeedChromosome"
proof -
  have "f_fin (lit 15 10)" by code_simp
  note o = operators_legal [OF quarter_src_ok bits_json_ok legal_DefaultSeed legal_DefaultSeed this]
  have "fst (Crossover quarter_src DefaultSeedChromosome DefaultSeedChromosome 0) = DefaultSeedChromosome"
    using o by (intro Chromosome.equality) auto
  with o show ?thesis by blast
qed

text \<open>Two windows without bars: the first is scored against a baseline that lost a quarter, and the
  second is not reached when the context is cancelled.\<close>

definition empty_plan :: EvaluablePlan where
  "empty_plan = \<lparr>PlPair = ''BTCUSDT'', PlTemplateName = ''sigmoid_dca_v1'', PlSpawn = zero_spawn, PlLotStep = 0,
     PlLotMin = 0,
     PlWindows = [\<lparr>CwLabel = ''6m'', CwWeight = lit 1 2, CwBars = [], CwEvalStartMs = 0\<rparr>,
       \<lparr>CwLabel = ''full'', CwWeight = lit 1 2, CwBars = [], CwEvalStartMs = 0\<rparr>],
     PlDCABaselines = [\<lparr>DbFinalEquity = 0, DbTotalInjected = 0, DbMaxDrawdown = 0, DbROI = lit (- 1) 4\<rparr>,
       \<lparr>DbFinalEquity = 0, DbTotalInjected = 0, DbMaxDrawdown = 0, DbROI = 0\<rparr>]\<rparr>"


theorem encode_decode_roundtrip_witness:
  "\<exists>s. EncodeResult bits_json DefaultSeedChromosome (Some zero_spawn) = Some s \<and>
     DecodeElite bits_json s = DefaultSeedChromosome \<and> DecodeSpawnFromParamPack bits_json s = zero_spawn"
proof (rule encode_decode_roundtrip [OF bits_json_ok legal_DefaultSeed])
  show "pack_plain \<lparr>PpSpawnPoint = zero_spawn, PpConfig = DefaultSeedChromosome\<rparr>" by code_simp
qed

end
