(* ===== verification/Store.thy ===== *)
theory Store
  imports QuantData
begin

text \<open>
  \<open>internal/saas/store/models.go\<close>: the rows of the database, and the database itself as one list
  per table, in the order of insertion. Of \<open>gorm.Model\<close> the primary key is kept everywhere and the
  creation time where a query orders by it. A \<open>time.Time\<close> is its nanoseconds since the Unix epoch.

  Every statement may fail. \<open>world\<close> counts the statements sent to the server, a parameter says
  which of them fail, and a failure inside a transaction aborts it, as PostgreSQL does: nothing of
  an aborted transaction, or of one whose body returns an error, is kept.
\<close>

section \<open>Times\<close>

type_synonym go_time = int

definition time_zero :: go_time where "time_zero = - 62135596800 * 10 ^ 9"

definition IsZero :: "go_time \<Rightarrow> bool" where "IsZero t \<longleftrightarrow> t = time_zero"

definition After :: "go_time \<Rightarrow> go_time \<Rightarrow> bool" where "After t u \<longleftrightarrow> u < t"

definition UnixMilli :: "go_time \<Rightarrow> i64" where "UnixMilli t = word_of_int (t div 10 ^ 6)"

definition from_UnixMilli :: "i64 \<Rightarrow> go_time" where "from_UnixMilli ms = sint ms * 10 ^ 6"

lemma UnixMilli_roundtrip [simp]: "UnixMilli (from_UnixMilli ms) = ms"
  by (simp add: UnixMilli_def from_UnixMilli_def)

section \<open>Rows\<close>

record User =
  UsID :: nat
  UsEmail :: string
  UsPasswordHash :: string
  UsPlan :: string
  UsMaxInstances :: int
  UsIsActive :: bool

record StrategyTemplate =
  TpID :: nat
  TpName :: string
  TpVersion :: string
  TpIsSpot :: bool
  TpManifest :: string

record StrategyInstance =
  SiID :: nat
  SiUserID :: nat
  SiTemplateID :: nat
  SiSymbol :: string
  SiInterval :: string
  SiStatus :: string
  SiParamPack :: string

record StorePortfolio =
  SpID :: nat
  SpInstanceID :: nat
  USDTBalance :: f64
  DeadBTC :: f64
  FloatBTC :: f64
  ColdSealedBTC :: f64
  TotalEquity :: f64
  LastProcessedBarTime :: go_time

record StoreRuntime =
  SrID :: nat
  SrInstanceID :: nat
  SrPayload :: string

record SpotLot =
  SlID :: nat
  SlInstanceID :: nat
  SlLotType :: string
  SlAmount :: f64
  SlCostPrice :: f64
  SlIsColdSealed :: bool

record TradeRecord =
  TrID :: nat
  TrInstanceID :: nat
  TrClientOrderID :: string
  TrAction :: string
  TrEngine :: string
  TrSymbol :: string
  TrFilledQty :: f64
  TrFilledPrice :: f64
  TrFee :: f64

record SpotExecution =
  SxID :: nat
  SxInstanceID :: nat
  SxClientOrderID :: string
  SxStatus :: string
  SxRawPayload :: string

record AuditLog =
  AlID :: nat
  AlInstanceID :: nat
  AlEventType :: string
  AlPayload :: string

record GeneRecord =
  GrID :: nat
  GrCreatedAt :: go_time
  GrStrategyID :: nat
  GrTaskID :: nat
  GrRole :: string
  GrParamPack :: string
  GrScoreTotal :: f64
  GrMaxDrawdown :: f64
  GrWindowScores :: string

record EvolutionTask =
  EtID :: nat
  EtStrategyID :: nat
  EtStatus :: string
  EtProgress :: f64
  EtCurrentGeneration :: int
  EtBestScore :: f64
  EtErrorMsg :: string
  EtConfig :: string

record KLine =
  KlID :: nat
  KlSymbol :: string
  KlInterval :: string
  KlOpenTime :: go_time
  KlOpen :: f64
  KlHigh :: f64
  KlLow :: f64
  KlClose :: f64
  KlVolume :: f64

end
