(* ===== verification/GAEngine.thy ===== *)
theory GAEngine
  imports Evolvable Store "HOL-Library.Multiset"
begin

text \<open>
  \<open>internal/saas/ga/engine.go\<close>: the genetic algorithm. The engine is polymorphic in the gene, as
  the Go code is, and sees a strategy through \<open>EvolvableStrategy\<close> only.

  What the code takes from outside is the record \<open>ga_env\<close>: the random source, the number of
  processors, \<open>sort.Slice\<close>, the database, the JSON encoder, the scheduling of the workers and the
  points at which the context is found cancelled.
\<close>

section \<open>Data\<close>

record 'g EvolutionEngine =
  EnEvolvable :: "'g EvolvableStrategy"
  EnPopSize :: int
  EnMaxGenerations :: int
  EliteCount :: int
  MutationProbability :: f64
  MutationScale :: f64
  MutationProbabilityMax :: f64
  MutationScaleMax :: f64
  MutationRampFactor :: f64
  EarlyStopPatience :: int
  EarlyStopMinDelta :: f64
  TournamentSize :: int

record EpochConfig =
  EcStrategyID :: nat
  EcTaskID :: nat
  EcSymbol :: string
  EcInterval :: string
  EcPopSize :: int
  EcMaxGenerations :: int
  EcLotStep :: f64
  EcLotMin :: f64
  EcSpawnPointOverride :: "SpawnPoint option"
  EcOnProgress :: bool

definition NewEvolutionEngine :: "'g EvolvableStrategy \<Rightarrow> 'g EvolutionEngine" where
  "NewEvolutionEngine ev = \<lparr>EnEvolvable = ev, EnPopSize = 300, EnMaxGenerations = 25, EliteCount = 8,
     MutationProbability = lit 15 100, MutationScale = lit 1 1, MutationProbabilityMax = lit 55 100,
     MutationScaleMax = lit 3 1, MutationRampFactor = lit 125 100, EarlyStopPatience = 5,
     EarlyStopMinDelta = lit 1 1000, TournamentSize = 3\<rparr>"

record 'g individual =
  gene :: 'g
  fitness :: f64

record 'g ga_env =
  env_rand :: rand_src
  env_cpus :: nat
  env_sort :: "'g individual list \<Rightarrow> 'g individual list"
  env_klines :: "string \<Rightarrow> string \<Rightarrow> KLine list option"
  env_elites :: "nat \<Rightarrow> int \<Rightarrow> GeneRecord list"
  env_create :: "GeneRecord \<Rightarrow> nat option"
  env_scores_json :: "(string \<rightharpoonup> f64) \<Rightarrow> string"
  env_sched :: "nat \<Rightarrow> nat list"
  env_cx :: "nat \<Rightarrow> nat \<Rightarrow> nat \<Rightarrow> bool"
  env_done :: "nat \<Rightarrow> bool"
  env_final_cx :: "nat \<Rightarrow> bool"

text \<open>\<open>sort.Slice\<close> permutes its argument; when the comparison is a strict weak order, that is when
  no fitness is a NaN, the result is in order. The order of equal elements is not specified.\<close>

definition descending :: "'g individual list \<Rightarrow> bool" where
  "descending is \<longleftrightarrow> sorted_wrt (\<lambda>x y. \<not> fitness x < fitness y) is"

definition sort_ok :: "('g individual list \<Rightarrow> 'g individual list) \<Rightarrow> bool" where
  "sort_ok srt \<longleftrightarrow> (\<forall>is. mset (srt is) = mset is \<and>
     ((\<forall>i \<in> set is. \<not> f_nan (fitness i)) \<longrightarrow> descending (srt is)))"

section \<open>Go's builtin \<open>min\<close> on floats\<close>

definition f_min :: "f64 \<Rightarrow> f64 \<Rightarrow> f64" where
  "f_min x y = (if f_nan x \<or> f_nan y then f_NaN
     else if x < y then x else if y < x then y else if f_sign x then x else y)"

section \<open>Helpers\<close>

definition klinesToBars :: "KLine list \<Rightarrow> Bar list" where
  "klinesToBars klines = map (\<lambda>k. \<lparr>OpenTime = UnixMilli (KlOpenTime k), Open = KlOpen k, High = KlHigh k,
     Low = KlLow k, Close = KlClose k, Volume = KlVolume k\<rparr>) klines"

primrec barsFrom :: "Bar list \<Rightarrow> i64 \<Rightarrow> Bar list" where
  "barsFrom [] fromMs = []"
| "barsFrom (b # bs) fromMs = (if sint fromMs \<le> sint (OpenTime b) then b # bs else barsFrom bs fromMs)"

definition windowResultsToMap :: "CrucibleResult list \<Rightarrow> (string \<rightharpoonup> f64)" where
  "windowResultsToMap results = foldl (\<lambda>m r. m(CrWindow r \<mapsto> CrScore r)) Map.empty results"

definition buildIndividuals :: "'g list \<Rightarrow> f64 list \<Rightarrow> 'g individual list" where
  "buildIndividuals pop scores = map (\<lambda>i. \<lparr>gene = pop ! i, fitness = scores ! i\<rparr>) [0..<length pop]"

definition sortByFitness :: "'g ga_env \<Rightarrow> 'g individual list \<Rightarrow> 'g individual list" where
  "sortByFitness env inds = env_sort env inds"

text \<open>The contest of \<open>n\<close> further candidates against the best so far.\<close>

primrec contest :: "rand_src \<Rightarrow> 'g individual list \<Rightarrow> nat \<Rightarrow> 'g individual \<Rightarrow> rng \<Rightarrow> 'g individual \<times> rng" where
  "contest src inds 0 best rng = (best, rng)"
| "contest src inds (Suc n) best rng =
     (let candidate = inds ! r_intn src rng (length inds) in
      contest src inds n (if fitness best < fitness candidate then candidate else best) (rng + 1))"

definition tournamentSelect :: "rand_src \<Rightarrow> 'g individual list \<Rightarrow> int \<Rightarrow> rng \<Rightarrow> 'g \<times> rng" where
  "tournamentSelect src inds n rng =
     (case contest src inds (nat (n - 1)) (inds ! r_intn src rng (length inds)) (rng + 1)
      of (best, rng) \<Rightarrow> (gene best, rng))"

section \<open>The plan\<close>

definition baseline_of :: "SpawnPoint \<Rightarrow> CrucibleWindow \<Rightarrow> DCABaseline" where
  "baseline_of spawn w = (let evalBars = barsFrom (CwBars w) (CwEvalStartMs w);
     res = SimulateGhostDCA \<lparr>GcInitialCapital = InitialCapital spawn, GcMonthlyInject = MonthlyInject spawn\<rparr> evalBars
   in \<lparr>DbFinalEquity = GhFinalEquity res, DbTotalInjected = GhTotalInjected res,
       DbMaxDrawdown = GhMaxDrawdown res, DbROI = GhROI res\<rparr>)"

definition buildPlan :: "'g ga_env \<Rightarrow> 'g EvolutionEngine \<Rightarrow> EpochConfig \<Rightarrow> SpawnPoint \<Rightarrow> EvaluablePlan option" where
  "buildPlan env e cfg spawn = (case env_klines env (EcSymbol cfg) (EcInterval cfg) of
     None \<Rightarrow> None
   | Some klines \<Rightarrow>
       let bars = klinesToBars klines; windows = BuildCrucibleWindows bars DefaultWarmupDays in
       Some \<lparr>PlPair = EcSymbol cfg, PlTemplateName = ev_StrategyID (EnEvolvable e), PlSpawn = spawn,
         PlLotStep = EcLotStep cfg, PlLotMin = EcLotMin cfg, PlWindows = windows,
         PlDCABaselines = map (baseline_of spawn) windows\<rparr>)"

section \<open>The initial population\<close>

text \<open>The three filling loops; \<open>i\<close> is the loop variable and the bound on \<open>length pop\<close> the second half
  of the loop condition.\<close>

primrec copy_elites :: "'g EvolvableStrategy \<Rightarrow> GeneRecord list \<Rightarrow> int \<Rightarrow> nat \<Rightarrow> nat \<Rightarrow> 'g list \<Rightarrow> 'g list" where
  "copy_elites ev elites popSize 0 i pop = pop"
| "copy_elites ev elites popSize (Suc n) i pop = (if popSize \<le> int (length pop) then pop
     else copy_elites ev elites popSize n (i + 1)
       (pop @ [ev_DecodeElite ev (GrParamPack (elites ! (i mod length elites)))]))"

primrec mutate_elites :: "rand_src \<Rightarrow> 'g EvolvableStrategy \<Rightarrow> GeneRecord list \<Rightarrow> int \<Rightarrow> nat \<Rightarrow> nat \<Rightarrow> 'g list \<Rightarrow> rng \<Rightarrow>
    'g list \<times> rng" where
  "mutate_elites src ev elites popSize 0 i pop rng = (pop, rng)"
| "mutate_elites src ev elites popSize (Suc n) i pop rng = (if popSize \<le> int (length pop) then (pop, rng)
     else case ev_Mutate ev src (ev_DecodeElite ev (GrParamPack (elites ! (i mod length elites))))
         (lit 15 100) (lit 15 10) rng of (g, rng) \<Rightarrow>
       mutate_elites src ev elites popSize n (i + 1) (pop @ [g]) rng)"

function fill_random :: "rand_src \<Rightarrow> 'g EvolvableStrategy \<Rightarrow> int \<Rightarrow> 'g list \<Rightarrow> rng \<Rightarrow> 'g list \<times> rng" where
  "fill_random src ev popSize pop rng = (if int (length pop) < popSize
     then case ev_Sample ev src rng of (g, rng) \<Rightarrow> fill_random src ev popSize (pop @ [g]) rng
     else (pop, rng))"
  by auto
termination by (relation "measure (\<lambda>(src, ev, popSize, pop, rng). nat popSize - length pop)") auto

declare fill_random.simps [simp del]

definition seed_gene :: "'g EvolvableStrategy \<Rightarrow> GeneRecord list \<Rightarrow> 'g" where
  "seed_gene ev elites = (case elites of [] \<Rightarrow> ev_DecodeElite ev [] | r # _ \<Rightarrow> ev_DecodeElite ev (GrParamPack r))"

definition initPopulation :: "'g ga_env \<Rightarrow> 'g EvolutionEngine \<Rightarrow> nat \<Rightarrow> int \<Rightarrow> rng \<Rightarrow> 'g list \<times> rng" where
  "initPopulation env e strategyID popSize rng = (let ev = EnEvolvable e;
       elites = env_elites env strategyID popSize; pop = [seed_gene ev elites]
     in case (if elites \<noteq> [] \<and> 1 < popSize
         then let remaining = popSize - 1; eliteCount = max 1 (remaining * 10 div 100); mutCount = remaining * 40 div 100
           in mutate_elites (env_rand env) ev elites popSize (nat mutCount) 0
                (copy_elites ev elites popSize (nat eliteCount) 0 pop) rng
         else (pop, rng)) of (pop, rng) \<Rightarrow> fill_random (env_rand env) ev popSize pop rng)"

section \<open>Evaluation of a population by concurrent workers\<close>

text \<open>A worker between two accesses to what the workers share (the channel of jobs, the cache, the
  slice of scores): ready to receive, holding a job, evaluating after a miss, about to store a
  fresh score in the cache, about to write a score, or out of its loop. Job \<open>i\<close> is evaluated under
  the context \<open>cx i\<close>, so every job may find the context in another state.\<close>

datatype 'g worker =
    Ready
  | Took nat 'g
  | Missed nat 'g "64 word"
  | Scored nat "64 word" f64
  | Holding nat f64
  | Exited

record 'g pool =
  jobs :: "(nat \<times> 'g) list"
  fpCache :: "64 word \<rightharpoonup> f64"
  scores :: "f64 list"
  workers :: "'g worker list"

definition worker_step :: "'g EvolvableStrategy \<Rightarrow> EvaluablePlan \<Rightarrow> (nat \<Rightarrow> nat \<Rightarrow> bool) \<Rightarrow> 'g worker \<Rightarrow> 'g pool \<Rightarrow>
    'g worker \<times> 'g pool" where
  "worker_step ev plan cx w p = (case w of
     Ready \<Rightarrow> (case jobs p of [] \<Rightarrow> (Exited, p) | (i, g) # js \<Rightarrow> (Took i g, p\<lparr>jobs := js\<rparr>))
   | Took i g \<Rightarrow> (let fp = ev_Fingerprint ev g in
       case fpCache p fp of Some cached \<Rightarrow> (Holding i cached, p) | None \<Rightarrow> (Missed i g fp, p))
   | Missed i g fp \<Rightarrow> (Scored i fp (fst (ev_Evaluate ev (cx i) g plan)), p)
   | Scored i fp s \<Rightarrow> (Holding i s, p\<lparr>fpCache := (fpCache p)(fp \<mapsto> s)\<rparr>)
   | Holding i s \<Rightarrow> (Ready, p\<lparr>scores := (scores p)[i := s]\<rparr>)
   | Exited \<Rightarrow> (Exited, p))"

definition pool_step :: "'g EvolvableStrategy \<Rightarrow> EvaluablePlan \<Rightarrow> (nat \<Rightarrow> nat \<Rightarrow> bool) \<Rightarrow> nat \<Rightarrow> 'g pool \<Rightarrow> 'g pool" where
  "pool_step ev plan cx k p = (if k < length (workers p)
     then case worker_step ev plan cx (workers p ! k) p of (w, q) \<Rightarrow> q\<lparr>workers := (workers q)[k := w]\<rparr>
     else p)"

definition pool_start :: "nat \<Rightarrow> 'g list \<Rightarrow> 'g pool" where
  "pool_start cpus pop = (let n = length pop; k = (if n < cpus then n else cpus) in
     \<lparr>jobs = zip [0..<n] pop, fpCache = Map.empty, scores = replicate n 0, workers = replicate k Ready\<rparr>)"

definition exited :: "'g worker \<Rightarrow> bool" where
  "exited w \<longleftrightarrow> (case w of Exited \<Rightarrow> True | _ \<Rightarrow> False)"

definition all_exited :: "'g pool \<Rightarrow> bool" where
  "all_exited p \<longleftrightarrow> list_all exited (workers p)"

lemma exited_iff [simp]: "exited w \<longleftrightarrow> w = Exited"
  by (simp add: exited_def split: worker.splits)

text \<open>The work left: every step of a worker that has not exited takes at least one unit.\<close>

primrec worker_work :: "'g worker \<Rightarrow> nat" where
  "worker_work Ready = 1"
| "worker_work (Took i g) = 5"
| "worker_work (Missed i g fp) = 4"
| "worker_work (Scored i fp s) = 3"
| "worker_work (Holding i s) = 2"
| "worker_work Exited = 0"

definition pool_work :: "'g pool \<Rightarrow> nat" where
  "pool_work p = 5 * length (jobs p) + sum_list (map worker_work (workers p))"

lemma worker_step_work:
  assumes "worker_step ev plan cx w p = (w', q)"
  shows "workers q = workers p" "w \<noteq> Exited \<Longrightarrow> 5 * length (jobs q) + worker_work w' < 5 * length (jobs p) + worker_work w"
  using assms by (auto simp: worker_step_def Let_def split: worker.splits list.splits option.splits)

lemma sum_list_update_work:
  "k < length ws \<Longrightarrow> sum_list (map worker_work (ws[k := w])) + worker_work (ws ! k) =
     sum_list (map worker_work ws) + worker_work w"
  by (induction ws arbitrary: k) (auto simp: nth_Cons split: nat.splits)

lemma pool_step_work:
  assumes "k < length (workers p)" "workers p ! k \<noteq> Exited"
  shows "pool_work (pool_step ev plan cx k p) < pool_work p"
proof -
  obtain w q where s: "worker_step ev plan cx (workers p ! k) p = (w, q)" by fastforce
  note w = worker_step_work [OF s]
  then show ?thesis
    using assms sum_list_update_work [OF assms(1), of w] by (simp add: pool_step_def s pool_work_def)
qed

text \<open>Running the rest: the first worker still in its loop goes on, until all have exited.\<close>

definition first_busy :: "'g pool \<Rightarrow> nat" where
  "first_busy p = length (takeWhile exited (workers p))"

lemma first_busy:
  assumes "\<not> all_exited p"
  shows "first_busy p < length (workers p)" "workers p ! first_busy p \<noteq> Exited"
proof -
  have "takeWhile exited (workers p) \<noteq> workers p" using assms by (auto simp: all_exited_def list_all_iff takeWhile_eq_all_conv)
  then show l: "first_busy p < length (workers p)"
    unfolding first_busy_def by (metis length_takeWhile_le nat_less_le takeWhile_eq_take take_all_iff)
  then have "\<not> exited (workers p ! first_busy p)" unfolding first_busy_def by (rule nth_length_takeWhile)
  then show "workers p ! first_busy p \<noteq> Exited" by simp
qed

function drain :: "'g EvolvableStrategy \<Rightarrow> EvaluablePlan \<Rightarrow> (nat \<Rightarrow> nat \<Rightarrow> bool) \<Rightarrow> 'g pool \<Rightarrow> 'g pool" where
  "drain ev plan cx p = (if all_exited p then p else drain ev plan cx (pool_step ev plan cx (first_busy p) p))"
  by auto
termination
  by (relation "measure (\<lambda>(ev, plan, cx, p). pool_work p)") (auto intro: pool_step_work dest: first_busy)

declare drain.simps [simp del]

text \<open>The scheduler is the list of the workers that move, in order; what it leaves undone is run
  to the end, as \<open>wg.Wait\<close> makes sure.\<close>

definition evaluatePopulation :: "'g EvolvableStrategy \<Rightarrow> EvaluablePlan \<Rightarrow> nat \<Rightarrow> nat list \<Rightarrow> (nat \<Rightarrow> nat \<Rightarrow> bool) \<Rightarrow>
    'g list \<Rightarrow> f64 list" where
  "evaluatePopulation ev plan cpus sched cx pop =
     scores (drain ev plan cx (foldl (\<lambda>p k. pool_step ev plan cx k p) (pool_start cpus pop) sched))"

text \<open>The states the workers can reach, under any schedule.\<close>

inductive pool_reach :: "'g EvolvableStrategy \<Rightarrow> EvaluablePlan \<Rightarrow> (nat \<Rightarrow> nat \<Rightarrow> bool) \<Rightarrow> nat \<Rightarrow> 'g list \<Rightarrow> 'g pool \<Rightarrow> bool"
  for ev plan cx cpus pop where
  start: "pool_reach ev plan cx cpus pop (pool_start cpus pop)"
| step: "pool_reach ev plan cx cpus pop p \<Longrightarrow> pool_reach ev plan cx cpus pop (pool_step ev plan cx k p)"

lemma reach_foldl: "pool_reach ev plan cx cpus pop p \<Longrightarrow>
    pool_reach ev plan cx cpus pop (foldl (\<lambda>p k. pool_step ev plan cx k p) p ks)"
  by (induction ks arbitrary: p) (auto intro: pool_reach.step)

lemma reach_drain: "pool_reach ev plan cx cpus pop p \<Longrightarrow> pool_reach ev plan cx cpus pop (drain ev plan cx p)"
proof (induction ev plan cx p rule: drain.induct)
  case (1 ev plan cx p)
  then show ?case by (subst drain.simps) (auto intro: pool_reach.step)
qed

lemma drain_exited: "all_exited (drain ev plan cx p)"
proof (induction ev plan cx p rule: drain.induct)
  case (1 ev plan cx p)
  then show ?case by (subst drain.simps) auto
qed

section \<open>What the workers keep\<close>

text \<open>A score belongs to a fingerprint when it is the fitness, as evaluated for some job, of a gene of
  the population with that fingerprint.\<close>

definition score_from :: "'g EvolvableStrategy \<Rightarrow> EvaluablePlan \<Rightarrow> (nat \<Rightarrow> nat \<Rightarrow> bool) \<Rightarrow> 'g list \<Rightarrow> 64 word \<Rightarrow> f64 \<Rightarrow> bool" where
  "score_from ev plan cx pop fp s \<longleftrightarrow>
     (\<exists>j < length pop. ev_Fingerprint ev (pop ! j) = fp \<and> s = fst (ev_Evaluate ev (cx j) (pop ! j) plan))"

primrec worker_ok :: "'g EvolvableStrategy \<Rightarrow> EvaluablePlan \<Rightarrow> (nat \<Rightarrow> nat \<Rightarrow> bool) \<Rightarrow> 'g list \<Rightarrow> 'g worker \<Rightarrow> bool" where
  "worker_ok ev plan cx pop Ready = True"
| "worker_ok ev plan cx pop (Took i g) = (i < length pop \<and> g = pop ! i)"
| "worker_ok ev plan cx pop (Missed i g fp) = (i < length pop \<and> g = pop ! i \<and> fp = ev_Fingerprint ev g)"
| "worker_ok ev plan cx pop (Scored i fp s) =
     (i < length pop \<and> fp = ev_Fingerprint ev (pop ! i) \<and> score_from ev plan cx pop fp s)"
| "worker_ok ev plan cx pop (Holding i s) = (i < length pop \<and> score_from ev plan cx pop (ev_Fingerprint ev (pop ! i)) s)"
| "worker_ok ev plan cx pop Exited = True"

primrec in_hand :: "'g worker \<Rightarrow> nat set" where
  "in_hand Ready = {}"
| "in_hand (Took i g) = {i}"
| "in_hand (Missed i g fp) = {i}"
| "in_hand (Scored i fp s) = {i}"
| "in_hand (Holding i s) = {i}"
| "in_hand Exited = {}"

definition jobs_ok :: "'g list \<Rightarrow> 'g pool \<Rightarrow> bool" where
  "jobs_ok pop p \<longleftrightarrow> (\<forall>(i, g) \<in> set (jobs p). i < length pop \<and> g = pop ! i)"

definition cache_ok :: "'g EvolvableStrategy \<Rightarrow> EvaluablePlan \<Rightarrow> (nat \<Rightarrow> nat \<Rightarrow> bool) \<Rightarrow> 'g list \<Rightarrow> 'g pool \<Rightarrow> bool" where
  "cache_ok ev plan cx pop p \<longleftrightarrow> (\<forall>fp s. fpCache p fp = Some s \<longrightarrow> score_from ev plan cx pop fp s)"

text \<open>Job \<open>i\<close> is still in the channel, in the hands of a worker, or its score is written.\<close>

definition accounted :: "'g EvolvableStrategy \<Rightarrow> EvaluablePlan \<Rightarrow> (nat \<Rightarrow> nat \<Rightarrow> bool) \<Rightarrow> 'g list \<Rightarrow> 'g pool \<Rightarrow> nat \<Rightarrow> bool" where
  "accounted ev plan cx pop p i \<longleftrightarrow> i \<in> fst ` set (jobs p) \<or> (\<exists>w \<in> set (workers p). i \<in> in_hand w) \<or>
     score_from ev plan cx pop (ev_Fingerprint ev (pop ! i)) (scores p ! i)"

definition pool_inv :: "'g EvolvableStrategy \<Rightarrow> EvaluablePlan \<Rightarrow> (nat \<Rightarrow> nat \<Rightarrow> bool) \<Rightarrow> 'g list \<Rightarrow> 'g pool \<Rightarrow> bool" where
  "pool_inv ev plan cx pop p \<longleftrightarrow> jobs_ok pop p \<and> cache_ok ev plan cx pop p \<and>
     (\<forall>w \<in> set (workers p). worker_ok ev plan cx pop w) \<and> length (scores p) = length pop \<and>
     (Exited \<in> set (workers p) \<longrightarrow> jobs p = []) \<and> (\<forall>i < length pop. accounted ev plan cx pop p i)"

text \<open>One worker step, apart from the list of workers.\<close>

lemma worker_step_ok:
  assumes "worker_step ev plan cx w p = (w', q)" "worker_ok ev plan cx pop w" "jobs_ok pop p" "cache_ok ev plan cx pop p"
    "length (scores p) = length pop"
  shows "worker_ok ev plan cx pop w'" "jobs_ok pop q" "cache_ok ev plan cx pop q" "length (scores q) = length pop"
    "workers q = workers p" "w' = Exited \<Longrightarrow> jobs q = [] \<or> w = Exited" "jobs p = [] \<Longrightarrow> jobs q = []"
    "i \<in> in_hand w \<Longrightarrow> i \<in> in_hand w' \<or> score_from ev plan cx pop (ev_Fingerprint ev (pop ! i)) (scores q ! i)"
    "i \<in> fst ` set (jobs p) \<Longrightarrow> i \<in> fst ` set (jobs q) \<or> i \<in> in_hand w'"
    "score_from ev plan cx pop (ev_Fingerprint ev (pop ! i)) (scores p ! i) \<Longrightarrow> i < length pop \<Longrightarrow>
      score_from ev plan cx pop (ev_Fingerprint ev (pop ! i)) (scores q ! i)"
proof -
  note d = worker_step_def Let_def
  have "worker_ok ev plan cx pop w' \<and> jobs_ok pop q \<and> cache_ok ev plan cx pop q \<and> length (scores q) = length pop \<and>
      workers q = workers p \<and> (w' = Exited \<longrightarrow> jobs q = [] \<or> w = Exited) \<and> (jobs p = [] \<longrightarrow> jobs q = [])"
  proof (cases w)
    case Ready
    then show ?thesis using assms by (cases "jobs p") (auto simp: d jobs_ok_def cache_ok_def)
  next
    case (Took j g)
    then show ?thesis
      using assms by (cases "fpCache p (ev_Fingerprint ev g)") (auto simp: d cache_ok_def)
  next
    case (Missed j g fp)
    then show ?thesis using assms by (auto simp: d score_from_def)
  next
    case (Scored j fp s)
    then show ?thesis using assms by (auto simp: d cache_ok_def jobs_ok_def split: if_splits)
  next
    case (Holding j s)
    then show ?thesis using assms by (auto simp: d cache_ok_def jobs_ok_def)
  next
    case Exited
    then show ?thesis using assms by (auto simp: d)
  qed
  then show "worker_ok ev plan cx pop w'" "jobs_ok pop q" "cache_ok ev plan cx pop q" "length (scores q) = length pop"
    "workers q = workers p" "w' = Exited \<Longrightarrow> jobs q = [] \<or> w = Exited" "jobs p = [] \<Longrightarrow> jobs q = []" by auto
  show "i \<in> in_hand w \<Longrightarrow> i \<in> in_hand w' \<or> score_from ev plan cx pop (ev_Fingerprint ev (pop ! i)) (scores q ! i)"
    "i \<in> fst ` set (jobs p) \<Longrightarrow> i \<in> fst ` set (jobs q) \<or> i \<in> in_hand w'"
    using assms by (cases w; auto simp: d split: option.splits list.splits)+
  show "score_from ev plan cx pop (ev_Fingerprint ev (pop ! i)) (scores p ! i) \<Longrightarrow> i < length pop \<Longrightarrow>
      score_from ev plan cx pop (ev_Fingerprint ev (pop ! i)) (scores q ! i)"
    using assms by (cases w) (auto simp: d nth_list_update split: option.splits list.splits)
qed

lemma ex_update_iff: "k < length ws \<Longrightarrow> v \<in> set ws \<Longrightarrow> v \<noteq> ws ! k \<Longrightarrow> v \<in> set (ws[k := w])"
  by (metis in_set_conv_nth length_list_update nth_list_update_neq)

lemma pool_step_inv:
  assumes "pool_inv ev plan cx pop p"
  shows "pool_inv ev plan cx pop (pool_step ev plan cx k p)"
proof (cases "k < length (workers p)")
  case False
  then show ?thesis using assms by (simp add: pool_step_def)
next
  case True
  let ?w = "workers p ! k"
  obtain w q where s: "worker_step ev plan cx ?w p = (w, q)" by fastforce
  let ?q = "q\<lparr>workers := (workers q)[k := w]\<rparr>"
  have mem: "?w \<in> set (workers p)" using True by simp
  from assms have inv: "jobs_ok pop p" "cache_ok ev plan cx pop p" "\<forall>w \<in> set (workers p). worker_ok ev plan cx pop w"
    "length (scores p) = length pop" "Exited \<in> set (workers p) \<Longrightarrow> jobs p = []" "\<And>i. i < length pop \<Longrightarrow> accounted ev plan cx pop p i"
    by (auto simp: pool_inv_def)
  note st = worker_step_ok [OF s bspec [OF inv(3) mem] inv(1,2,4)]
  have sub: "set ((workers p)[k := w]) \<subseteq> insert w (set (workers p))" by (rule set_update_subset_insert)
  have new: "w \<in> set ((workers p)[k := w])" using True by (rule set_update_memI)
  have acc: "accounted ev plan cx pop ?q i" if i: "i < length pop" for i
  proof -
    consider "i \<in> fst ` set (jobs p)" | v where "v \<in> set (workers p)" "i \<in> in_hand v"
      | "score_from ev plan cx pop (ev_Fingerprint ev (pop ! i)) (scores p ! i)"
      using inv(6) [OF i] by (auto simp: accounted_def)
    then show ?thesis
    proof cases
      case 1
      then show ?thesis using st(9) [of i] new by (auto simp: accounted_def st(5))
    next
      case (2 v)
      then show ?thesis
        using st(8) [of i] new ex_update_iff [OF True 2(1), of w] by (cases "v = ?w") (auto simp: accounted_def st(5))
    next
      case 3
      then show ?thesis using st(10) [of i] i by (auto simp: accounted_def)
    qed
  qed
  have "Exited \<in> set ((workers p)[k := w]) \<Longrightarrow> jobs q = []"
    using sub st(6,7) inv(5) mem by (metis insert_iff subsetD)
  then show ?thesis
    using acc st(1-5) sub inv(3) True by (auto simp: pool_inv_def pool_step_def s jobs_ok_def cache_ok_def)
qed

lemma pool_start_inv: "pool_inv ev plan cx pop (pool_start cpus pop)"
proof -
  have "i \<in> fst ` set (zip [0..<length pop] pop)" if "i < length pop" for i
    using that by (force simp: set_zip image_iff)
  then show ?thesis
    by (auto simp: pool_inv_def pool_start_def Let_def jobs_ok_def cache_ok_def accounted_def set_zip)
qed

lemma reach_inv: "pool_reach ev plan cx cpus pop p \<Longrightarrow> pool_inv ev plan cx pop p"
  by (induction rule: pool_reach.induct) (auto intro: pool_start_inv pool_step_inv)

lemma reach_workers: "pool_reach ev plan cx cpus pop p \<Longrightarrow> length (workers p) = min (length pop) cpus"
proof (induction rule: pool_reach.induct)
  case start
  then show ?case by (simp add: pool_start_def Let_def)
next
  case (step p k)
  then show ?case
    by (cases "worker_step ev plan cx (workers p ! k) p") (simp add: pool_step_def worker_step_work(1))
qed

lemma exited_scores:
  assumes "pool_reach ev plan cx cpus pop p" "all_exited p" "1 \<le> cpus" "i < length pop"
  shows "score_from ev plan cx pop (ev_Fingerprint ev (pop ! i)) (scores p ! i)"
proof -
  have inv: "pool_inv ev plan cx pop p" using assms(1) by (rule reach_inv)
  have ex: "w = Exited" if "w \<in> set (workers p)" for w
    using assms(2) that by (simp add: all_exited_def list_all_iff)
  have "workers p \<noteq> []" using reach_workers [OF assms(1)] assms(3,4) by auto
  then have "Exited \<in> set (workers p)" using ex by (metis list.set_sel(1))
  then have "jobs p = []" using inv by (simp add: pool_inv_def)
  moreover have "accounted ev plan cx pop p i" using inv assms(4) by (simp add: pool_inv_def)
  ultimately show ?thesis using ex by (fastforce simp: accounted_def)
qed

lemma evaluatePopulation_score:
  assumes "1 \<le> cpus"
  shows "length (evaluatePopulation ev plan cpus sched cx pop) = length pop"
    "i < length pop \<Longrightarrow> score_from ev plan cx pop (ev_Fingerprint ev (pop ! i)) (evaluatePopulation ev plan cpus sched cx pop ! i)"
proof -
  let ?p = "drain ev plan cx (foldl (\<lambda>p k. pool_step ev plan cx k p) (pool_start cpus pop) sched)"
  have r: "pool_reach ev plan cx cpus pop ?p" by (intro reach_drain reach_foldl pool_reach.start)
  show "length (evaluatePopulation ev plan cpus sched cx pop) = length pop"
    using reach_inv [OF r] by (simp add: evaluatePopulation_def pool_inv_def)
  show "i < length pop \<Longrightarrow> score_from ev plan cx pop (ev_Fingerprint ev (pop ! i)) (evaluatePopulation ev plan cpus sched cx pop ! i)"
    using exited_scores [OF r drain_exited assms] by (simp add: evaluatePopulation_def)
qed

text \<open>With a live context and no two genes of different fitness under one fingerprint, the scores are
  the fitness values, whatever the schedule.\<close>

definition faithful :: "'g EvolvableStrategy \<Rightarrow> ('g \<Rightarrow> f64) \<Rightarrow> 'g list \<Rightarrow> bool" where
  "faithful ev f pop \<longleftrightarrow> (\<forall>g \<in> set pop. \<forall>h \<in> set pop. ev_Fingerprint ev g = ev_Fingerprint ev h \<longrightarrow> f g = f h)"

lemma evaluatePopulation_live:
  assumes "1 \<le> cpus" "\<And>j g. j < length pop \<Longrightarrow> fst (ev_Evaluate ev (cx j) (pop ! j) plan) = f (pop ! j)" "faithful ev f pop"
  shows "evaluatePopulation ev plan cpus sched cx pop = map f pop"
proof (rule nth_equalityI)
  show "length (evaluatePopulation ev plan cpus sched cx pop) = length (map f pop)"
    by (simp add: evaluatePopulation_score(1) [OF assms(1)])
  fix i assume "i < length (evaluatePopulation ev plan cpus sched cx pop)"
  then have i: "i < length pop" by (simp add: evaluatePopulation_score(1) [OF assms(1)])
  show "evaluatePopulation ev plan cpus sched cx pop ! i = map f pop ! i"
    using evaluatePopulation_score(2) [OF assms(1) i, of ev plan cx sched] assms(2,3) i
    by (auto simp: score_from_def faithful_def)
qed

section \<open>The evolution loop\<close>

record 'g evo_state =
  evo_inds :: "'g individual list"
  bestEver :: f64
  patienceCount :: int
  mutProb :: f64
  mutScale :: f64
  genDone :: int
  evo_rng :: rng
  evo_progress :: "(int \<times> f64 \<times> f64 \<times> f64) list"

definition best_fitness :: "'g evo_state \<Rightarrow> f64" where
  "best_fitness es = fitness (evo_inds es ! 0)"

definition converge :: "'g EvolutionEngine \<Rightarrow> 'g evo_state \<Rightarrow> 'g evo_state" where
  "converge e es = (if best_fitness es - bestEver es < EarlyStopMinDelta e
     then es\<lparr>patienceCount := patienceCount es + 1\<rparr>
     else es\<lparr>bestEver := best_fitness es, patienceCount := 0\<rparr>)"

definition ramp :: "'g EvolutionEngine \<Rightarrow> 'g evo_state \<Rightarrow> 'g evo_state" where
  "ramp e es = (if EarlyStopPatience e \<le> patienceCount es
     then es\<lparr>mutProb := f_min (mutProb es * MutationRampFactor e) (MutationProbabilityMax e),
       mutScale := f_min (mutScale es * MutationRampFactor e) (MutationScaleMax e)\<rparr>
     else es)"

definition report :: "EpochConfig \<Rightarrow> nat \<Rightarrow> 'g evo_state \<Rightarrow> 'g evo_state" where
  "report cfg gen es = (if EcOnProgress cfg
     then es\<lparr>evo_progress := evo_progress es @ [(int gen, best_fitness es, mutProb es, mutScale es)]\<rparr> else es)"

definition exhausted :: "'g EvolutionEngine \<Rightarrow> 'g evo_state \<Rightarrow> bool" where
  "exhausted e es \<longleftrightarrow> EarlyStopPatience e \<le> patienceCount es \<and> MutationProbabilityMax e \<le> mutProb es \<and>
     MutationScaleMax e \<le> mutScale es"

definition elites_of :: "'g EvolutionEngine \<Rightarrow> 'g individual list \<Rightarrow> 'g list" where
  "elites_of e inds = (let eliteN = (if int (length inds) < EliteCount e then int (length inds) else EliteCount e)
     in map (\<lambda>i. gene (inds ! i)) [0..<nat eliteN])"

definition make_child :: "rand_src \<Rightarrow> 'g EvolutionEngine \<Rightarrow> f64 \<Rightarrow> f64 \<Rightarrow> 'g individual list \<Rightarrow> rng \<Rightarrow> 'g \<times> rng" where
  "make_child src e prob scale inds rng =
     (case tournamentSelect src inds (TournamentSize e) rng of (p1, rng) \<Rightarrow>
      case tournamentSelect src inds (TournamentSize e) rng of (p2, rng) \<Rightarrow>
      case ev_Crossover (EnEvolvable e) src p1 p2 rng of (child, rng) \<Rightarrow>
        ev_Mutate (EnEvolvable e) src child prob scale rng)"

function breed :: "rand_src \<Rightarrow> 'g EvolutionEngine \<Rightarrow> f64 \<Rightarrow> f64 \<Rightarrow> 'g individual list \<Rightarrow> int \<Rightarrow> 'g list \<Rightarrow> rng \<Rightarrow> 'g list \<times> rng" where
  "breed src e prob scale inds popSize nextPop rng = (if int (length nextPop) < popSize
     then case make_child src e prob scale inds rng of (child, rng) \<Rightarrow>
       breed src e prob scale inds popSize (nextPop @ [child]) rng
     else (nextPop, rng))"
  by auto
termination
  by (relation "measure (\<lambda>(src, e, prob, scale, inds, popSize, nextPop, rng). nat popSize - length nextPop)") auto

declare breed.simps [simp del]

text \<open>The individuals of population \<open>k\<close>: scored and in order.\<close>

definition ranked :: "'g ga_env \<Rightarrow> 'g EvolutionEngine \<Rightarrow> EvaluablePlan \<Rightarrow> nat \<Rightarrow> 'g list \<Rightarrow> 'g individual list" where
  "ranked env e plan k pop = sortByFitness env (buildIndividuals pop
     (evaluatePopulation (EnEvolvable e) plan (env_cpus env) (env_sched env k) (env_cx env k) pop))"

definition next_generation :: "'g ga_env \<Rightarrow> 'g EvolutionEngine \<Rightarrow> EvaluablePlan \<Rightarrow> int \<Rightarrow> nat \<Rightarrow> 'g evo_state \<Rightarrow> 'g evo_state" where
  "next_generation env e plan popSize gen es =
     (case breed (env_rand env) e (mutProb es) (mutScale es) (evo_inds es) popSize (elites_of e (evo_inds es)) (evo_rng es)
      of (nextPop, rng) \<Rightarrow>
        es\<lparr>evo_inds := ranked env e plan (gen + 1) nextPop, genDone := int gen + 1, evo_rng := rng\<rparr>)"

text \<open>\<open>n\<close> generations are left. The result is \<open>None\<close> where the code would index an empty population.\<close>

primrec evolve :: "'g ga_env \<Rightarrow> 'g EvolutionEngine \<Rightarrow> EpochConfig \<Rightarrow> EvaluablePlan \<Rightarrow> int \<Rightarrow> int \<Rightarrow> nat \<Rightarrow> nat \<Rightarrow>
    'g evo_state \<Rightarrow> 'g evo_state option" where
  "evolve env e cfg plan popSize maxGen 0 gen es = Some (if genDone es = 0 then es\<lparr>genDone := maxGen\<rparr> else es)"
| "evolve env e cfg plan popSize maxGen (Suc n) gen es = (if env_done env gen then Some es
     else let es = report cfg gen (ramp e (converge e es)) in
       if exhausted e es then Some (es\<lparr>genDone := int gen + 1\<rparr>)
       else let es = next_generation env e plan popSize gen es in
         if evo_inds es = [] then None else evolve env e cfg plan popSize maxGen n (gen + 1) es)"

definition evo_start :: "'g EvolutionEngine \<Rightarrow> 'g individual list \<Rightarrow> rng \<Rightarrow> 'g evo_state" where
  "evo_start e inds rng = \<lparr>evo_inds = inds, bestEver = fitness (inds ! 0), patienceCount = 0,
     mutProb = MutationProbability e, mutScale = MutationScale e, genDone = 0, evo_rng = rng, evo_progress = []\<rparr>"

section \<open>The epoch\<close>

datatype ga_error = NilSpawnPoint | PlanFailed | NoWindows | EncodeFailed | WriteFailed | RuntimePanic

definition max_dd :: "CrucibleResult list \<Rightarrow> f64" where
  "max_dd results = foldl (\<lambda>maxDD r. if maxDD < CrMaxDD r then CrMaxDD r else maxDD) 0 results"

definition challenger_record :: "'g ga_env \<Rightarrow> EpochConfig \<Rightarrow> 'g evo_state \<Rightarrow> CrucibleResult list \<Rightarrow> string \<Rightarrow> GeneRecord" where
  "challenger_record env cfg es windowResults paramJSON = \<lparr>GrID = 0, GrCreatedAt = time_zero,
     GrStrategyID = EcStrategyID cfg, GrTaskID = EcTaskID cfg, GrRole = ''challenger'', GrParamPack = paramJSON,
     GrScoreTotal = best_fitness es, GrMaxDrawdown = max_dd windowResults,
     GrWindowScores = env_scores_json env (windowResultsToMap windowResults)\<rparr>"

definition finish_epoch :: "'g ga_env \<Rightarrow> 'g EvolutionEngine \<Rightarrow> EpochConfig \<Rightarrow> EvaluablePlan \<Rightarrow> 'g evo_state \<Rightarrow>
    ga_error + EpochResult" where
  "finish_epoch env e cfg plan es = (let bestGene = gene (evo_inds es ! 0);
       windowResults = snd (ev_Evaluate (EnEvolvable e) (env_final_cx env) bestGene plan)
     in case ev_EncodeResult (EnEvolvable e) bestGene (Some (PlSpawn plan)) of
       None \<Rightarrow> Inl EncodeFailed
     | Some paramJSON \<Rightarrow> (case env_create env (challenger_record env cfg es windowResults paramJSON) of
         None \<Rightarrow> Inl WriteFailed
       | Some recID \<Rightarrow> Inr \<lparr>EpBestScore = best_fitness es, EpGenerations = genDone es, EpChallengerID = recID\<rparr>))"

definition RunEpoch :: "'g ga_env \<Rightarrow> 'g EvolutionEngine \<Rightarrow> EpochConfig \<Rightarrow> ga_error + EpochResult" where
  "RunEpoch env e cfg = (case EcSpawnPointOverride cfg of
     None \<Rightarrow> Inl NilSpawnPoint
   | Some spawn \<Rightarrow>
     let popSize = (if EcPopSize cfg \<le> 0 then EnPopSize e else EcPopSize cfg);
         maxGen = (if EcMaxGenerations cfg \<le> 0 then EnMaxGenerations e else EcMaxGenerations cfg)
     in case buildPlan env e cfg spawn of
       None \<Rightarrow> Inl PlanFailed
     | Some plan \<Rightarrow>
       if PlWindows plan = [] then Inl NoWindows
       else if popSize < 0 then Inl RuntimePanic
       else (case initPopulation env e (EcStrategyID cfg) popSize 0 of (pop, rng) \<Rightarrow>
         case evolve env e cfg plan popSize maxGen (nat maxGen) 0 (evo_start e (ranked env e plan 0 pop) rng) of
           None \<Rightarrow> Inl RuntimePanic
         | Some es \<Rightarrow> finish_epoch env e cfg plan es))"

end
