(* ===== verification/GAEpoch.thy ===== *)
theory GAEpoch
  imports GAEngine
begin

text \<open>
  What an epoch of the genetic algorithm guarantees. The lemmas on populations are proved once in
  the locale \<open>evolvable\<close>, for any strategy that keeps its laws; the properties instantiate them
  with the sigmoid DCA strategy or hold for every strategy.
\<close>

section \<open>Mutation rates\<close>

lemma f_min_val: "\<not> f_nan x \<Longrightarrow> \<not> f_nan y \<Longrightarrow> \<not> f_nan (f_min x y) \<and> f_val (f_min x y) = min (f_val x) (f_val y)"
  by (auto simp: f_min_def f_less_val)

definition rate_ok :: "f64 \<Rightarrow> f64 \<Rightarrow> f64 \<Rightarrow> bool" where
  "rate_ok lo hi x \<longleftrightarrow> f_fin x \<and> lo \<le> x \<and> x \<le> hi"

text \<open>The rates start in their range, and the ramp does not shrink them.\<close>

definition engine_ok :: "'g EvolutionEngine \<Rightarrow> bool" where
  "engine_ok e \<longleftrightarrow> f_fin (MutationProbabilityMax e) \<and> f_fin (MutationScaleMax e) \<and> f_fin (MutationRampFactor e) \<and>
     0 \<le> MutationProbability e \<and> MutationProbability e \<le> MutationProbabilityMax e \<and>
     0 \<le> MutationScale e \<and> MutationScale e \<le> MutationScaleMax e \<and> 1 \<le> MutationRampFactor e"

lemma NewEvolutionEngine_ok: "engine_ok (NewEvolutionEngine ev)"
proof -
  have "f_fin (lit 55 100) \<and> f_fin (lit 3 1) \<and> f_fin (lit 125 100)" "0 \<le> lit 15 100 \<and> lit 15 100 \<le> lit 55 100"
    "0 \<le> lit 1 1 \<and> lit 1 1 \<le> lit 3 1" "1 \<le> lit 125 100"
    by (code_simp, code_simp, code_simp, code_simp)
  then show ?thesis by (simp add: engine_ok_def NewEvolutionEngine_def)
qed

lemma ramp_rate:
  assumes "rate_ok lo hi x" "0 \<le> lo" "f_fin hi" "f_fin r" "1 \<le> r"
  shows "rate_ok lo hi (f_min (x * r) hi) \<and> x \<le> f_min (x * r) hi"
proof -
  have x: "f_fin x" "f_val lo \<le> f_val x" "f_val x \<le> f_val hi" "0 \<le> f_val lo" "1 \<le> f_val r" "\<not> f_nan lo"
    using assms by (auto simp: rate_ok_def dest!: f_leD)
  have p: "\<not> f_nan (x * r)" "f_val (x * r) = R (f_val x * f_val r)"
    using x(1) assms(4) by (simp_all add: f_nan_mul f_val_mul)
  have "f_val x * 1 \<le> f_val x * f_val r" using x by (intro mult_left_mono) auto
  then have g: "f_val x \<le> f_val (x * r)" unfolding p(2) using R_ge_val [OF f_fin_not(1) [OF x(1)]] by simp
  note m = f_min_val [OF p(1) f_fin_not(1) [OF assms(3)]]
  then have "f_fin (f_min (x * r) hi)"
    using f_fin_between [OF _ x(1) assms(3), of "f_min (x * r) hi"] g x by simp
  then show ?thesis
    using m g x f_fin_not(1) [OF x(1)] f_fin_not(1) [OF assms(3)] by (auto simp: rate_ok_def f_le_val)
qed

definition rates_ok :: "'g EvolutionEngine \<Rightarrow> 'g evo_state \<Rightarrow> bool" where
  "rates_ok e es \<longleftrightarrow> rate_ok (MutationProbability e) (MutationProbabilityMax e) (mutProb es) \<and>
     rate_ok (MutationScale e) (MutationScaleMax e) (mutScale es)"

lemma rates_ok_start: "engine_ok e \<Longrightarrow> rates_ok e (evo_start e inds rng)"
proof -
  assume e: "engine_ok e"
  then have "f_fin (MutationProbability e)" "f_fin (MutationScale e)"
    using f_fin_between [of "MutationProbability e" 0 "MutationProbabilityMax e"]
      f_fin_between [of "MutationScale e" 0 "MutationScaleMax e"]
    by (auto simp: engine_ok_def dest!: f_leD)
  then show ?thesis using e by (auto simp: rates_ok_def rate_ok_def evo_start_def engine_ok_def f_le_val dest: f_fin_not)
qed

lemma converge_simps [simp]:
  "evo_inds (converge e es) = evo_inds es" "mutProb (converge e es) = mutProb es" "mutScale (converge e es) = mutScale es"
  "genDone (converge e es) = genDone es" "evo_rng (converge e es) = evo_rng es"
  by (simp_all add: converge_def)

lemma ramp_simps [simp]:
  "evo_inds (ramp e es) = evo_inds es" "patienceCount (ramp e es) = patienceCount es" "bestEver (ramp e es) = bestEver es"
  "genDone (ramp e es) = genDone es" "evo_rng (ramp e es) = evo_rng es"
  by (simp_all add: ramp_def)

lemma report_simps [simp]:
  "evo_inds (report cfg gen es) = evo_inds es" "mutProb (report cfg gen es) = mutProb es"
  "mutScale (report cfg gen es) = mutScale es" "patienceCount (report cfg gen es) = patienceCount es"
  "bestEver (report cfg gen es) = bestEver es" "genDone (report cfg gen es) = genDone es"
  "evo_rng (report cfg gen es) = evo_rng es"
  by (simp_all add: report_def)

lemma rates_ok_ramp:
  assumes "engine_ok e" "rates_ok e es"
  shows "rates_ok e (ramp e es) \<and> mutProb es \<le> mutProb (ramp e es) \<and> mutScale es \<le> mutScale (ramp e es)"
  using assms ramp_rate [of "MutationProbability e" "MutationProbabilityMax e" "mutProb es" "MutationRampFactor e"]
    ramp_rate [of "MutationScale e" "MutationScaleMax e" "mutScale es" "MutationRampFactor e"]
  by (auto simp: rates_ok_def ramp_def engine_ok_def rate_ok_def f_le_val dest: f_fin_not)

section \<open>Populations stay legal\<close>

text \<open>A candidate of a tournament is one of the individuals, and none that was drawn is fitter than
  the winner.\<close>

lemma contest_member:
  assumes "rand_ok src" "inds \<noteq> []" "best \<in> set inds"
  shows "fst (contest src inds n best rng) \<in> set inds"
  using assms(3)
proof (induction n arbitrary: best rng)
  case 0
  then show ?case by simp
next
  case (Suc n)
  have "inds ! r_intn src rng (length inds) \<in> set inds"
    using assms(1,2) by (intro nth_mem) (simp add: rand_ok_def)
  then show ?case using Suc by (simp add: Let_def)
qed

lemma tournament_member:
  assumes "rand_ok src" "inds \<noteq> []"
  shows "fst (tournamentSelect src inds k rng) \<in> gene ` set inds"
proof -
  have "inds ! r_intn src rng (length inds) \<in> set inds"
    using assms by (intro nth_mem) (simp add: rand_ok_def)
  from contest_member [OF assms this] show ?thesis by (simp add: tournamentSelect_def split_beta)
qed

lemma set_ranked:
  assumes "sort_ok (env_sort env)" "1 \<le> env_cpus env"
  shows "mset (map gene (ranked env e plan k pop)) = mset pop"
proof -
  let ?xs = "buildIndividuals pop (evaluatePopulation (EnEvolvable e) plan (env_cpus env) (env_sched env k) (env_cx env k) pop)"
  have "mset (map gene (ranked env e plan k pop)) = mset (map gene ?xs)"
    using assms(1) by (simp add: ranked_def sortByFitness_def sort_ok_def)
  also have "map gene ?xs = pop" by (auto simp: buildIndividuals_def intro: nth_equalityI)
  finally show ?thesis .
qed

lemma ranked_genes:
  assumes "sort_ok (env_sort env)" "1 \<le> env_cpus env"
  shows "gene ` set (ranked env e plan k pop) = set pop" "length (ranked env e plan k pop) = length pop"
proof -
  have "set_mset (mset (map gene (ranked env e plan k pop))) = set pop" by (simp add: set_ranked [OF assms] del: mset_map)
  then show "gene ` set (ranked env e plan k pop) = set pop" by simp
  have "size (mset (map gene (ranked env e plan k pop))) = length pop" by (simp add: set_ranked [OF assms] del: mset_map)
  then show "length (ranked env e plan k pop) = length pop" by simp
qed

lemma elites_of_genes: "set (elites_of e inds) \<subseteq> gene ` set inds" "length (elites_of e inds) \<le> length inds"
  by (auto simp: elites_of_def Let_def)

context evolvable
begin

lemma copy_elites_ok:
  assumes "\<forall>g \<in> set pop. legal g"
  shows "(\<forall>g \<in> set (copy_elites ev elites popSize n i pop). legal g) \<and>
    int (length (copy_elites ev elites popSize n i pop)) \<le> max popSize (int (length pop))"
  using assms
proof (induction n arbitrary: i pop)
  case 0
  then show ?case by simp
next
  case (Suc n)
  let ?pop = "pop @ [ev_DecodeElite ev (GrParamPack (elites ! (i mod length elites)))]"
  have "\<forall>g \<in> set ?pop. legal g" using Suc.prems decode_legal by simp
  note IH = Suc.IH [OF this, of "i + 1"]
  show ?case
  proof (cases "popSize \<le> int (length pop)")
    case True
    then show ?thesis using Suc.prems by simp
  next
    case False
    then show ?thesis using IH by simp
  qed
qed

lemma mutate_elites_ok:
  assumes "rand_ok src" "\<forall>g \<in> set pop. legal g"
  shows "(\<forall>g \<in> set (fst (mutate_elites src ev elites popSize n i pop rng)). legal g) \<and>
    int (length (fst (mutate_elites src ev elites popSize n i pop rng))) \<le> max popSize (int (length pop))"
  using assms(2)
proof (induction n arbitrary: i pop rng)
  case 0
  then show ?case by simp
next
  case (Suc n)
  have f: "f_fin (lit 15 10)" by code_simp
  obtain g rng' where m: "ev_Mutate ev src (ev_DecodeElite ev (GrParamPack (elites ! (i mod length elites)))) (lit 15 100) (lit 15 10) rng = (g, rng')"
    by fastforce
  then have "legal g" using mutate_legal [OF assms(1) decode_legal f] by (metis fst_conv)
  with Suc.prems have "\<forall>g \<in> set (pop @ [g]). legal g" by simp
  note IH = Suc.IH [OF this, of "i + 1" rng']
  show ?case
  proof (cases "popSize \<le> int (length pop)")
    case True
    then show ?thesis using Suc.prems by simp
  next
    case False
    then show ?thesis using IH by (simp add: m)
  qed
qed

lemma fill_random_ok:
  assumes "rand_ok src" "\<forall>g \<in> set pop. legal g"
  shows "(\<forall>g \<in> set (fst (fill_random src ev popSize pop rng)). legal g) \<and>
    int (length (fst (fill_random src ev popSize pop rng))) = max popSize (int (length pop))"
  using assms(2)
proof (induction "nat popSize - length pop" arbitrary: pop rng rule: less_induct)
  case less
  obtain g rng' where m: "ev_Sample ev src rng = (g, rng')" by fastforce
  then have "legal g" using sample_legal [OF assms(1)] by (metis fst_conv)
  with less.prems have l: "\<forall>g \<in> set (pop @ [g]). legal g" by simp
  show ?case
  proof (cases "int (length pop) < popSize")
    case True
    then show ?thesis
      using less.hyps [OF _ l, of rng'] by (subst (1 2) fill_random.simps) (simp add: m)
  next
    case False
    then show ?thesis using less.prems by (subst (1 2) fill_random.simps) simp
  qed
qed

lemma seed_gene_legal: "legal (seed_gene ev elites)"
  by (simp add: seed_gene_def decode_legal split: list.split)

lemma initPopulation_ok:
  assumes "EnEvolvable e = ev" "rand_ok (env_rand env)" "1 \<le> popSize"
  shows "(\<forall>g \<in> set (fst (initPopulation env e sid popSize rng)). legal g) \<and>
    int (length (fst (initPopulation env e sid popSize rng))) = popSize"
proof -
  let ?elites = "env_elites env sid popSize"
  let ?copies = "copy_elites ev ?elites popSize (nat (max 1 ((popSize - 1) * 10 div 100))) 0 [seed_gene ev ?elites]"
  let ?first = "if ?elites \<noteq> [] \<and> 1 < popSize
    then mutate_elites (env_rand env) ev ?elites popSize (nat ((popSize - 1) * 40 div 100)) 0 ?copies rng
    else ([seed_gene ev ?elites], rng)"
  have c: "(\<forall>g \<in> set ?copies. legal g) \<and> int (length ?copies) \<le> max popSize (int (length [seed_gene ev ?elites]))"
    by (rule copy_elites_ok) (simp add: seed_gene_legal)
  have first: "(\<forall>g \<in> set (fst ?first). legal g) \<and> int (length (fst ?first)) \<le> popSize"
    using mutate_elites_ok [OF assms(2), of ?copies ?elites popSize "nat ((popSize - 1) * 40 div 100)" 0 rng] c assms(3)
    by (auto simp: seed_gene_legal)
  have i: "fst (initPopulation env e sid popSize rng) = fst (fill_random (env_rand env) ev popSize (fst ?first) (snd ?first))"
    by (simp only: initPopulation_def assms(1) Let_def split_beta)
  show ?thesis
    unfolding i using fill_random_ok [OF assms(2), of "fst ?first" popSize "snd ?first"] first by simp
qed

lemma make_child_legal:
  assumes "EnEvolvable e = ev" "rand_ok src" "inds \<noteq> []" "\<forall>i \<in> set inds. legal (gene i)" "f_fin scale"
  shows "legal (fst (make_child src e prob scale inds rng))"
proof -
  have t: "legal (fst (tournamentSelect src inds k r))" for k r
    using tournament_member [OF assms(2,3), of k r] assms(4) by auto
  show ?thesis
    unfolding make_child_def split_beta assms(1)
    by (intro mutate_legal [OF assms(2) _ assms(5)] crossover_legal t)
qed

lemma breed_ok:
  assumes "EnEvolvable e = ev" "rand_ok src" "inds \<noteq> []" "\<forall>i \<in> set inds. legal (gene i)" "f_fin scale"
    "\<forall>g \<in> set pop. legal g"
  shows "(\<forall>g \<in> set (fst (breed src e prob scale inds popSize pop rng)). legal g) \<and>
    int (length (fst (breed src e prob scale inds popSize pop rng))) = max popSize (int (length pop))"
  using assms(6)
proof (induction "nat popSize - length pop" arbitrary: pop rng rule: less_induct)
  case less
  obtain g rng' where m: "make_child src e prob scale inds rng = (g, rng')" by fastforce
  then have "legal g" using make_child_legal [OF assms(1-5), of prob rng] by simp
  with less.prems have l: "\<forall>g \<in> set (pop @ [g]). legal g" by simp
  show ?case
  proof (cases "int (length pop) < popSize")
    case True
    then show ?thesis
      using less.hyps [OF _ l, of rng'] by (subst (1 2) breed.simps) (simp add: m)
  next
    case False
    then show ?thesis using less.prems by (subst (1 2) breed.simps) simp
  qed
qed

text \<open>The invariant of the loop.\<close>

definition epoch_inv :: "'g EvolutionEngine \<Rightarrow> int \<Rightarrow> 'g evo_state \<Rightarrow> bool" where
  "epoch_inv e popSize es \<longleftrightarrow> rates_ok e es \<and> int (length (evo_inds es)) = popSize \<and>
     (\<forall>i \<in> set (evo_inds es). legal (gene i))"

lemma next_generation_inv:
  assumes "EnEvolvable e = ev" "rand_ok (env_rand env)" "sort_ok (env_sort env)" "1 \<le> env_cpus env" "1 \<le> popSize"
    "epoch_inv e popSize es"
  shows "epoch_inv e popSize (next_generation env e plan popSize gen es)"
proof -
  from assms(6) have es: "rates_ok e es" "int (length (evo_inds es)) = popSize" "\<forall>i \<in> set (evo_inds es). legal (gene i)"
    by (simp_all add: epoch_inv_def)
  have ne: "evo_inds es \<noteq> []" using es(2) assms(5) by auto
  have fin: "f_fin (mutScale es)" using es(1) by (simp add: rates_ok_def rate_ok_def)
  have el: "\<forall>g \<in> set (elites_of e (evo_inds es)). legal g" "int (length (elites_of e (evo_inds es))) \<le> popSize"
    using elites_of_genes [of e "evo_inds es"] es(2,3) by auto
  obtain pop rng where b: "breed (env_rand env) e (mutProb es) (mutScale es) (evo_inds es) popSize
      (elites_of e (evo_inds es)) (evo_rng es) = (pop, rng)" by fastforce
  have pop: "\<forall>g \<in> set pop. legal g" "int (length pop) = popSize"
    using breed_ok [OF assms(1,2) ne es(3) fin el(1), of "mutProb es" popSize "evo_rng es"] el(2) by (simp_all add: b)
  note r = ranked_genes [OF assms(3,4), of e plan "gen + 1" pop]
  have "legal (gene i)" if "i \<in> set (ranked env e plan (gen + 1) pop)" for i
    using pop(1) that unfolding r(1) [symmetric] by simp
  then show ?thesis using es(1) pop(2) r(2) by (simp add: epoch_inv_def next_generation_def b rates_ok_def)
qed

lemma evolve_inv:
  assumes "EnEvolvable e = ev" "rand_ok (env_rand env)" "sort_ok (env_sort env)" "1 \<le> env_cpus env" "1 \<le> popSize"
    "engine_ok e" "epoch_inv e popSize es"
  shows "\<exists>es'. evolve env e cfg plan popSize maxGen n gen es = Some es' \<and> epoch_inv e popSize es'"
  using assms(7)
proof (induction n arbitrary: gen es)
  case 0
  then show ?case by (simp add: epoch_inv_def rates_ok_def)
next
  case (Suc n)
  let ?es = "report cfg gen (ramp e (converge e es))"
  have "rates_ok e (converge e es)" using Suc.prems by (simp add: epoch_inv_def rates_ok_def)
  from rates_ok_ramp [OF assms(6) this] have e: "epoch_inv e popSize ?es" using Suc.prems by (simp add: epoch_inv_def rates_ok_def)
  have n: "epoch_inv e popSize (next_generation env e plan popSize gen ?es)"
    by (rule next_generation_inv [OF assms(1-5) e])
  then have "evo_inds (next_generation env e plan popSize gen ?es) \<noteq> []" using assms(5) by (auto simp: epoch_inv_def)
  then show ?case using Suc.IH [OF n, of "gen + 1"] e Suc.prems by (simp add: Let_def epoch_inv_def rates_ok_def)
qed

lemma evo_start_inv:
  assumes "sort_ok (env_sort env)" "1 \<le> env_cpus env" "engine_ok e" "\<forall>g \<in> set pop. legal g"
  shows "epoch_inv e (int (length pop)) (evo_start e (ranked env e plan 0 pop) rng)"
proof -
  note r = ranked_genes [OF assms(1,2), of e plan 0 pop]
  have "legal (gene i)" if "i \<in> set (ranked env e plan 0 pop)" for i
    using assms(4) that unfolding r(1) [symmetric] by simp
  then show ?thesis using rates_ok_start [OF assms(3)] r(2) by (simp add: epoch_inv_def) (simp add: evo_start_def)
qed

end

section \<open>The visited states\<close>

text \<open>The states at the head of the loop, the one at which it ends included.\<close>

primrec run_trace :: "'g ga_env \<Rightarrow> 'g EvolutionEngine \<Rightarrow> EpochConfig \<Rightarrow> EvaluablePlan \<Rightarrow> int \<Rightarrow> nat \<Rightarrow> nat \<Rightarrow>
    'g evo_state \<Rightarrow> 'g evo_state list" where
  "run_trace env e cfg plan popSize 0 gen es = [es]"
| "run_trace env e cfg plan popSize (Suc n) gen es = es # (if env_done env gen then []
     else let es = report cfg gen (ramp e (converge e es)) in
       if exhausted e es then []
       else let es = next_generation env e plan popSize gen es in
         if evo_inds es = [] then [] else run_trace env e cfg plan popSize n (gen + 1) es)"

lemma run_trace_head: "es \<in> set (run_trace env e cfg plan popSize n gen es)"
  by (cases n) simp_all

lemma run_trace_last:
  "evolve env e cfg plan popSize maxGen n gen es = Some es' \<Longrightarrow>
     evo_inds es' = evo_inds (last (run_trace env e cfg plan popSize n gen es))"
proof (induction n arbitrary: gen es)
  case 0
  then show ?case by (auto split: if_splits)
next
  case (Suc n)
  have "run_trace env e cfg plan popSize n (gen + 1) es \<noteq> []" for es by (cases n) simp_all
  then show ?case using Suc by (auto simp: Let_def split: if_splits)
qed

section \<open>Elitism\<close>

text \<open>Every individual carries the fitness of its gene, and the best comes first.\<close>

definition sound :: "('g \<Rightarrow> f64) \<Rightarrow> 'g individual list \<Rightarrow> bool" where
  "sound f inds \<longleftrightarrow> inds \<noteq> [] \<and> descending inds \<and> (\<forall>i \<in> set inds. fitness i = f (gene i) \<and> \<not> f_nan (fitness i))"

lemma sound_best: "sound f inds \<Longrightarrow> i \<in> set inds \<Longrightarrow> \<not> fitness (inds ! 0) < fitness i"
  by (cases inds) (auto simp: sound_def descending_def less_f64_def)

definition live_fitness :: "'g EvolutionEngine \<Rightarrow> EvaluablePlan \<Rightarrow> 'g \<Rightarrow> f64" where
  "live_fitness e plan g = fst (ev_Evaluate (EnEvolvable e) (\<lambda>_. False) g plan)"

lemma ranked_sound:
  assumes "sort_ok (env_sort env)" "1 \<le> env_cpus env" "env_cx env = (\<lambda>_ _ _. False)" "pop \<noteq> []"
    "faithful (EnEvolvable e) (live_fitness e plan) pop" "\<forall>g \<in> set pop. \<not> f_nan (live_fitness e plan g)"
  shows "sound (live_fitness e plan) (ranked env e plan k pop)"
proof -
  let ?f = "live_fitness e plan"
  let ?xs = "buildIndividuals pop (map ?f pop)"
  have "evaluatePopulation (EnEvolvable e) plan (env_cpus env) (env_sched env k) (env_cx env k) pop = map ?f pop"
    by (rule evaluatePopulation_live [OF assms(2) _ assms(5)]) (simp add: assms(3) live_fitness_def)
  then have r: "ranked env e plan k pop = env_sort env ?xs" by (simp add: ranked_def sortByFitness_def)
  have xs: "\<forall>i \<in> set ?xs. fitness i = ?f (gene i) \<and> \<not> f_nan (fitness i)"
    using assms(6) by (auto simp: buildIndividuals_def)
  have m: "mset (env_sort env ?xs) = mset ?xs" "descending (env_sort env ?xs)"
    using assms(1) xs unfolding sort_ok_def by blast+
  have "set (env_sort env ?xs) = set ?xs" using m(1) by (rule mset_eq_setD)
  moreover have "length (env_sort env ?xs) = length pop" using mset_eq_length [OF m(1)] by (simp add: buildIndividuals_def)
  ultimately show ?thesis using m(2) xs assms(4) by (auto simp: sound_def r)
qed

lemma faithful_set: "set xs = set ys \<Longrightarrow> faithful ev f xs = faithful ev f ys"
  by (simp add: faithful_def)

lemma breed_extends: "\<exists>rest. fst (breed src e prob scale inds popSize pop rng) = pop @ rest"
proof (induction "nat popSize - length pop" arbitrary: pop rng rule: less_induct)
  case less
  obtain g rng' where m: "make_child src e prob scale inds rng = (g, rng')" by fastforce
  show ?case
  proof (cases "int (length pop) < popSize")
    case True
    then obtain rest where r: "fst (breed src e prob scale inds popSize (pop @ [g]) rng') = (pop @ [g]) @ rest"
      using less [of "pop @ [g]" rng'] by fastforce
    have "fst (breed src e prob scale inds popSize pop rng) = pop @ (g # rest)"
      using True r by (subst breed.simps) (simp add: m)
    then show ?thesis by blast
  next
    case False
    then show ?thesis by (subst breed.simps) simp
  qed
qed

lemma next_generation_best:
  fixes popSize :: int and gen :: nat
  assumes "sort_ok (env_sort env)" "1 \<le> env_cpus env" "env_cx env = (\<lambda>_ _ _. False)" "1 \<le> EliteCount e"
    "sound (live_fitness e plan) (evo_inds es)"
  defines "es' \<equiv> next_generation env e plan popSize gen es"
  assumes "faithful (EnEvolvable e) (live_fitness e plan) (map gene (evo_inds es'))"
    "\<forall>i \<in> set (evo_inds es'). \<not> f_nan (live_fitness e plan (gene i))"
  shows "sound (live_fitness e plan) (evo_inds es') \<and> \<not> best_fitness es' < best_fitness es"
proof -
  let ?inds = "evo_inds es"
  obtain pop rng where b: "breed (env_rand env) e (mutProb es) (mutScale es) ?inds popSize
      (elites_of e ?inds) (evo_rng es) = (pop, rng)" by fastforce
  have es': "evo_inds es' = ranked env e plan (gen + 1) pop" by (simp add: es'_def next_generation_def b)
  note g = ranked_genes(1) [OF assms(1,2), of e plan "gen + 1" pop]
  have ne: "?inds \<noteq> []" using assms(5) by (simp add: sound_def)
  have "gene (?inds ! 0) \<in> set (elites_of e ?inds)"
    using ne assms(4) by (auto simp: elites_of_def Let_def image_iff intro!: bexI [of _ 0])
  then have top: "gene (?inds ! 0) \<in> set pop"
    using breed_extends [of "env_rand env" e "mutProb es" "mutScale es" ?inds popSize "elites_of e ?inds" "evo_rng es"]
    by (auto simp: b)
  have "set (map gene (evo_inds es')) = set pop" using g by (simp add: es')
  from faithful_set [OF this] have "faithful (EnEvolvable e) (live_fitness e plan) pop" using assms(7) by simp
  moreover have "\<not> f_nan (live_fitness e plan h)" if "h \<in> set pop" for h
    using assms(8) that unfolding es' g [symmetric] by auto
  ultimately have s: "sound (live_fitness e plan) (evo_inds es')"
    unfolding es' using top by (intro ranked_sound assms(1-3)) auto
  have "gene (?inds ! 0) \<in> gene ` set (evo_inds es')" using top g by (simp add: es')
  then obtain i where i: "i \<in> set (evo_inds es')" "gene i = gene (?inds ! 0)" by (metis imageE)
  have "fitness i = live_fitness e plan (gene (?inds ! 0))" using s i by (simp add: sound_def)
  also have "\<dots> = fitness (?inds ! 0)" using assms(5) ne by (simp add: sound_def)
  finally show ?thesis using s sound_best [OF s i(1)] by (simp add: best_fitness_def)
qed

lemma sound_converge [simp]: "best_fitness (report cfg gen (ramp e (converge e es))) = best_fitness es"
  by (simp add: best_fitness_def)

lemma sound_not_nan: "sound f (evo_inds es) \<Longrightarrow> \<not> f_nan (best_fitness es)"
  by (cases "evo_inds es") (auto simp: sound_def best_fitness_def)

lemma run_trace_elitism:
  assumes "sort_ok (env_sort env)" "1 \<le> env_cpus env" "env_cx env = (\<lambda>_ _ _. False)" "1 \<le> EliteCount e"
    "sound (live_fitness e plan) (evo_inds es)"
    "\<forall>x \<in> set (run_trace env e cfg plan popSize n gen es). faithful (EnEvolvable e) (live_fitness e plan) (map gene (evo_inds x)) \<and>
       (\<forall>i \<in> set (evo_inds x). \<not> f_nan (live_fitness e plan (gene i)))"
  shows "\<forall>x \<in> set (run_trace env e cfg plan popSize n gen es). sound (live_fitness e plan) (evo_inds x) \<and>
      \<not> best_fitness x < best_fitness es"
    "sorted_wrt (\<lambda>x y. \<not> best_fitness y < best_fitness x) (run_trace env e cfg plan popSize n gen es)"
proof -
  have "(\<forall>x \<in> set (run_trace env e cfg plan popSize n gen es). sound (live_fitness e plan) (evo_inds x) \<and>
      \<not> best_fitness x < best_fitness es) \<and>
    sorted_wrt (\<lambda>x y. \<not> best_fitness y < best_fitness x) (run_trace env e cfg plan popSize n gen es)"
    using assms(5,6)
  proof (induction n arbitrary: gen es)
    case 0
    then show ?case by (simp add: less_f64_def)
  next
    case (Suc n)
    let ?es = "report cfg gen (ramp e (converge e es))"
    let ?next = "next_generation env e plan popSize gen ?es"
    have irr: "\<not> best_fitness es < best_fitness es" by (simp add: less_f64_def)
    show ?case
    proof (cases "env_done env gen \<or> exhausted e ?es \<or> evo_inds ?next = []")
      case True
      then show ?thesis using Suc.prems(1) irr by (auto simp: Let_def)
    next
      case False
      then have t: "run_trace env e cfg plan popSize (Suc n) gen es =
          es # run_trace env e cfg plan popSize n (gen + 1) ?next" by (simp add: Let_def)
      have p: "\<forall>x \<in> set (run_trace env e cfg plan popSize n (gen + 1) ?next).
          faithful (EnEvolvable e) (live_fitness e plan) (map gene (evo_inds x)) \<and>
          (\<forall>i \<in> set (evo_inds x). \<not> f_nan (live_fitness e plan (gene i)))"
        using Suc.prems(2) unfolding t by simp
      have s: "sound (live_fitness e plan) (evo_inds ?es)" using Suc.prems(1) by simp
      from next_generation_best [OF assms(1-4) s, of popSize gen] p run_trace_head [of ?next]
      have nx: "sound (live_fitness e plan) (evo_inds ?next)" "\<not> best_fitness ?next < best_fitness ?es" by blast+
      note IH = Suc.IH [OF nx(1) p]
      have "\<not> best_fitness x < best_fitness es" if "x \<in> set (run_trace env e cfg plan popSize n (gen + 1) ?next)" for x
        using IH that nx(2) sound_not_nan [OF Suc.prems(1)] sound_not_nan [OF nx(1)] sound_not_nan [of _ x]
        by (fastforce simp: f_less_val)
      then show ?thesis unfolding t using IH Suc.prems(1) irr by simp
    qed
  qed
  then show "\<forall>x \<in> set (run_trace env e cfg plan popSize n gen es). sound (live_fitness e plan) (evo_inds x) \<and>
      \<not> best_fitness x < best_fitness es"
    "sorted_wrt (\<lambda>x y. \<not> best_fitness y < best_fitness x) (run_trace env e cfg plan popSize n gen es)" by auto
qed

section \<open>Early stop\<close>

text \<open>The counters of a run that does not improve: patience and the two rates after \<open>k\<close> generations.\<close>

definition stall :: "'g EvolutionEngine \<Rightarrow> int \<times> f64 \<times> f64 \<Rightarrow> int \<times> f64 \<times> f64" where
  "stall e = (\<lambda>(c, p, s). if EarlyStopPatience e \<le> c + 1
     then (c + 1, f_min (p * MutationRampFactor e) (MutationProbabilityMax e), f_min (s * MutationRampFactor e) (MutationScaleMax e))
     else (c + 1, p, s))"

primrec stalled :: "'g EvolutionEngine \<Rightarrow> nat \<Rightarrow> int \<times> f64 \<times> f64" where
  "stalled e 0 = (0, MutationProbability e, MutationScale e)"
| "stalled e (Suc k) = stall e (stalled e k)"

definition stall_stops :: "'g EvolutionEngine \<Rightarrow> int \<times> f64 \<times> f64 \<Rightarrow> bool" where
  "stall_stops e = (\<lambda>(c, p, s). EarlyStopPatience e \<le> c \<and> MutationProbabilityMax e \<le> p \<and> MutationScaleMax e \<le> s)"

definition counters :: "'g evo_state \<Rightarrow> int \<times> f64 \<times> f64" where
  "counters es = (patienceCount es, mutProb es, mutScale es)"

lemma counters_stall:
  "best_fitness es - bestEver es < EarlyStopMinDelta e \<Longrightarrow>
     counters (report cfg gen (ramp e (converge e es))) = stall e (counters es) \<and>
     bestEver (report cfg gen (ramp e (converge e es))) = bestEver es"
  by (simp add: counters_def converge_def ramp_def report_def stall_def)

lemma next_generation_simps [simp]:
  "bestEver (next_generation env e plan popSize gen es) = bestEver es"
  "counters (next_generation env e plan popSize gen es) = counters es"
  "genDone (next_generation env e plan popSize gen es) = int gen + 1"
  by (simp_all add: next_generation_def counters_def split_beta)

lemma exhausted_stall: "exhausted e es \<longleftrightarrow> stall_stops e (counters es)"
  by (simp add: exhausted_def stall_stops_def counters_def)

lemma evolve_stalled:
  assumes "\<And>k. k < stop \<Longrightarrow> \<not> stall_stops e (stalled e (Suc k))" "stall_stops e (stalled e (Suc stop))"
    "gen \<le> stop" "stop < gen + n" "\<forall>k \<le> stop. \<not> env_done env k" "counters es = stalled e gen" "bestEver es = b"
    "\<forall>x \<in> set (run_trace env e cfg plan popSize n gen es). best_fitness x - b < EarlyStopMinDelta e"
    "evolve env e cfg plan popSize maxGen n gen es = Some es'"
  shows "genDone es' = int stop + 1"
  using assms(3-4,6-9)
proof (induction n arbitrary: gen es)
  case 0
  then show ?case by simp
next
  case (Suc n)
  let ?es = "report cfg gen (ramp e (converge e es))"
  let ?next = "next_generation env e plan popSize gen ?es"
  have d: "\<not> env_done env gen" using assms(5) Suc.prems(1) by simp
  have c: "counters ?es = stalled e (Suc gen)" "bestEver ?es = b"
    using counters_stall [of es e cfg gen] run_trace_head [of es] Suc.prems(3-5) by auto
  show ?case
  proof (cases "exhausted e ?es")
    case True
    then have "gen = stop" using assms(1) [of gen] Suc.prems(1) by (auto simp: exhausted_stall c le_less)
    then show ?thesis using Suc.prems(6) True d by (auto simp: Let_def)
  next
    case False
    then have ne: "evo_inds ?next \<noteq> []" using Suc.prems(6) d by (auto simp: Let_def split: if_splits)
    have "gen \<noteq> stop" using False assms(2) by (auto simp: exhausted_stall c)
    then have g: "gen + 1 \<le> stop" using Suc.prems(1) by simp
    show ?thesis
    proof (rule Suc.IH [OF g])
      show "stop < gen + 1 + n" using Suc.prems(2) by simp
      show "counters ?next = stalled e (gen + 1)" "bestEver ?next = b" using c by simp_all
      show "\<forall>x \<in> set (run_trace env e cfg plan popSize n (gen + 1) ?next). best_fitness x - b < EarlyStopMinDelta e"
        using Suc.prems(5) False d ne by (simp add: Let_def)
      show "evolve env e cfg plan popSize maxGen n (gen + 1) ?next = Some es'"
        using Suc.prems(6) False d ne by (simp add: Let_def)
    qed
  qed
qed

text \<open>The counters of \<open>n\<close> further generations, in one pass.\<close>

primrec stall_run :: "'g EvolutionEngine \<Rightarrow> nat \<Rightarrow> int \<times> f64 \<times> f64 \<Rightarrow> (int \<times> f64 \<times> f64) list" where
  "stall_run e 0 c = []"
| "stall_run e (Suc n) c = (let c = stall e c in c # stall_run e n c)"

lemma stall_run_nth: "k < n \<Longrightarrow> stall_run e n (stalled e i) ! k = stalled e (i + k + 1)"
proof (induction n arbitrary: i k)
  case 0
  then show ?case by simp
next
  case (Suc n)
  have "stall e (stalled e i) = stalled e (Suc i)" by simp
  then show ?case
    using Suc.IH [of _ "Suc i"] Suc.prems by (cases k) (simp_all add: Let_def del: stalled.simps)
qed

lemma stall_run_length [simp]: "length (stall_run e n c) = n"
  by (induction n arbitrary: c) (simp_all add: Let_def)

lemma default_stall:
  "map (stall_stops (NewEvolutionEngine ev)) (stall_run (NewEvolutionEngine ev) 10 (stalled (NewEvolutionEngine ev) 0)) =
     [False, False, False, False, False, False, False, False, False, True]"
  by code_simp

lemma evolve_generations:
  assumes "0 \<le> genDone es" "genDone es \<le> int gen" "int gen + int n \<le> maxGen"
    "evolve env e cfg plan popSize maxGen n gen es = Some es'"
  shows "0 \<le> genDone es' \<and> genDone es' \<le> maxGen"
  using assms
proof (induction n arbitrary: gen es)
  case 0
  then show ?case by (auto split: if_splits)
next
  case (Suc n)
  let ?next = "next_generation env e plan popSize gen (report cfg gen (ramp e (converge e es)))"
  have "0 \<le> genDone ?next" "genDone ?next \<le> int (gen + 1)" "int (gen + 1) + int n \<le> maxGen" using Suc.prems(3) by simp_all
  note IH = Suc.IH [OF this]
  show ?case using Suc.prems IH by (auto simp: Let_def split: if_splits)
qed

section \<open>Properties\<close>


text \<open>C28. The workers of \<open>evaluatePopulation\<close> terminate, under every schedule: any worker still in its
  loop can move (no worker waits for another), every move takes at least one unit from a supply
  of at most five per gene and one per worker, and the rest of a run, once scheduled, ends with
  all workers out of their loop.\<close>

theorem workers_terminate:
  assumes "pool_reach ev plan cx cpus pop p"
  shows "(\<forall>k < length (workers p). workers p ! k \<noteq> Exited \<longrightarrow>
      pool_work (pool_step ev plan cx k p) < pool_work p) \<and>
    pool_work (pool_start cpus pop) \<le> 5 * length pop + cpus \<and> all_exited (drain ev plan cx p) \<and>
    length (workers p) = min (length pop) cpus"
proof -
  have "sum_list (map worker_work (replicate k (Ready :: 'a worker))) = k" for k by (induction k) simp_all
  then have "pool_work (pool_start cpus pop) \<le> 5 * length pop + cpus"
    by (auto simp: pool_work_def pool_start_def Let_def)
  then show ?thesis using pool_step_work drain_exited reach_workers [OF assms] by blast
qed

text \<open>C18. An epoch of the sigmoid DCA engine never leaves the search space: from any database content,
  random source and schedule, for any population size and number of generations, the loop ends
  without a panic, with a population of exactly the requested size, every gene of which is a
  legal chromosome, and with mutation rates between their initial and maximal values.\<close>

theorem epoch_in_search_space:
  fixes m j
  defines "e \<equiv> NewEvolutionEngine (NewSigmoidDCAEvolvable m j)"
  assumes "json_ok j" "rand_ok (env_rand env)" "sort_ok (env_sort env)" "1 \<le> env_cpus env" "1 \<le> popSize"
    "initPopulation env e sid popSize rng = (pop, rng')"
  shows "\<exists>es. evolve env e cfg plan popSize maxGen n gen (evo_start e (ranked env e plan 0 pop) rng') = Some es \<and>
    int (length (evo_inds es)) = popSize \<and> (\<forall>i \<in> set (evo_inds es). legal_chromosome (gene i)) \<and>
    MutationProbability e \<le> mutProb es \<and> mutProb es \<le> MutationProbabilityMax e \<and>
    MutationScale e \<le> mutScale es \<and> mutScale es \<le> MutationScaleMax e"
proof -
  have ev: "EnEvolvable e = NewSigmoidDCAEvolvable m j" by (simp add: e_def NewEvolutionEngine_def)
  have ok: "engine_ok e" unfolding e_def by (rule NewEvolutionEngine_ok)
  have pop: "\<forall>g \<in> set pop. json_ok j \<longrightarrow> legal_chromosome g" "int (length pop) = popSize"
    using sdca.initPopulation_ok [OF ev assms(3,6), of sid rng] assms(7) by (simp_all del: initPopulation_def)
  from sdca.evolve_inv [OF ev assms(3-6) ok sdca.evo_start_inv [OF assms(4,5) ok pop(1), unfolded pop(2)]] assms(2)
  show ?thesis unfolding sdca.epoch_inv_def rates_ok_def rate_ok_def by blast
qed



lemma windows_empty: "BuildCrucibleWindows bars d = [] \<longleftrightarrow> bars = []"
  by (cases bars) (auto simp: BuildCrucibleWindows_def crucible_specs_def crucible_window_def eval_start_def Let_def)

lemma buildPlan_cases:
  "buildPlan env e cfg spawn = None \<longleftrightarrow> env_klines env (EcSymbol cfg) (EcInterval cfg) = None"
  "buildPlan env e cfg spawn = Some plan \<Longrightarrow> PlSpawn plan = spawn \<and>
     (PlWindows plan = [] \<longleftrightarrow> env_klines env (EcSymbol cfg) (EcInterval cfg) = Some [])"
  by (auto simp: buildPlan_def Let_def windows_empty klinesToBars_def split: option.splits)

lemma finish_epoch_sdca:
  assumes "json_ok j" "EnEvolvable e = NewSigmoidDCAEvolvable m j" "legal_chromosome (gene (evo_inds es ! 0))"
    "pack_plain \<lparr>PpSpawnPoint = PlSpawn plan, PpConfig = DefaultSeedChromosome\<rparr>"
  shows "\<exists>rec. GrRole rec = ''challenger'' \<and> GrStrategyID rec = EcStrategyID cfg \<and> GrTaskID rec = EcTaskID cfg \<and>
    GrScoreTotal rec = best_fitness es \<and> DecodeElite j (GrParamPack rec) = gene (evo_inds es ! 0) \<and>
    DecodeSpawnFromParamPack j (GrParamPack rec) = PlSpawn plan \<and>
    finish_epoch env e cfg plan es = (case env_create env rec of None \<Rightarrow> Inl WriteFailed
      | Some k \<Rightarrow> Inr \<lparr>EpBestScore = best_fitness es, EpGenerations = genDone es, EpChallengerID = k\<rparr>)"
proof -
  let ?c = "gene (evo_inds es ! 0)"
  have "pack_plain \<lparr>PpSpawnPoint = PlSpawn plan, PpConfig = ?c\<rparr>"
    using assms(4) legal_fin [OF assms(3)] by (simp add: pack_plain_def Let_def)
  then obtain s where s: "j_marshal j \<lparr>PpSpawnPoint = PlSpawn plan, PpConfig = ?c\<rparr> = Some s" "s \<noteq> []"
      "j_unmarshal j s = (\<lparr>PpSpawnPoint = PlSpawn plan, PpConfig = ?c\<rparr>, True)"
    using assms(1) unfolding json_ok_def by blast
  define rec where "rec = challenger_record env cfg es
    (snd (ev_Evaluate (EnEvolvable e) (env_final_cx env) ?c plan)) s"
  have "ev_EncodeResult (EnEvolvable e) ?c (Some (PlSpawn plan)) = Some s"
    by (simp add: assms(2) NewSigmoidDCAEvolvable_def EncodeResult_def s)
  then have "finish_epoch env e cfg plan es = (case env_create env rec of None \<Rightarrow> Inl WriteFailed
      | Some k \<Rightarrow> Inr \<lparr>EpBestScore = best_fitness es, EpGenerations = genDone es, EpChallengerID = k\<rparr>)"
    by (simp add: finish_epoch_def rec_def Let_def)
  moreover have "DecodeElite j s = ?c" "DecodeSpawnFromParamPack j s = PlSpawn plan"
    using s assms(3) by (simp_all add: DecodeElite_def DecodeSpawnFromParamPack_def ClampChromosome_id)
  ultimately show ?thesis by (intro exI [of _ rec]) (simp add: rec_def challenger_record_def)
qed

text \<open>Past the plan the run reaches the end of the epoch.\<close>

lemma sdca_reaches_end:
  fixes m j
  defines "e \<equiv> NewEvolutionEngine (NewSigmoidDCAEvolvable m j)"
  assumes "json_ok j" "rand_ok (env_rand env)" "sort_ok (env_sort env)" "1 \<le> env_cpus env"
    "EcSpawnPointOverride cfg = Some spawn" "buildPlan env e cfg spawn = Some plan" "PlWindows plan \<noteq> []"
  shows "\<exists>es. RunEpoch env e cfg = finish_epoch env e cfg plan es \<and> legal_chromosome (gene (evo_inds es ! 0)) \<and>
    0 \<le> genDone es \<and> genDone es \<le> (if EcMaxGenerations cfg \<le> 0 then 25 else EcMaxGenerations cfg)"
proof -
  have ev: "EnEvolvable e = NewSigmoidDCAEvolvable m j" and ps: "EnPopSize e = 300" "EnMaxGenerations e = 25"
    by (simp_all add: e_def NewEvolutionEngine_def)
  have ok: "engine_ok e" unfolding e_def by (rule NewEvolutionEngine_ok)
  let ?ps = "if EcPopSize cfg \<le> 0 then EnPopSize e else EcPopSize cfg"
  let ?mg = "if EcMaxGenerations cfg \<le> 0 then EnMaxGenerations e else EcMaxGenerations cfg"
  have p1: "1 \<le> ?ps" by (simp add: ps)
  obtain pop rng where i: "initPopulation env e (EcStrategyID cfg) ?ps 0 = (pop, rng)" by fastforce
  let ?start = "evo_start e (ranked env e plan 0 pop) rng"
  have pop: "\<forall>g \<in> set pop. json_ok j \<longrightarrow> legal_chromosome g" "int (length pop) = ?ps"
    using sdca.initPopulation_ok [OF ev assms(3) p1, of "EcStrategyID cfg" 0] unfolding i by simp_all
  from sdca.evolve_inv [OF ev assms(3-5) p1 ok sdca.evo_start_inv [OF assms(4,5) ok pop(1), unfolded pop(2)]]
  obtain es where es: "evolve env e cfg plan ?ps ?mg (nat ?mg) 0 ?start = Some es" "sdca.epoch_inv j e ?ps es" by blast
  have inv: "int (length (evo_inds es)) = ?ps" "\<forall>i \<in> set (evo_inds es). json_ok j \<longrightarrow> legal_chromosome (gene i)"
    using es(2) unfolding sdca.epoch_inv_def by blast+
  from inv(1) p1 have "0 < length (evo_inds es)" by linarith
  then have "legal_chromosome (gene (evo_inds es ! 0))" using inv(2) assms(2) by simp
  moreover have "0 \<le> genDone es \<and> genDone es \<le> ?mg"
    by (rule evolve_generations [OF _ _ _ es(1)]) (simp_all add: evo_start_def ps)
  moreover have "RunEpoch env e cfg = finish_epoch env e cfg plan es"
    using p1 assms(8) es(1) i by (simp add: RunEpoch_def assms(6,7) Let_def)
  ultimately show ?thesis unfolding ps by blast
qed


section \<open>Witnesses\<close>

text \<open>A strategy with one bit of fitness, and surroundings in which nothing fails.\<close>

definition coin :: "nat EvolvableStrategy" where
  "coin = \<lparr>ev_StrategyID = ''coin'', ev_Sample = \<lambda>src k. (r_intn src k 3, k + 1),
     ev_Mutate = \<lambda>src g prob scale k. ((g + k) mod 3, k + 1), ev_Crossover = \<lambda>src g h k. (max g h, k + 1),
     ev_Fingerprint = \<lambda>g. if g = 0 then 0 else 1, ev_Evaluate = \<lambda>cx g plan. (if g = 0 then 0 else 1, []),
     ev_DecodeElite = \<lambda>_. 0, ev_EncodeResult = \<lambda>g sp. Some ''{}''\<rparr>"

definition calm_env :: "KLine list option \<Rightarrow> 'g ga_env" where
  "calm_env klines = \<lparr>env_rand = quarter_src, env_cpus = 2, env_sort = sort_key (\<lambda>i. - f_val (fitness i)),
     env_klines = \<lambda>_ _. klines, env_elites = \<lambda>_ _. [], env_create = \<lambda>_. Some 7, env_scores_json = \<lambda>_. ''{}'',
     env_sched = \<lambda>_. [1, 0, 0, 1], env_cx = \<lambda>_ _ _. False, env_done = \<lambda>_. False, env_final_cx = \<lambda>_. False\<rparr>"

definition empty_config :: EpochConfig where
  "empty_config = \<lparr>EcStrategyID = 1, EcTaskID = 2, EcSymbol = ''BTCUSDT'', EcInterval = ''1d'', EcPopSize = 0,
     EcMaxGenerations = 3, EcLotStep = 0, EcLotMin = 0, EcSpawnPointOverride = Some zero_spawn, EcOnProgress = True\<rparr>"

lemma sort_key_ok: "sort_ok (sort_key (\<lambda>i. - f_val (fitness i)))"
proof -
  have "descending (sort_key (\<lambda>i. - f_val (fitness i)) is)" if "\<forall>i \<in> set is. \<not> f_nan (fitness i)" for "is" :: "'a individual list"
  proof -
    have "sorted (map (\<lambda>i. - f_val (fitness i)) (sort_key (\<lambda>i. - f_val (fitness i)) is))" by simp
    then have "sorted_wrt (\<lambda>x y. - f_val (fitness x) \<le> - f_val (fitness y)) (sort_key (\<lambda>i. - f_val (fitness i)) is)"
      by (simp only: sorted_wrt_map)
    then show ?thesis
      unfolding descending_def by (rule sorted_wrt_mono_rel [rotated]) (use that in \<open>simp add: f_less_val\<close>)
  qed
  then show ?thesis by (simp add: sort_ok_def)
qed

lemma calm_env_ok: "sort_ok (env_sort (calm_env k))" "1 \<le> env_cpus (calm_env k)" "rand_ok (env_rand (calm_env k))"
  "env_cx (calm_env k) = (\<lambda>_ _ _. False)"
  by (simp_all add: calm_env_def sort_key_ok quarter_src_ok)

lemma coin_verbs: "ev_Fingerprint coin g = (if g = 0 then 0 else 1)" "fst (ev_Evaluate coin cx g plan) = (if g = 0 then 0 else 1)"
  by (simp_all add: coin_def)

lemma coin_evolvable: "evolvable coin (\<lambda>_. True)"
  by unfold_locales simp_all

lemma coin_fitness: "live_fitness (NewEvolutionEngine coin) plan g = (if g = 0 then 0 else 1)"
  by (simp add: live_fitness_def NewEvolutionEngine_def coin_def)

lemma coin_faithful:
  "faithful (EnEvolvable (NewEvolutionEngine coin)) (live_fitness (NewEvolutionEngine coin) plan) pop \<and>
   \<not> f_nan (live_fitness (NewEvolutionEngine coin) plan g)"
proof -
  have fp: "ev_Fingerprint (EnEvolvable (NewEvolutionEngine coin)) g = (if g = 0 then 0 else 1)" for g
    by (simp add: NewEvolutionEngine_def coin_def)
  have "(0 :: f64) \<noteq> 1" using f_val_1 f_nan_0(3) by (metis zero_neq_one)
  then show ?thesis by (auto simp: faithful_def coin_fitness fp split: if_splits)
qed

lemma coin_run:
  assumes "1 \<le> length pop"
  shows "\<exists>es. evolve (calm_env k) (NewEvolutionEngine coin) cfg plan (int (length pop)) maxGen n gen
    (evo_start (NewEvolutionEngine coin) (ranked (calm_env k) (NewEvolutionEngine coin) plan 0 pop) rng) = Some es"
proof -
  have e: "EnEvolvable (NewEvolutionEngine coin) = coin" by (simp add: NewEvolutionEngine_def)
  from evolvable.evolve_inv [OF coin_evolvable e calm_env_ok(3,1,2) _ NewEvolutionEngine_ok
      evolvable.evo_start_inv [OF coin_evolvable calm_env_ok(1,2) NewEvolutionEngine_ok]] assms
  show ?thesis by fastforce
qed


theorem workers_terminate_witness:
  "pool_work (pool_step coin empty_plan (\<lambda>_ _. False) 1 (pool_start 2 [0, 1, 2])) < pool_work (pool_start 2 [0, 1, 2 :: nat]) \<and>
   pool_work (pool_start 2 [0, 1, 2 :: nat]) \<le> 17"
proof -
  have "workers (pool_start 2 [0, 1, 2 :: nat]) = [Ready, Ready]" by (simp add: pool_start_def Let_def numeral_eq_Suc)
  then show ?thesis using workers_terminate [OF pool_reach.start [of coin empty_plan "\<lambda>_ _. False" 2 "[0, 1, 2]"]] by auto
qed

theorem epoch_in_search_space_witness:
  "\<exists>es pop rng. initPopulation (calm_env None) (NewEvolutionEngine (NewSigmoidDCAEvolvable step_libm bits_json)) 1 4 0 = (pop, rng) \<and>
    evolve (calm_env None) (NewEvolutionEngine (NewSigmoidDCAEvolvable step_libm bits_json)) empty_config empty_plan 4 3 3 0
      (evo_start (NewEvolutionEngine (NewSigmoidDCAEvolvable step_libm bits_json))
        (ranked (calm_env None) (NewEvolutionEngine (NewSigmoidDCAEvolvable step_libm bits_json)) empty_plan 0 pop) rng) = Some es \<and>
    length (evo_inds es) = 4 \<and> legal_chromosome (gene (evo_inds es ! 3))"
proof -
  obtain pop rng where i: "initPopulation (calm_env None) (NewEvolutionEngine (NewSigmoidDCAEvolvable step_libm bits_json)) 1 4 0 = (pop, rng)"
    by fastforce
  from epoch_in_search_space [OF bits_json_ok calm_env_ok(3,1,2) _ i] obtain es where
    "evolve (calm_env None) (NewEvolutionEngine (NewSigmoidDCAEvolvable step_libm bits_json)) empty_config empty_plan 4 3 3 0
      (evo_start (NewEvolutionEngine (NewSigmoidDCAEvolvable step_libm bits_json))
        (ranked (calm_env None) (NewEvolutionEngine (NewSigmoidDCAEvolvable step_libm bits_json)) empty_plan 0 pop) rng) = Some es"
    "length (evo_inds es) = 4" "\<forall>i \<in> set (evo_inds es). legal_chromosome (gene i)" by fastforce
  then show ?thesis using i by (auto intro: nth_mem)
qed



definition one_kline :: "KLine list" where
  "one_kline = [\<lparr>KlID = 1, KlSymbol = ''BTCUSDT'', KlInterval = ''1d'', KlOpenTime = 0, KlOpen = 1,
     KlHigh = 1, KlLow = 1, KlClose = 1, KlVolume = 1\<rparr>]"


end
