(* ===== verification/Database.thy ===== *)
theory Database
  imports Store
begin

text \<open>
  The database as the SaaS process sees it through \<open>gorm\<close>: single statements that may fail,
  queries for the first matching row, inserts under the unique indexes of \<open>store/models.go\<close>, and
  transactions. The operations are the verbs the handlers are written with.
\<close>

section \<open>Errors\<close>

text \<open>An error is a message, possibly wrapped by \<open>fmt.Errorf\<close> with a prefix; \<open>errors.Is\<close> looks through
  the wrapping.\<close>

datatype go_error = Errorf string | Wrapf string go_error | ErrRecordNotFound

primrec is_not_found :: "go_error \<Rightarrow> bool" where
  "is_not_found (Errorf m) = False"
| "is_not_found (Wrapf p e) = is_not_found e"
| "is_not_found ErrRecordNotFound = True"

primrec Error :: "go_error \<Rightarrow> string" where
  "Error (Errorf m) = m"
| "Error (Wrapf p e) = p @ '': '' @ Error e"
| "Error ErrRecordNotFound = ''record not found''"

section \<open>Tables and statements\<close>

record db =
  tb_instances :: "StrategyInstance list"
  tb_portfolios :: "StorePortfolio list"
  tb_runtimes :: "StoreRuntime list"
  tb_trades :: "TradeRecord list"
  tb_execs :: "SpotExecution list"
  tb_audits :: "AuditLog list"
  tb_genes :: "GeneRecord list"
  tb_tasks :: "EvolutionTask list"

text \<open>\<open>w_fails k\<close> says whether the \<open>k\<close>-th statement fails on the way to the server. In a transaction
  that a failure has aborted every further statement fails.\<close>

record world =
  w_db :: db
  w_fails :: "nat \<Rightarrow> bool"
  w_stmt :: nat
  w_in_tx :: bool
  w_aborted :: bool

definition statement :: "(db \<Rightarrow> (db \<times> 'a) option) \<Rightarrow> world \<Rightarrow> (go_error + 'a) \<times> world" where
  "statement f w = (let lost = (Inl (Errorf ''database''), w\<lparr>w_stmt := w_stmt w + 1, w_aborted := w_in_tx w\<rparr>) in
     if w_aborted w \<or> w_fails w (w_stmt w) then lost
     else case f (w_db w) of None \<Rightarrow> lost
       | Some (d, x) \<Rightarrow> (Inr x, w\<lparr>w_db := d, w_stmt := w_stmt w + 1\<rparr>))"

definition db_query :: "(db \<Rightarrow> 'a) \<Rightarrow> world \<Rightarrow> (go_error + 'a) \<times> world" where
  "db_query f = statement (\<lambda>d. Some (d, f d))"

definition db_exec :: "(db \<Rightarrow> db) \<Rightarrow> world \<Rightarrow> (go_error + unit) \<times> world" where
  "db_exec f = statement (\<lambda>d. Some (f d, ()))"

text \<open>\<open>First\<close>: the matching row with the least key, or the error for no row, which is not a failure of
  the statement.\<close>

definition db_first :: "(db \<Rightarrow> 'r list) \<Rightarrow> ('r \<Rightarrow> bool) \<Rightarrow> world \<Rightarrow> (go_error + 'r) \<times> world" where
  "db_first tab P w = (case db_query (\<lambda>d. find P (tab d)) w of
     (Inl e, w) \<Rightarrow> (Inl e, w)
   | (Inr None, w) \<Rightarrow> (Inl ErrRecordNotFound, w)
   | (Inr (Some r), w) \<Rightarrow> (Inr r, w))"

definition next_id :: "nat list \<Rightarrow> nat" where
  "next_id ids = Suc (foldr max ids 0)"

definition update_where :: "('r \<Rightarrow> bool) \<Rightarrow> ('r \<Rightarrow> 'r) \<Rightarrow> 'r list \<Rightarrow> 'r list" where
  "update_where P f rows = map (\<lambda>r. if P r then f r else r) rows"

text \<open>A transaction: what an error of the body, an aborted transaction or a failed commit leaves is the
  database at its start.\<close>

definition transaction :: "(world \<Rightarrow> (go_error + 'a) \<times> world) \<Rightarrow> world \<Rightarrow> (go_error + 'a) \<times> world" where
  "transaction body w = (case body (w\<lparr>w_in_tx := True, w_aborted := False\<rparr>) of (r, u) \<Rightarrow>
     let closed = u\<lparr>w_in_tx := False, w_aborted := False\<rparr>; undone = closed\<lparr>w_db := w_db w\<rparr> in
     case r of Inl e \<Rightarrow> (Inl e, undone)
     | Inr x \<Rightarrow> if w_aborted u \<or> w_fails u (w_stmt u)
         then (Inl (Errorf ''commit''), undone\<lparr>w_stmt := w_stmt u + 1\<rparr>)
         else (Inr x, closed\<lparr>w_stmt := w_stmt u + 1\<rparr>))"

section \<open>Inserts\<close>

definition add_portfolio :: "StorePortfolio \<Rightarrow> db \<Rightarrow> db" where
  "add_portfolio ps d = d\<lparr>tb_portfolios := tb_portfolios d @ [ps\<lparr>SpID := next_id (map SpID (tb_portfolios d))\<rparr>]\<rparr>"

definition add_runtime :: "StoreRuntime \<Rightarrow> db \<Rightarrow> db" where
  "add_runtime rt d = d\<lparr>tb_runtimes := tb_runtimes d @ [rt\<lparr>SrID := next_id (map SrID (tb_runtimes d))\<rparr>]\<rparr>"

definition add_exec :: "SpotExecution \<Rightarrow> db \<Rightarrow> db" where
  "add_exec x d = d\<lparr>tb_execs := tb_execs d @ [x\<lparr>SxID := next_id (map SxID (tb_execs d))\<rparr>]\<rparr>"

definition add_trade :: "TradeRecord \<Rightarrow> db \<Rightarrow> db" where
  "add_trade t d = d\<lparr>tb_trades := tb_trades d @ [t\<lparr>TrID := next_id (map TrID (tb_trades d))\<rparr>]\<rparr>"

definition add_audit :: "AuditLog \<Rightarrow> db \<Rightarrow> db" where
  "add_audit a d = d\<lparr>tb_audits := tb_audits d @ [a\<lparr>AlID := next_id (map AlID (tb_audits d))\<rparr>]\<rparr>"

text \<open>An insert under a unique index fails on a duplicate.\<close>

definition create_portfolio :: "StorePortfolio \<Rightarrow> world \<Rightarrow> (go_error + StorePortfolio) \<times> world" where
  "create_portfolio ps = statement (\<lambda>d. if SpInstanceID ps \<in> SpInstanceID ` set (tb_portfolios d) then None
     else Some (add_portfolio ps d, last (tb_portfolios (add_portfolio ps d))))"

definition create_runtime :: "StoreRuntime \<Rightarrow> world \<Rightarrow> (go_error + unit) \<times> world" where
  "create_runtime rt = statement (\<lambda>d. if SrInstanceID rt \<in> SrInstanceID ` set (tb_runtimes d) then None
     else Some (add_runtime rt d, ()))"

definition create_exec :: "SpotExecution \<Rightarrow> world \<Rightarrow> (go_error + unit) \<times> world" where
  "create_exec x = statement (\<lambda>d. if SxClientOrderID x \<in> SxClientOrderID ` set (tb_execs d) then None
     else Some (add_exec x d, ()))"

definition create_trade :: "TradeRecord \<Rightarrow> world \<Rightarrow> (go_error + unit) \<times> world" where
  "create_trade t = statement (\<lambda>d. if TrClientOrderID t \<in> TrClientOrderID ` set (tb_trades d) then None
     else Some (add_trade t d, ()))"

definition create_audit :: "AuditLog \<Rightarrow> world \<Rightarrow> (go_error + unit) \<times> world" where
  "create_audit a = db_exec (add_audit a)"

text \<open>\<open>Save\<close> writes every column of the row with the key of its argument.\<close>

definition put_portfolio :: "StorePortfolio \<Rightarrow> db \<Rightarrow> db" where
  "put_portfolio ps d = d\<lparr>tb_portfolios := update_where (\<lambda>r. SpID r = SpID ps) (\<lambda>_. ps) (tb_portfolios d)\<rparr>"

definition save_portfolio :: "StorePortfolio \<Rightarrow> world \<Rightarrow> (go_error + unit) \<times> world" where
  "save_portfolio ps = db_exec (put_portfolio ps)"

section \<open>Laws\<close>

text \<open>A statement that reports an error has changed nothing but the bookkeeping, and one that reports a
  value has had its effect.\<close>

lemma statement_cases:
  assumes "statement f w = (r, u)"
  obtains (lost) e where "r = Inl e" "w_db u = w_db w" "w_aborted u = w_in_tx w" "w_in_tx u = w_in_tx w"
    "w_fails u = w_fails w"
  | (ok) d x where "r = Inr x" "f (w_db w) = Some (d, x)" "\<not> w_aborted w" "u = w\<lparr>w_db := d, w_stmt := w_stmt w + 1\<rparr>"
  using assms by (auto simp: statement_def Let_def split: if_splits option.splits)

lemma db_query_db: "db_query f w = (r, u) \<Longrightarrow> w_db u = w_db w"
  unfolding db_query_def by (erule statement_cases) auto

lemma db_first_cases:
  assumes "db_first tab P w = (r, u)"
  obtains (err) e where "r = Inl e" "w_db u = w_db w"
  | (row) x where "r = Inr x" "find P (tab (w_db w)) = Some x" "w_db u = w_db w"
proof -
  obtain q v where q: "db_query (\<lambda>d. find P (tab d)) w = (q, v)" by fastforce
  note d = db_query_db [OF q]
  show ?thesis
  proof (cases q)
    case (Inl e)
    then have "r = Inl e" "w_db u = w_db w" using assms q d by (simp_all add: db_first_def)
    then show ?thesis by (rule err)
  next
    case (Inr x)
    then have "x = find P (tab (w_db w))"
      using q unfolding db_query_def by (elim statement_cases) auto
    show ?thesis
    proof (cases x)
      case None
      then have "r = Inl ErrRecordNotFound" "w_db u = w_db w" using assms q d Inr by (simp_all add: db_first_def)
      then show ?thesis by (rule err)
    next
      case (Some y)
      then have "r = Inr y" "find P (tab (w_db w)) = Some y" "w_db u = w_db w"
        using assms q d Inr \<open>x = find P (tab (w_db w))\<close> by (simp_all add: db_first_def)
      then show ?thesis by (rule row)
    qed
  qed
qed

text \<open>The operations that report success have had exactly their effect.\<close>

lemma db_exec_ok: "db_exec f w = (Inr x, u) \<Longrightarrow> w_db u = f (w_db w)"
  unfolding db_exec_def by (erule statement_cases) auto

lemma db_query_ok: "db_query f w = (Inr x, u) \<Longrightarrow> x = f (w_db w)"
  unfolding db_query_def by (erule statement_cases) auto

lemma db_first_not_found:
  assumes "db_first tab P w = (Inl e, u)" "is_not_found e"
  shows "find P (tab (w_db w)) = None \<and> w_db u = w_db w"
proof -
  obtain q v where q: "db_query (\<lambda>d. find P (tab d)) w = (q, v)" by fastforce
  have "q \<noteq> Inl e'" if "is_not_found e'" for e'
    using q that by (auto simp: db_query_def statement_def Let_def split: if_splits)
  with assms q obtain x where x: "q = Inr x" by (cases q) (auto simp: db_first_def)
  then show ?thesis
    using assms q db_query_ok [of "\<lambda>d. find P (tab d)" w x v] db_query_db [OF q] by (cases x) (auto simp: db_first_def)
qed

lemma db_first_ok: "db_first tab P w = (Inr x, u) \<Longrightarrow> find P (tab (w_db w)) = Some x \<and> w_db u = w_db w"
  by (erule db_first_cases) auto

lemma create_trade_ok: "create_trade t w = (Inr x, u) \<Longrightarrow>
    w_db u = add_trade t (w_db w) \<and> TrClientOrderID t \<notin> TrClientOrderID ` set (tb_trades (w_db w))"
  unfolding create_trade_def by (erule statement_cases) (auto split: if_splits)

lemma create_exec_ok: "create_exec t w = (Inr x, u) \<Longrightarrow>
    w_db u = add_exec t (w_db w) \<and> SxClientOrderID t \<notin> SxClientOrderID ` set (tb_execs (w_db w))"
  unfolding create_exec_def by (erule statement_cases) (auto split: if_splits)

lemma statement_failed: "statement f w = (Inl e, u) \<Longrightarrow> w_db u = w_db w"
  by (erule statement_cases) auto

text \<open>In a transaction, a failure is remembered to the end.\<close>

lemma statement_tx: "w_in_tx w \<Longrightarrow> statement f w = (r, u) \<Longrightarrow> w_in_tx u \<and> (w_aborted w \<longrightarrow> w_aborted u) \<and>
    (isl r \<longrightarrow> w_aborted u)"
  by (auto simp: statement_def Let_def split: if_splits option.splits)

lemma create_trade_tx: "w_in_tx w \<Longrightarrow> create_trade t w = (r, u) \<Longrightarrow> w_in_tx u \<and> (w_aborted w \<longrightarrow> w_aborted u)"
  unfolding create_trade_def by (drule (1) statement_tx) simp

lemma db_first_tx: "w_in_tx w \<Longrightarrow> db_first tab P w = (r, u) \<Longrightarrow> w_in_tx u \<and> (w_aborted w \<longrightarrow> w_aborted u)"
proof -
  assume "w_in_tx w" "db_first tab P w = (r, u)"
  moreover obtain q v where q: "db_query (\<lambda>d. find P (tab d)) w = (q, v)" by fastforce
  ultimately show ?thesis
    using statement_tx [of w "\<lambda>d. Some (d, find P (tab d))" q v]
    by (auto simp: db_first_def db_query_def split: sum.splits option.splits)
qed

lemmas tx_ops = statement_tx [of _ "\<lambda>d. Some (f d, ())" for f, folded db_exec_def]
  statement_tx [of _ "\<lambda>d. Some (d, f d)" for f, folded db_query_def] db_first_tx

text \<open>Outside a transaction nothing is ever aborted.\<close>

definition idle :: "world \<Rightarrow> bool" where "idle w \<longleftrightarrow> \<not> w_in_tx w \<and> \<not> w_aborted w"

lemma statement_idle: "idle w \<Longrightarrow> statement f w = (r, u) \<Longrightarrow> idle u"
  by (erule statement_cases) (auto simp: idle_def)

lemma db_first_idle: "idle w \<Longrightarrow> db_first tab P w = (r, u) \<Longrightarrow> idle u"
proof -
  assume "idle w" "db_first tab P w = (r, u)"
  moreover obtain q v where q: "db_query (\<lambda>d. find P (tab d)) w = (q, v)" by fastforce
  ultimately show ?thesis
    using statement_idle [of w "\<lambda>d. Some (d, find P (tab d))" q v]
    by (auto simp: db_first_def db_query_def split: sum.splits option.splits)
qed

text \<open>Atomicity: a transaction that reports an error leaves the database as it was.\<close>

lemma transaction_cases:
  assumes "transaction body w = (r, u)"
  obtains (rolledback) e where "r = Inl e" "w_db u = w_db w" "idle u"
  | (committed) x v where "r = Inr x" "body (w\<lparr>w_in_tx := True, w_aborted := False\<rparr>) = (Inr x, v)" "\<not> w_aborted v"
    "w_db u = w_db v" "idle u"
  using assms by (auto simp: transaction_def idle_def Let_def split: prod.splits sum.splits if_splits)

end
