(* ===== verification/DeltaReport.thy ===== *)
theory DeltaReport
  imports Database Execution
begin

text \<open>
  \<open>internal/saas/ws/portfolio.go\<close>: the settlement of the reports an agent sends after an order, in one
  transaction. The decoder of the stored command and the encoder of the audit entry are
  parameters, and concrete in \<open>Wire\<close>.
\<close>

section \<open>Messages\<close>

record executionMsg =
  EmClientOrderID :: string
  EmFilledQty :: f64
  EmFilledPrice :: f64
  EmFee :: f64

record balanceMsg =
  BmAsset :: string
  BmAvailable :: f64
  BmFrozen :: f64

record deltaReportPayload =
  DrExecution :: "executionMsg option"
  DrBalances :: "balanceMsg list"

record storedCommand =
  ScAction :: string
  ScEngine :: string
  ScSymbol :: string
  ScLotType :: string

record dr_codec =
  dr_parse :: "string \<Rightarrow> storedCommand option"
  dr_audit :: "executionMsg \<Rightarrow> storedCommand \<Rightarrow> string"

definition maxZero :: "f64 \<Rightarrow> f64" where
  "maxZero v = (if v < 0 then 0 else v)"

section \<open>Balances\<close>

definition usdt_available :: "balanceMsg list \<Rightarrow> f64" where
  "usdt_available balances = (case find (\<lambda>b. BmAsset b = ''USDT'') balances of None \<Rightarrow> 0 | Some b \<Rightarrow> BmAvailable b)"

definition set_balance :: "f64 \<Rightarrow> nat \<Rightarrow> db \<Rightarrow> db" where
  "set_balance usdt instID d = d\<lparr>tb_portfolios :=
     update_where (\<lambda>r. SpInstanceID r = instID) (\<lambda>r. r\<lparr>USDTBalance := usdt\<rparr>) (tb_portfolios d)\<rparr>"

text \<open>The loop over the instances; an update that fails is logged and the loop goes on.\<close>

primrec balance_loop :: "f64 \<Rightarrow> StrategyInstance list \<Rightarrow> world \<Rightarrow> world" where
  "balance_loop usdt [] w = w"
| "balance_loop usdt (inst # insts) w =
     balance_loop usdt insts (snd (db_exec (set_balance usdt (SiID inst)) w))"

definition updateBalances :: "nat \<Rightarrow> balanceMsg list \<Rightarrow> world \<Rightarrow> (go_error + unit) \<times> world" where
  "updateBalances userID balances w = (if balances = [] then (Inr (), w)
     else let usdtAvailable = usdt_available balances in
       case db_query (\<lambda>d. filter (\<lambda>i. SiUserID i = userID \<and> SiStatus i \<noteq> ''DELETED'') (tb_instances d)) w of
         (Inl e, w) \<Rightarrow> (Inl (Wrapf (''load instances for user '' @ show_nat (int userID)) e), w)
       | (Inr instances, w) \<Rightarrow> (Inr (), balance_loop usdtAvailable instances w))"

section \<open>The fill\<close>

definition apply_fill :: "storedCommand \<Rightarrow> f64 \<Rightarrow> StorePortfolio \<Rightarrow> StorePortfolio" where
  "apply_fill cmd qty ps =
     (if ScLotType cmd = ''DEAD_STACK'' then
        (if ScAction cmd = ''BUY'' then ps\<lparr>DeadBTC := DeadBTC ps + qty\<rparr> else ps\<lparr>DeadBTC := maxZero (DeadBTC ps - qty)\<rparr>)
      else if ScLotType cmd = ''FLOATING'' then
        (if ScAction cmd = ''BUY'' then ps\<lparr>FloatBTC := FloatBTC ps + qty\<rparr> else ps\<lparr>FloatBTC := maxZero (FloatBTC ps - qty)\<rparr>)
      else ps)"

definition trade_of :: "SpotExecution \<Rightarrow> storedCommand \<Rightarrow> executionMsg \<Rightarrow> TradeRecord" where
  "trade_of exec cmd m = \<lparr>TrID = 0, TrInstanceID = SxInstanceID exec, TrClientOrderID = EmClientOrderID m,
     TrAction = ScAction cmd, TrEngine = ScEngine cmd, TrSymbol = ScSymbol cmd, TrFilledQty = EmFilledQty m,
     TrFilledPrice = EmFilledPrice m, TrFee = EmFee m\<rparr>"

definition mark_filled :: "SpotExecution \<Rightarrow> db \<Rightarrow> db" where
  "mark_filled exec d = d\<lparr>tb_execs := update_where (\<lambda>r. SxID r = SxID exec) (\<lambda>r. r\<lparr>SxStatus := ''filled''\<rparr>) (tb_execs d)\<rparr>"

text \<open>Steps 1b to 5, for a pending execution.\<close>

definition settle :: "dr_codec \<Rightarrow> nat \<Rightarrow> executionMsg \<Rightarrow> balanceMsg list \<Rightarrow> SpotExecution \<Rightarrow> world \<Rightarrow>
    (go_error + unit) \<times> world" where
  "settle codec userID m balances exec w = (case db_exec (mark_filled exec) w of
     (Inl e, w) \<Rightarrow> (Inl (Wrapf ''update SpotExecution status'' e), w)
   | (Inr _, w) \<Rightarrow> (case dr_parse codec (SxRawPayload exec) of
       None \<Rightarrow> (Inl (Errorf ''decode SpotExecution RawPayload''), w)
     | Some cmd \<Rightarrow> (case db_first tb_portfolios (\<lambda>ps. SpInstanceID ps = SxInstanceID exec) w of
         (Inl e, w) \<Rightarrow> (Inl (Wrapf (''load PortfolioState for instance '' @ show_nat (int (SxInstanceID exec))) e), w)
       | (Inr ps, w) \<Rightarrow> (case save_portfolio (apply_fill cmd (EmFilledQty m) ps) w of
           (Inl e, w) \<Rightarrow> (Inl (Wrapf ''save PortfolioState'' e), w)
         | (Inr _, w) \<Rightarrow> (case create_trade (trade_of exec cmd m) w of
             (Inl e, w) \<Rightarrow> (Inl (Wrapf ''create TradeRecord'' e), w)
           | (Inr _, w) \<Rightarrow> (case updateBalances userID balances w of
               (Inl e, w) \<Rightarrow> (Inl e, w)
             | (Inr _, w) \<Rightarrow> (case create_audit \<lparr>AlID = 0, AlInstanceID = SxInstanceID exec,
                   AlEventType = ''delta_report'', AlPayload = dr_audit codec m cmd\<rparr> w of
                 (Inl e, w) \<Rightarrow> (Inl (Wrapf ''create AuditLog'' e), w)
               | (Inr _, w) \<Rightarrow> (Inr (), w))))))))"

definition report_body :: "dr_codec \<Rightarrow> nat \<Rightarrow> deltaReportPayload \<Rightarrow> world \<Rightarrow> (go_error + unit) \<times> world" where
  "report_body codec userID payload w = (case DrExecution payload of
     None \<Rightarrow> updateBalances userID (DrBalances payload) w
   | Some m \<Rightarrow> if EmClientOrderID m = [] then updateBalances userID (DrBalances payload) w
       else (case db_first tb_execs (\<lambda>x. SxClientOrderID x = EmClientOrderID m \<and> SxStatus x = ''pending'') w of
         (Inl e, w) \<Rightarrow> if is_not_found e then updateBalances userID (DrBalances payload) w
           else (Inl (Wrapf ''find SpotExecution'' e), w)
       | (Inr exec, w) \<Rightarrow> settle codec userID m (DrBalances payload) exec w))"

definition processDeltaReport :: "dr_codec \<Rightarrow> nat \<Rightarrow> deltaReportPayload \<Rightarrow> world \<Rightarrow> (go_error + unit) \<times> world" where
  "processDeltaReport codec userID payload = transaction (report_body codec userID payload)"

section \<open>What a committed report does\<close>

definition with_balances :: "nat \<Rightarrow> balanceMsg list \<Rightarrow> db \<Rightarrow> db" where
  "with_balances userID balances d = (if balances = [] then d
     else foldl (\<lambda>d i. set_balance (usdt_available balances) (SiID i) d) d
       (filter (\<lambda>i. SiUserID i = userID \<and> SiStatus i \<noteq> ''DELETED'') (tb_instances d)))"

definition settled :: "dr_codec \<Rightarrow> nat \<Rightarrow> executionMsg \<Rightarrow> balanceMsg list \<Rightarrow> SpotExecution \<Rightarrow> storedCommand \<Rightarrow>
    StorePortfolio \<Rightarrow> db \<Rightarrow> db" where
  "settled codec userID m balances exec cmd ps d =
     add_audit \<lparr>AlID = 0, AlInstanceID = SxInstanceID exec, AlEventType = ''delta_report'', AlPayload = dr_audit codec m cmd\<rparr>
       (with_balances userID balances (add_trade (trade_of exec cmd m)
         (put_portfolio (apply_fill cmd (EmFilledQty m) ps) (mark_filled exec d))))"

lemma balance_loop_ok:
  assumes "w_in_tx w" "\<not> w_aborted (balance_loop usdt insts w)"
  shows "\<not> w_aborted w \<and> w_in_tx (balance_loop usdt insts w) \<and>
    w_db (balance_loop usdt insts w) = foldl (\<lambda>d i. set_balance usdt (SiID i) d) (w_db w) insts"
  using assms
proof (induction insts arbitrary: w)
  case Nil
  then show ?case by simp
next
  case (Cons i insts)
  obtain r u where s: "db_exec (set_balance usdt (SiID i)) w = (r, u)" by fastforce
  note tx = tx_ops(1) [OF Cons.prems(1) s]
  have IH: "\<not> w_aborted u \<and> w_in_tx (balance_loop usdt insts u) \<and>
      w_db (balance_loop usdt insts u) = foldl (\<lambda>d i. set_balance usdt (SiID i) d) (w_db u) insts"
    using Cons.IH [of u] Cons.prems(2) tx by (simp add: s)
  then obtain x where "r = Inr x" using tx by (cases r) auto
  then have "w_db u = set_balance usdt (SiID i) (w_db w)" using db_exec_ok s by blast
  then show ?case using IH tx by (simp add: s)
qed

lemma updateBalances_ok:
  assumes "w_in_tx w" "updateBalances userID balances w = (Inr x, u)" "\<not> w_aborted u"
  shows "\<not> w_aborted w" "w_in_tx u" "w_db u = with_balances userID balances (w_db w)"
proof -
  have "\<not> w_aborted w \<and> w_in_tx u \<and> w_db u = with_balances userID balances (w_db w)"
  proof (cases "balances = []")
    case True
    then show ?thesis using assms by (simp add: updateBalances_def with_balances_def)
  next
    case False
    let ?f = "\<lambda>d. filter (\<lambda>i. SiUserID i = userID \<and> SiStatus i \<noteq> ''DELETED'') (tb_instances d)"
    obtain q v where q: "db_query ?f w = (q, v)" by fastforce
    with assms(2) False obtain insts where i: "q = Inr insts" "u = balance_loop (usdt_available balances) insts v"
      by (auto simp: updateBalances_def Let_def split: sum.splits)
    note tx = tx_ops(2) [OF assms(1) q]
    show ?thesis
      using balance_loop_ok [of v "usdt_available balances" insts] tx i assms(3) False db_query_ok [of ?f w insts v]
        db_query_db [of ?f w q v] q by (auto simp: with_balances_def)
  qed
  then show "\<not> w_aborted w" "w_in_tx u" "w_db u = with_balances userID balances (w_db w)" by auto
qed

lemma settle_ok:
  assumes "w_in_tx w" "settle codec userID m balances exec w = (Inr x, u)" "\<not> w_aborted u"
  obtains cmd ps where "dr_parse codec (SxRawPayload exec) = Some cmd"
    "find (\<lambda>ps. SpInstanceID ps = SxInstanceID exec) (tb_portfolios (w_db w)) = Some ps"
    "EmClientOrderID m \<notin> TrClientOrderID ` set (tb_trades (w_db w))"
    "w_db u = settled codec userID m balances exec cmd ps (w_db w)"
proof -
  obtain r1 w1 where s1: "db_exec (mark_filled exec) w = (r1, w1)" by fastforce
  with assms(2) obtain x1 where r1: "r1 = Inr x1" by (auto simp: settle_def split: sum.splits)
  from assms(2) obtain cmd where cmd: "dr_parse codec (SxRawPayload exec) = Some cmd"
    by (auto simp: settle_def s1 r1 split: option.splits)
  let ?P = "\<lambda>ps. SpInstanceID ps = SxInstanceID exec"
  obtain r2 w2 where s2: "db_first tb_portfolios ?P w1 = (r2, w2)" by fastforce
  with assms(2) obtain ps where r2: "r2 = Inr ps" by (auto simp: settle_def s1 r1 cmd split: sum.splits)
  obtain r3 w3 where s3: "save_portfolio (apply_fill cmd (EmFilledQty m) ps) w2 = (r3, w3)" by fastforce
  with assms(2) obtain x3 where r3: "r3 = Inr x3" by (auto simp: settle_def s1 r1 cmd s2 r2 split: sum.splits)
  obtain r4 w4 where s4: "create_trade (trade_of exec cmd m) w3 = (r4, w4)" by fastforce
  with assms(2) obtain x4 where r4: "r4 = Inr x4" by (auto simp: settle_def s1 r1 cmd s2 r2 s3 r3 split: sum.splits)
  obtain r5 w5 where s5: "updateBalances userID balances w4 = (r5, w5)" by fastforce
  with assms(2) obtain x5 where r5: "r5 = Inr x5"
    by (auto simp: settle_def s1 r1 cmd s2 r2 s3 r3 s4 r4 split: sum.splits)
  let ?log = "\<lparr>AlID = 0, AlInstanceID = SxInstanceID exec, AlEventType = ''delta_report'', AlPayload = dr_audit codec m cmd\<rparr>"
  obtain r6 w6 where s6: "create_audit ?log w5 = (r6, w6)" by fastforce
  with assms(2) obtain x6 where r6: "r6 = Inr x6" "u = w6"
    by (auto simp: settle_def s1 r1 cmd s2 r2 s3 r3 s4 r4 s5 r5 split: sum.splits)
  note t1 = tx_ops(1) [OF assms(1) s1] note t2 = tx_ops(3) [OF conjunct1 [OF t1] s2]
  note t3 = tx_ops(1) [OF conjunct1 [OF t2] s3 [unfolded save_portfolio_def]]
  note t4 = create_trade_tx [OF conjunct1 [OF t3] s4]
  have t5: "w_in_tx w5 \<and> \<not> w_aborted w5 \<and> w_db w5 = with_balances userID balances (w_db w4)"
  proof -
    have "w_in_tx w4" using t4 by simp
    have "w_aborted w5 \<longrightarrow> w_aborted w6"
      using s6 r6(1) by (auto simp: create_audit_def db_exec_def statement_def Let_def split: if_splits)
    then have "\<not> w_aborted w5" using assms(3) r6 by blast
    then show ?thesis using updateBalances_ok [OF \<open>w_in_tx w4\<close> s5 [unfolded r5]] by blast
  qed
  have db: "w_db w1 = mark_filled exec (w_db w)" "find ?P (tb_portfolios (w_db w1)) = Some ps" "w_db w2 = w_db w1"
    "w_db w3 = put_portfolio (apply_fill cmd (EmFilledQty m) ps) (w_db w2)"
    "w_db w4 = add_trade (trade_of exec cmd m) (w_db w3)"
    "TrClientOrderID (trade_of exec cmd m) \<notin> TrClientOrderID ` set (tb_trades (w_db w3))"
    "w_db w6 = add_audit ?log (w_db w5)"
    using db_exec_ok [OF s1 [unfolded r1]] db_first_ok [OF s2 [unfolded r2]]
      db_exec_ok [OF s3 [unfolded r3 save_portfolio_def]] create_trade_ok [OF s4 [unfolded r4]]
      db_exec_ok [OF s6 [unfolded r6(1) create_audit_def]] by simp_all
  show ?thesis
  proof (rule that [OF cmd])
    show "find ?P (tb_portfolios (w_db w)) = Some ps" using db(1,2) by (simp add: mark_filled_def)
    show "EmClientOrderID m \<notin> TrClientOrderID ` set (tb_trades (w_db w))"
      using db(6) by (simp add: db(1,3,4) put_portfolio_def mark_filled_def trade_of_def)
    show "w_db u = settled codec userID m balances exec cmd ps (w_db w)"
      using t5 by (simp add: r6(2) db settled_def)
  qed
qed

text \<open>The three outcomes of a report.\<close>

abbreviation pending :: "string \<Rightarrow> SpotExecution \<Rightarrow> bool" where
  "pending oid x \<equiv> SxClientOrderID x = oid \<and> SxStatus x = ''pending''"

lemma report_cases:
  assumes "processDeltaReport codec userID payload w = (r, u)"
  obtains (failed) e where "r = Inl e" "w_db u = w_db w" "idle u"
  | (balances) "r = Inr ()" "idle u" "w_db u = with_balances userID (DrBalances payload) (w_db w)"
      "\<And>m. DrExecution payload = Some m \<Longrightarrow> EmClientOrderID m \<noteq> [] \<Longrightarrow>
        find (pending (EmClientOrderID m)) (tb_execs (w_db w)) = None"
  | (fill) m exec cmd ps where "r = Inr ()" "idle u" "DrExecution payload = Some m" "EmClientOrderID m \<noteq> []"
      "find (pending (EmClientOrderID m)) (tb_execs (w_db w)) = Some exec"
      "dr_parse codec (SxRawPayload exec) = Some cmd"
      "find (\<lambda>ps. SpInstanceID ps = SxInstanceID exec) (tb_portfolios (w_db w)) = Some ps"
      "EmClientOrderID m \<notin> TrClientOrderID ` set (tb_trades (w_db w))"
      "w_db u = settled codec userID m (DrBalances payload) exec cmd ps (w_db w)"
  using assms unfolding processDeltaReport_def
proof (cases rule: transaction_cases)
  case (rolledback e)
  then show ?thesis by (rule failed)
next
  case (committed x v)
  let ?w = "w\<lparr>w_in_tx := True, w_aborted := False\<rparr>"
  have tx: "w_in_tx ?w" by simp
  show ?thesis
  proof (cases "\<exists>m. DrExecution payload = Some m \<and> EmClientOrderID m \<noteq> []")
    case False
    then have "updateBalances userID (DrBalances payload) ?w = (Inr x, v)"
      using committed(2) by (auto simp: report_body_def split: option.splits if_splits)
    from updateBalances_ok(3) [OF tx this committed(3)] show ?thesis
      using balances False committed by fastforce
  next
    case True
    then obtain m where m: "DrExecution payload = Some m" "EmClientOrderID m \<noteq> []" by blast
    obtain r1 w1 where s1: "db_first tb_execs (pending (EmClientOrderID m)) ?w = (r1, w1)" by fastforce
    have tx1: "w_in_tx w1" using db_first_tx [OF tx s1] by simp
    show ?thesis
    proof (cases r1)
      case (Inl e)
      then have e: "is_not_found e" and up: "updateBalances userID (DrBalances payload) w1 = (Inr x, v)"
        using committed(2) by (auto simp: report_body_def m s1 split: if_splits)
      note nf = db_first_not_found [OF s1 [unfolded Inl] e]
      show ?thesis
      proof (rule balances)
        show "w_db u = with_balances userID (DrBalances payload) (w_db w)"
          using updateBalances_ok(3) [OF tx1 up committed(3)] committed(4) nf by simp
        show "find (pending (EmClientOrderID m')) (tb_execs (w_db w)) = None"
          if "DrExecution payload = Some m'" for m' using nf m(1) that by simp
      qed (use committed in auto)
    next
      case (Inr exec)
      then have st: "settle codec userID m (DrBalances payload) exec w1 = (Inr x, v)"
        using committed(2) by (simp add: report_body_def m s1)
      note ok = db_first_ok [OF s1 [unfolded Inr]]
      then have w1: "w_db w1 = w_db w" "find (pending (EmClientOrderID m)) (tb_execs (w_db w)) = Some exec" by simp_all
      from settle_ok [OF tx1 st committed(3)] obtain cmd ps where c: "dr_parse codec (SxRawPayload exec) = Some cmd"
        "find (\<lambda>ps. SpInstanceID ps = SxInstanceID exec) (tb_portfolios (w_db w)) = Some ps"
        "EmClientOrderID m \<notin> TrClientOrderID ` set (tb_trades (w_db w))"
        "w_db v = settled codec userID m (DrBalances payload) exec cmd ps (w_db w)" unfolding w1(1) by blast
      show ?thesis
        by (rule fill [OF _ committed(5) m w1(2) c(1-3)]) (simp_all add: committed(1,4) c(4))
    qed
  qed
qed

section \<open>Frames\<close>

lemma set_balance_frame [simp]:
  "tb_instances (set_balance v i d) = tb_instances d" "tb_runtimes (set_balance v i d) = tb_runtimes d"
  "tb_trades (set_balance v i d) = tb_trades d" "tb_execs (set_balance v i d) = tb_execs d"
  "tb_audits (set_balance v i d) = tb_audits d" "tb_genes (set_balance v i d) = tb_genes d"
  "tb_tasks (set_balance v i d) = tb_tasks d"
  by (simp_all add: set_balance_def)

lemma balance_fold_frame:
  "tb_instances (foldl (\<lambda>d i. set_balance v (SiID i) d) d insts) = tb_instances d"
  "tb_runtimes (foldl (\<lambda>d i. set_balance v (SiID i) d) d insts) = tb_runtimes d"
  "tb_trades (foldl (\<lambda>d i. set_balance v (SiID i) d) d insts) = tb_trades d"
  "tb_execs (foldl (\<lambda>d i. set_balance v (SiID i) d) d insts) = tb_execs d"
  "tb_audits (foldl (\<lambda>d i. set_balance v (SiID i) d) d insts) = tb_audits d"
  "tb_genes (foldl (\<lambda>d i. set_balance v (SiID i) d) d insts) = tb_genes d"
  "tb_tasks (foldl (\<lambda>d i. set_balance v (SiID i) d) d insts) = tb_tasks d"
  by (induction insts arbitrary: d) simp_all

lemma with_balances_frame [simp]:
  "tb_instances (with_balances uid bs d) = tb_instances d" "tb_runtimes (with_balances uid bs d) = tb_runtimes d"
  "tb_trades (with_balances uid bs d) = tb_trades d" "tb_execs (with_balances uid bs d) = tb_execs d"
  "tb_audits (with_balances uid bs d) = tb_audits d" "tb_genes (with_balances uid bs d) = tb_genes d"
  "tb_tasks (with_balances uid bs d) = tb_tasks d"
  by (simp_all add: with_balances_def balance_fold_frame)

lemma balance_fold_portfolios:
  "tb_portfolios (foldl (\<lambda>d i. set_balance v (SiID i) d) d insts) =
     map (\<lambda>r. if SpInstanceID r \<in> SiID ` set insts then r\<lparr>USDTBalance := v\<rparr> else r) (tb_portfolios d)"
  by (induction insts arbitrary: d) (auto simp: set_balance_def update_where_def)

text \<open>The portfolios a balance snapshot reaches: those of the live instances of the user.\<close>

definition owned :: "db \<Rightarrow> nat \<Rightarrow> nat \<Rightarrow> bool" where
  "owned d userID instID \<longleftrightarrow> (\<exists>i \<in> set (tb_instances d). SiID i = instID \<and> SiUserID i = userID \<and> SiStatus i \<noteq> ''DELETED'')"

lemma with_balances_portfolios:
  "tb_portfolios (with_balances userID bs d) = map (\<lambda>r. if bs \<noteq> [] \<and> owned d userID (SpInstanceID r)
     then r\<lparr>USDTBalance := usdt_available bs\<rparr> else r) (tb_portfolios d)"
  by (auto simp: with_balances_def balance_fold_portfolios owned_def image_iff intro!: map_idI)

lemma settled_frame:
  "tb_execs (settled codec uid m bs exec cmd ps d) = tb_execs (mark_filled exec d)"
  "tb_instances (settled codec uid m bs exec cmd ps d) = tb_instances d"
  "tb_runtimes (settled codec uid m bs exec cmd ps d) = tb_runtimes d"
  "tb_genes (settled codec uid m bs exec cmd ps d) = tb_genes d"
  "tb_tasks (settled codec uid m bs exec cmd ps d) = tb_tasks d"
  "tb_trades (settled codec uid m bs exec cmd ps d) =
     tb_trades d @ [(trade_of exec cmd m)\<lparr>TrID := next_id (map TrID (tb_trades d))\<rparr>]"
  "tb_portfolios (settled codec uid m bs exec cmd ps d) =
     map (\<lambda>r. if bs \<noteq> [] \<and> owned d uid (SpInstanceID r) then r\<lparr>USDTBalance := usdt_available bs\<rparr> else r)
       (update_where (\<lambda>r. SpID r = SpID ps) (\<lambda>_. apply_fill cmd (EmFilledQty m) ps) (tb_portfolios d))"
proof -
  have id: "SpID (apply_fill cmd q ps) = SpID ps" for q by (simp add: apply_fill_def)
  have o: "owned (add_trade t (put_portfolio p (mark_filled exec d))) uid = owned d uid" for t p
    by (rule ext) (simp add: owned_def add_trade_def put_portfolio_def mark_filled_def)
  show "tb_portfolios (settled codec uid m bs exec cmd ps d) =
     map (\<lambda>r. if bs \<noteq> [] \<and> owned d uid (SpInstanceID r) then r\<lparr>USDTBalance := usdt_available bs\<rparr> else r)
       (update_where (\<lambda>r. SpID r = SpID ps) (\<lambda>_. apply_fill cmd (EmFilledQty m) ps) (tb_portfolios d))"
    by (simp add: settled_def add_audit_def with_balances_portfolios o)
      (simp add: add_trade_def put_portfolio_def mark_filled_def id)
qed (simp_all add: settled_def add_audit_def add_trade_def put_portfolio_def mark_filled_def)

section \<open>The ledger\<close>

text \<open>Keys are unique, and the trades are those of the filled orders, one each.\<close>

definition ledger_ok :: "db \<Rightarrow> bool" where
  "ledger_ok d \<longleftrightarrow> distinct (map SxClientOrderID (tb_execs d)) \<and> distinct (map SxID (tb_execs d)) \<and>
     distinct (map TrClientOrderID (tb_trades d)) \<and>
     TrClientOrderID ` set (tb_trades d) = SxClientOrderID ` {x \<in> set (tb_execs d). SxStatus x = ''filled''} \<and>
     distinct (map SpInstanceID (tb_portfolios d)) \<and> distinct (map SpID (tb_portfolios d))"

lemma ledger_keys:
  assumes "ledger_ok d"
  shows "x \<in> set (tb_execs d) \<Longrightarrow> y \<in> set (tb_execs d) \<Longrightarrow> SxID x = SxID y \<longleftrightarrow> x = y"
    "x \<in> set (tb_execs d) \<Longrightarrow> y \<in> set (tb_execs d) \<Longrightarrow> SxClientOrderID x = SxClientOrderID y \<longleftrightarrow> x = y"
    "p \<in> set (tb_portfolios d) \<Longrightarrow> q \<in> set (tb_portfolios d) \<Longrightarrow> SpID p = SpID q \<longleftrightarrow> p = q"
    "p \<in> set (tb_portfolios d) \<Longrightarrow> q \<in> set (tb_portfolios d) \<Longrightarrow> SpInstanceID p = SpInstanceID q \<longleftrightarrow> p = q"
proof -
  have i: "inj_on SxID (set (tb_execs d))" "inj_on SxClientOrderID (set (tb_execs d))"
    "inj_on SpID (set (tb_portfolios d))" "inj_on SpInstanceID (set (tb_portfolios d))"
    using assms by (simp_all add: ledger_ok_def distinct_map)
  show "x \<in> set (tb_execs d) \<Longrightarrow> y \<in> set (tb_execs d) \<Longrightarrow> SxID x = SxID y \<longleftrightarrow> x = y" by (rule inj_on_eq_iff [OF i(1)])
  show "x \<in> set (tb_execs d) \<Longrightarrow> y \<in> set (tb_execs d) \<Longrightarrow> SxClientOrderID x = SxClientOrderID y \<longleftrightarrow> x = y"
    by (rule inj_on_eq_iff [OF i(2)])
  show "p \<in> set (tb_portfolios d) \<Longrightarrow> q \<in> set (tb_portfolios d) \<Longrightarrow> SpID p = SpID q \<longleftrightarrow> p = q" by (rule inj_on_eq_iff [OF i(3)])
  show "p \<in> set (tb_portfolios d) \<Longrightarrow> q \<in> set (tb_portfolios d) \<Longrightarrow> SpInstanceID p = SpInstanceID q \<longleftrightarrow> p = q"
    by (rule inj_on_eq_iff [OF i(4)])
qed

lemma map_update_where:
  "(\<And>r. r \<in> set rows \<Longrightarrow> P r \<Longrightarrow> h (f r) = h r) \<Longrightarrow> map h (update_where P f rows) = map h rows"
  by (simp add: update_where_def)

lemma set_update_where: "set (update_where P f rows) = f ` {r \<in> set rows. P r} \<union> {r \<in> set rows. \<not> P r}"
  by (auto simp: update_where_def)

lemma find_mem: "find P xs = Some x \<Longrightarrow> x \<in> set xs \<and> P x"
  by (induction xs) (auto split: if_splits)

lemma next_id_fresh: "next_id ids \<notin> set ids"
proof -
  have "i \<le> foldr max ids 0" if "i \<in> set ids" for i using that by (induction ids) auto
  then show ?thesis by (force simp: next_id_def)
qed

lemma apply_fill_frame [simp]:
  "SpID (apply_fill cmd q ps) = SpID ps" "SpInstanceID (apply_fill cmd q ps) = SpInstanceID ps"
  "USDTBalance (apply_fill cmd q ps) = USDTBalance ps" "ColdSealedBTC (apply_fill cmd q ps) = ColdSealedBTC ps"
  "LastProcessedBarTime (apply_fill cmd q ps) = LastProcessedBarTime ps"
  by (simp_all add: apply_fill_def)

lemma ledger_with_balances: "ledger_ok d \<Longrightarrow> ledger_ok (with_balances uid bs d)"
proof -
  have "map SpID (tb_portfolios (with_balances uid bs d)) = map SpID (tb_portfolios d)"
    "map SpInstanceID (tb_portfolios (with_balances uid bs d)) = map SpInstanceID (tb_portfolios d)"
    by (simp_all add: with_balances_portfolios)
  then show "ledger_ok d \<Longrightarrow> ledger_ok (with_balances uid bs d)" by (simp add: ledger_ok_def)
qed

lemma ledger_settled:
  assumes "ledger_ok d" "find (pending (EmClientOrderID m)) (tb_execs d) = Some exec"
    "find (\<lambda>ps. SpInstanceID ps = SxInstanceID exec) (tb_portfolios d) = Some ps"
    "EmClientOrderID m \<notin> TrClientOrderID ` set (tb_trades d)"
  shows "ledger_ok (settled codec uid m bs exec cmd ps d)"
proof -
  let ?d = "settled codec uid m bs exec cmd ps d"
  have ex: "exec \<in> set (tb_execs d)" "SxClientOrderID exec = EmClientOrderID m" using find_mem [OF assms(2)] by simp_all
  have ps: "ps \<in> set (tb_portfolios d)" using find_mem [OF assms(3)] by simp
  have same: "r = exec" if "r \<in> set (tb_execs d)" "SxID r = SxID exec" for r
    using ledger_keys(1) [OF assms(1) that(1) ex(1)] that(2) by simp
  have "map SxClientOrderID (tb_execs ?d) = map SxClientOrderID (tb_execs d)" "map SxID (tb_execs ?d) = map SxID (tb_execs d)"
    by (simp_all add: settled_frame mark_filled_def map_update_where)
  moreover have "map SpInstanceID (tb_portfolios ?d) = map SpInstanceID (tb_portfolios d)"
    "map SpID (tb_portfolios ?d) = map SpID (tb_portfolios d)"
  proof -
    have "SpInstanceID r = SpInstanceID ps" if "r \<in> set (tb_portfolios d)" "SpID r = SpID ps" for r
      using ledger_keys(3) [OF assms(1) that(1) ps] that(2) by simp
    then show "map SpInstanceID (tb_portfolios ?d) = map SpInstanceID (tb_portfolios d)"
      "map SpID (tb_portfolios ?d) = map SpID (tb_portfolios d)"
      by (auto simp: settled_frame update_where_def)
  qed
  moreover have "SxClientOrderID ` {x \<in> set (tb_execs ?d). SxStatus x = ''filled''} =
      insert (EmClientOrderID m) (SxClientOrderID ` {x \<in> set (tb_execs d). SxStatus x = ''filled''})"
  proof -
    have "{r \<in> set (tb_execs d). SxID r = SxID exec} = {exec}" "{r \<in> set (tb_execs d). SxID r \<noteq> SxID exec} = set (tb_execs d) - {exec}"
      using ex(1) same by auto
    then have "set (tb_execs ?d) = insert (exec\<lparr>SxStatus := ''filled''\<rparr>) (set (tb_execs d) - {exec})"
      by (simp add: settled_frame mark_filled_def set_update_where)
    moreover have "SxStatus exec \<noteq> ''filled''" using find_mem [OF assms(2)] by simp
    ultimately have "{x \<in> set (tb_execs ?d). SxStatus x = ''filled''} =
        insert (exec\<lparr>SxStatus := ''filled''\<rparr>) {x \<in> set (tb_execs d). SxStatus x = ''filled''}" by auto
    then show ?thesis by (simp add: ex(2))
  qed
  moreover have "map TrClientOrderID (tb_trades ?d) = map TrClientOrderID (tb_trades d) @ [EmClientOrderID m]"
    "TrClientOrderID ` set (tb_trades ?d) = insert (EmClientOrderID m) (TrClientOrderID ` set (tb_trades d))"
    by (simp_all add: settled_frame trade_of_def)
  ultimately show ?thesis using assms(1,4) by (simp add: ledger_ok_def)
qed

lemma ledger_report:
  assumes "processDeltaReport codec uid payload w = (r, u)" "ledger_ok (w_db w)"
  shows "ledger_ok (w_db u)"
  using assms(1)
proof (cases rule: report_cases)
  case (failed e)
  then show ?thesis using assms(2) by simp
next
  case balances
  then show ?thesis using assms(2) by (simp add: ledger_with_balances)
next
  case (fill m exec cmd ps)
  then show ?thesis using ledger_settled [OF assms(2) fill(5,7,8)] by simp
qed

text \<open>A new order is pending.\<close>

lemma ledger_add_exec:
  assumes "ledger_ok d" "SxClientOrderID x \<notin> SxClientOrderID ` set (tb_execs d)" "SxStatus x = ''pending''"
  shows "ledger_ok (add_exec x d)"
proof -
  have "{y. (y = x\<lparr>SxID := k\<rparr> \<or> y \<in> set (tb_execs d)) \<and> SxStatus y = ''filled''} = {y \<in> set (tb_execs d). SxStatus y = ''filled''}" for k
    using assms(3) by auto
  then show ?thesis
    using assms next_id_fresh [of "map SxID (tb_execs d)"] by (simp add: ledger_ok_def add_exec_def)
qed

section \<open>Positions\<close>

definition positions_ok :: "db \<Rightarrow> bool" where
  "positions_ok d \<longleftrightarrow> (\<forall>p \<in> set (tb_portfolios d). 0 \<le> DeadBTC p \<and> 0 \<le> FloatBTC p)"

lemma maxZero_nonneg: "0 \<le> x \<Longrightarrow> f_fin q \<Longrightarrow> 0 \<le> maxZero (x - q)"
proof -
  assume a: "0 \<le> x" "f_fin q"
  have "\<not> f_nan (x - q)"
  proof (cases "f_fin x")
    case True
    then show ?thesis using a by (intro f_nan_sub)
  next
    case False
    then show ?thesis using f_nonneg_cases [OF a(1)] f_fin_not [OF a(2)] by (auto simp: minus_f64_def plus_f64_def)
  qed
  then show ?thesis by (auto simp: maxZero_def f_less_val f_le_val)
qed

lemma apply_fill_nonneg:
  "0 \<le> DeadBTC ps \<Longrightarrow> 0 \<le> FloatBTC ps \<Longrightarrow> f_fin q \<Longrightarrow> 0 \<le> q \<Longrightarrow>
     0 \<le> DeadBTC (apply_fill cmd q ps) \<and> 0 \<le> FloatBTC (apply_fill cmd q ps)"
  by (simp add: apply_fill_def f_nonneg_add maxZero_nonneg)

lemma positions_report:
  assumes "processDeltaReport codec uid payload w = (r, u)" "positions_ok (w_db w)"
    "\<And>m. DrExecution payload = Some m \<Longrightarrow> f_fin (EmFilledQty m) \<and> 0 \<le> EmFilledQty m"
  shows "positions_ok (w_db u)"
  using assms(1)
proof (cases rule: report_cases)
  case (failed e)
  then show ?thesis using assms(2) by simp
next
  case balances
  then show ?thesis using assms(2) by (auto simp: positions_ok_def with_balances_portfolios)
next
  case (fill m exec cmd ps)
  have "ps \<in> set (tb_portfolios (w_db w))" using find_mem [OF fill(7)] by simp
  then have "0 \<le> DeadBTC (apply_fill cmd (EmFilledQty m) ps) \<and> 0 \<le> FloatBTC (apply_fill cmd (EmFilledQty m) ps)"
    using assms(2) assms(3) [OF fill(3)] by (intro apply_fill_nonneg) (auto simp: positions_ok_def)
  then show ?thesis using assms(2) by (auto simp: fill(9) positions_ok_def settled_frame update_where_def)
qed

section \<open>Properties\<close>



text \<open>Settling reports never drives a bitcoin position negative or to a NaN, as long as the reported
  quantities are finite and not negative.\<close>

theorem report_keeps_positions:
  assumes "processDeltaReport codec uid payload w = (r, u)" "ledger_ok (w_db w)" "positions_ok (w_db w)"
    "\<And>m. DrExecution payload = Some m \<Longrightarrow> f_fin (EmFilledQty m) \<and> 0 \<le> EmFilledQty m"
  shows "ledger_ok (w_db u) \<and> positions_ok (w_db u)"
  using ledger_report [OF assms(1,2)] positions_report [OF assms(1,3,4)] by blast

section \<open>Witnesses\<close>

definition buy_cmd :: storedCommand where
  "buy_cmd = \<lparr>ScAction = ''BUY'', ScEngine = ''MACRO'', ScSymbol = ''BTC/USDT'', ScLotType = ''DEAD_STACK''\<rparr>"

definition demo_codec :: dr_codec where
  "demo_codec = \<lparr>dr_parse = \<lambda>_. Some buy_cmd, dr_audit = \<lambda>_ _. ''{}''\<rparr>"

definition demo_db :: db where
  "demo_db = \<lparr>tb_instances = [\<lparr>SiID = 4, SiUserID = 9, SiTemplateID = 1, SiSymbol = ''BTC/USDT'', SiInterval = ''1day'',
       SiStatus = ''RUNNING'', SiParamPack = ''{}''\<rparr>],
     tb_portfolios = [\<lparr>SpID = 1, SpInstanceID = 4, USDTBalance = 0, DeadBTC = 0, FloatBTC = 1, ColdSealedBTC = 0,
       TotalEquity = 0, LastProcessedBarTime = time_zero\<rparr>],
     tb_runtimes = [], tb_trades = [],
     tb_execs = [\<lparr>SxID = 1, SxInstanceID = 4, SxClientOrderID = ''a'', SxStatus = ''pending'', SxRawPayload = ''{}''\<rparr>],
     tb_audits = [], tb_genes = [], tb_tasks = []\<rparr>"

definition demo_world :: world where
  "demo_world = \<lparr>w_db = demo_db, w_fails = \<lambda>_. False, w_stmt = 0, w_in_tx = False, w_aborted = False\<rparr>"

definition demo_report :: deltaReportPayload where
  "demo_report = \<lparr>DrExecution = Some \<lparr>EmClientOrderID = ''a'', EmFilledQty = 1, EmFilledPrice = 1, EmFee = 0\<rparr>,
     DrBalances = [\<lparr>BmAsset = ''USDT'', BmAvailable = 1, BmFrozen = 0\<rparr>]\<rparr>"

abbreviation once :: world where "once \<equiv> snd (processDeltaReport demo_codec 9 demo_report demo_world)"

lemma demo_ledger: "ledger_ok demo_db" and demo_positions: "positions_ok demo_db"
  and demo_settles: "\<not> isl (fst (processDeltaReport demo_codec 9 demo_report demo_world)) \<and>
    length (tb_trades (w_db once)) = 1 \<and> TrClientOrderID ` set (tb_trades (w_db once)) = {''a''}"
  by (code_simp, code_simp, code_simp)

lemma demo_run: "processDeltaReport demo_codec 9 demo_report demo_world =
    (fst (processDeltaReport demo_codec 9 demo_report demo_world), once)"
  by simp



theorem report_keeps_positions_witness: "positions_ok (w_db once)"
proof -
  have w: "w_db demo_world = demo_db" by (simp add: demo_world_def)
  have "f_fin (EmFilledQty m) \<and> 0 \<le> EmFilledQty m" if "DrExecution demo_report = Some m" for m
  proof -
    have "EmFilledQty m = 1" using that by (auto simp: demo_report_def)
    moreover have "(0 :: f64) \<le> 1" by (simp add: f_le_val)
    ultimately show ?thesis by simp
  qed
  then show ?thesis using report_keeps_positions [OF demo_run] demo_ledger demo_positions unfolding w by blast
qed

end
