(* ===== verification/Hub.thy ===== *)
theory Hub
  imports DeltaReport
begin

text \<open>
  \<open>internal/saas/ws/hub.go\<close>: the registry of agent connections and the handler of one connection.
  The state holds every connection ever accepted, the registry from users to connections, and the
  frames written, in order. A write fails on a closed connection and wherever the parameter
  \<open>hb_wfails\<close> says so. The handlers of several connections interleave with each other and with
  \<open>SendToAgent\<close>; the relation \<open>hub_step\<close> lists their steps. The codecs of the messages are parameters, and
  concrete in \<open>Wire\<close>.
\<close>

section \<open>State\<close>

datatype frame = TextFrame string | CloseFrame string

record AgentConn =
  ac_userID :: nat
  ac_open :: bool
  ac_serving :: bool

record Hub =
  hb_all :: "AgentConn list"
  hb_conns :: "nat \<rightharpoonup> nat"
  hb_sent :: "(nat \<times> frame) list"
  hb_wfails :: "nat \<Rightarrow> bool"
  hb_writes :: nat

record authMsg =
  AmType :: string
  AmToken :: string

record inboundMsg =
  ImType :: string
  ImPayload :: string

record envelope =
  EvType :: string
  EvPayload :: "bool option"

text \<open>The codecs, and \<open>auth.ParseToken\<close> as a function from tokens to users.\<close>

record hub_env =
  he_auth :: "string \<Rightarrow> authMsg option"
  he_token :: "string \<Rightarrow> nat option"
  he_msg :: "string \<Rightarrow> inboundMsg option"
  he_report :: "string \<Rightarrow> deltaReportPayload option"
  he_json :: "envelope \<Rightarrow> string"
  he_codec :: dr_codec

section \<open>Writing\<close>

definition write_frame :: "nat \<Rightarrow> frame \<Rightarrow> Hub \<Rightarrow> bool \<times> Hub" where
  "write_frame c f h = (let h' = h\<lparr>hb_writes := hb_writes h + 1\<rparr> in
     if c < length (hb_all h) \<and> ac_open (hb_all h ! c) \<and> \<not> hb_wfails h (hb_writes h)
     then (True, h'\<lparr>hb_sent := hb_sent h @ [(c, f)]\<rparr>) else (False, h'))"

definition writeRaw :: "nat \<Rightarrow> string \<Rightarrow> Hub \<Rightarrow> bool \<times> Hub" where
  "writeRaw c data = write_frame c (TextFrame data)"

definition close_conn :: "nat \<Rightarrow> Hub \<Rightarrow> Hub" where
  "close_conn c h = h\<lparr>hb_all := (hb_all h)[c := (hb_all h ! c)\<lparr>ac_open := False\<rparr>]\<rparr>"

definition SendToAgent :: "nat \<Rightarrow> string \<Rightarrow> Hub \<Rightarrow> bool \<times> Hub" where
  "SendToAgent userID payload h = (case hb_conns h userID of
     None \<Rightarrow> (False, h)
   | Some c \<Rightarrow> (case writeRaw c payload h of (ok, h) \<Rightarrow>
       if ok then (True, h) else (False, h\<lparr>hb_conns := (hb_conns h)(userID := None)\<rparr>)))"

section \<open>The handler of a connection\<close>

text \<open>The deferred calls of a registered handler: the user's registry entry goes, whatever it holds.\<close>

definition leave :: "nat \<Rightarrow> Hub \<Rightarrow> Hub" where
  "leave c h = (let u = ac_userID (hb_all h ! c); h = h\<lparr>hb_conns := (hb_conns h)(u := None)\<rparr> in
     h\<lparr>hb_all := (hb_all h)[c := (hb_all h ! c)\<lparr>ac_open := False, ac_serving := False\<rparr>]\<rparr>)"

definition evict :: "nat \<Rightarrow> Hub \<Rightarrow> Hub" where
  "evict old h = close_conn old (snd (write_frame old (CloseFrame ''replaced by new connection'') h))"

definition reply :: "hub_env \<Rightarrow> nat \<Rightarrow> envelope \<Rightarrow> Hub \<Rightarrow> Hub" where
  "reply env c e h = (case writeRaw c (he_json env e) h of (ok, h) \<Rightarrow> if ok then h else leave c h)"

definition refuse :: "hub_env \<Rightarrow> nat \<Rightarrow> Hub \<Rightarrow> Hub" where
  "refuse env c h = close_conn c (snd (writeRaw c (he_json env \<lparr>EvType = ''auth_result'', EvPayload = Some False\<rparr>) h))"

text \<open>Steps 3 and 4: the swap in the registry, the eviction of the previous connection, the answer.\<close>

definition register :: "hub_env \<Rightarrow> nat \<Rightarrow> nat \<Rightarrow> Hub \<Rightarrow> Hub" where
  "register env c userID h = (let prev = hb_conns h userID;
       h = h\<lparr>hb_all := (hb_all h)[c := \<lparr>ac_userID = userID, ac_open = True, ac_serving = True\<rparr>],
         hb_conns := (hb_conns h)(userID \<mapsto> c)\<rparr>;
       h = (case prev of None \<Rightarrow> h | Some old \<Rightarrow> evict old h)
     in reply env c \<lparr>EvType = ''auth_result'', EvPayload = Some True\<rparr> h)"

text \<open>Steps 1 to 4 for a new connection whose first message is \<open>first\<close> (\<open>None\<close> for a read error).\<close>

definition handshake :: "hub_env \<Rightarrow> string option \<Rightarrow> Hub \<Rightarrow> Hub" where
  "handshake env first h = (let c = length (hb_all h);
       h = h\<lparr>hb_all := hb_all h @ [\<lparr>ac_userID = 0, ac_open = True, ac_serving = False\<rparr>]\<rparr>
     in case first of
       None \<Rightarrow> close_conn c h
     | Some raw \<Rightarrow> (case he_auth env raw of
         None \<Rightarrow> refuse env c h
       | Some am \<Rightarrow> if AmType am \<noteq> ''auth'' then refuse env c h
           else (case he_token env (AmToken am) of
             None \<Rightarrow> refuse env c h
           | Some userID \<Rightarrow> register env c userID h)))"

text \<open>One turn of the message loop.\<close>

definition on_message :: "hub_env \<Rightarrow> nat \<Rightarrow> string \<Rightarrow> Hub \<times> world \<Rightarrow> Hub \<times> world" where
  "on_message env c raw = (\<lambda>(h, w). case he_msg env raw of
     None \<Rightarrow> (h, w)
   | Some msg \<Rightarrow>
       if ImType msg = ''heartbeat'' then (reply env c \<lparr>EvType = ''heartbeat_ack'', EvPayload = None\<rparr> h, w)
       else if ImType msg = ''delta_report'' then
         (case he_report env (ImPayload msg) of
            None \<Rightarrow> (h, w)
          | Some payload \<Rightarrow>
              let w = snd (processDeltaReport (he_codec env) (ac_userID (hb_all h ! c)) payload w)
              in (reply env c \<lparr>EvType = ''report_ack'', EvPayload = None\<rparr> h, w))
       else (h, w))"

section \<open>Interleavings\<close>

inductive hub_step :: "hub_env \<Rightarrow> Hub \<times> world \<Rightarrow> Hub \<times> world \<Rightarrow> bool" for env where
  connect: "hub_step env (h, w) (handshake env first h, w)"
| receive: "c < length (hb_all h) \<Longrightarrow> ac_serving (hb_all h ! c) \<Longrightarrow> ac_open (hb_all h ! c) \<Longrightarrow>
    hub_step env (h, w) (on_message env c raw (h, w))"
| disconnect: "c < length (hb_all h) \<Longrightarrow> ac_serving (hb_all h ! c) \<Longrightarrow> hub_step env (h, w) (leave c h, w)"
| send: "hub_step env (h, w) (snd (SendToAgent userID payload h), w)"

inductive_cases hub_stepE: "hub_step env s t"

definition NewHub :: "(nat \<Rightarrow> bool) \<Rightarrow> Hub" where
  "NewHub fails = \<lparr>hb_all = [], hb_conns = Map.empty, hb_sent = [], hb_wfails = fails, hb_writes = 0\<rparr>"

inductive hub_reach :: "hub_env \<Rightarrow> (nat \<Rightarrow> bool) \<Rightarrow> Hub \<times> world \<Rightarrow> bool" for env fails where
  start: "hub_reach env fails (NewHub fails, w)"
| step: "hub_reach env fails s \<Longrightarrow> hub_step env s t \<Longrightarrow> hub_reach env fails t"

text \<open>A registered connection was authenticated under the user it is registered for, and is served.\<close>

definition registry_ok :: "Hub \<Rightarrow> bool" where
  "registry_ok h \<longleftrightarrow> (\<forall>u c. hb_conns h u = Some c \<longrightarrow> c < length (hb_all h) \<and> ac_userID (hb_all h ! c) = u \<and>
     ac_serving (hb_all h ! c))"

lemma write_frame_frame [simp]:
  "hb_all (snd (write_frame c f h)) = hb_all h" "hb_conns (snd (write_frame c f h)) = hb_conns h"
  by (simp_all add: write_frame_def Let_def)

lemma close_conn_frame [simp]:
  "hb_conns (close_conn c h) = hb_conns h" "length (hb_all (close_conn c h)) = length (hb_all h)"
  "hb_sent (close_conn c h) = hb_sent h"
  by (simp_all add: close_conn_def)

lemma registry_okD:
  "registry_ok h \<Longrightarrow> hb_conns h u = Some c \<Longrightarrow>
     c < length (hb_all h) \<and> ac_userID (hb_all h ! c) = u \<and> ac_serving (hb_all h ! c)"
  by (simp add: registry_ok_def)

lemma close_conn_nth [simp]:
  "i < length (hb_all h) \<Longrightarrow> ac_userID (hb_all (close_conn c h) ! i) = ac_userID (hb_all h ! i)"
  "i < length (hb_all h) \<Longrightarrow> ac_serving (hb_all (close_conn c h) ! i) = ac_serving (hb_all h ! i)"
  by (cases "i = c"; simp add: close_conn_def)+

lemma registry_close: "registry_ok h \<Longrightarrow> registry_ok (close_conn c h)"
  by (simp add: registry_ok_def)

lemma registry_write: "registry_ok h \<Longrightarrow> registry_ok (snd (write_frame c f h))"
  by (simp add: registry_ok_def)

lemma registry_forget: "registry_ok h \<Longrightarrow> registry_ok (h\<lparr>hb_conns := (hb_conns h)(u := None)\<rparr>)"
  by (simp add: registry_ok_def)

lemma registry_leave:
  assumes "registry_ok h"
  shows "registry_ok (leave c h)"
  unfolding registry_ok_def
proof (intro allI impI)
  fix u i
  assume i: "hb_conns (leave c h) u = Some i"
  then have "u \<noteq> ac_userID (hb_all h ! c)" "hb_conns h u = Some i" by (auto simp: leave_def Let_def split: if_splits)
  then show "i < length (hb_all (leave c h)) \<and> ac_userID (hb_all (leave c h) ! i) = u \<and> ac_serving (hb_all (leave c h) ! i)"
    using registry_okD [OF assms, of u i] by (cases "i = c") (auto simp: leave_def Let_def)
qed

lemma registry_evict: "registry_ok h \<Longrightarrow> registry_ok (evict c h)"
  by (simp add: evict_def registry_close registry_write)

lemma registry_reply: "registry_ok h \<Longrightarrow> registry_ok (reply env c e h)"
  using registry_write [of h c "TextFrame (he_json env e)"] by (simp add: reply_def writeRaw_def split_beta registry_leave)

lemma registry_send: "registry_ok h \<Longrightarrow> registry_ok (snd (SendToAgent u p h))"
  by (auto simp: SendToAgent_def writeRaw_def split_beta registry_ok_def split: option.split)

lemma registry_refuse: "registry_ok h \<Longrightarrow> registry_ok (refuse env c h)"
  by (simp add: refuse_def writeRaw_def registry_close registry_write)

lemma registry_register:
  assumes "registry_ok h" "c < length (hb_all h)" "\<not> ac_serving (hb_all h ! c)"
  shows "registry_ok (register env c userID h)"
proof -
  let ?h = "h\<lparr>hb_all := (hb_all h)[c := \<lparr>ac_userID = userID, ac_open = True, ac_serving = True\<rparr>],
    hb_conns := (hb_conns h)(userID \<mapsto> c)\<rparr>"
  have "i \<noteq> c" if "hb_conns h u = Some i" for u i using registry_okD [OF assms(1) that] assms(3) by auto
  then have "registry_ok ?h" using assms(1,2) by (auto simp: registry_ok_def nth_list_update)
  then have "registry_ok (case hb_conns h userID of None \<Rightarrow> ?h | Some old \<Rightarrow> evict old ?h)"
    by (simp add: registry_evict split: option.split)
  then show ?thesis unfolding register_def Let_def by (rule registry_reply)
qed

lemma registry_handshake:
  assumes "registry_ok h"
  shows "registry_ok (handshake env first h)"
proof -
  let ?h = "h\<lparr>hb_all := hb_all h @ [\<lparr>ac_userID = 0, ac_open = True, ac_serving = False\<rparr>]\<rparr>"
  have e: "registry_ok ?h" using assms by (auto simp: registry_ok_def nth_append less_SucI)
  have "registry_ok (register env (length (hb_all h)) u ?h)" for u by (rule registry_register [OF e]) simp_all
  then show ?thesis
    using registry_close [OF e] registry_refuse [OF e] by (simp add: handshake_def Let_def split: option.split)
qed

lemma registry_step: "hub_step env s t \<Longrightarrow> registry_ok (fst s) \<Longrightarrow> registry_ok (fst t)"
  by (cases rule: hub_step.cases)
    (auto simp: registry_handshake registry_leave registry_send registry_reply on_message_def Let_def split: option.split)

lemma registry_reach: "hub_reach env fails s \<Longrightarrow> registry_ok (fst s)"
proof (induction rule: hub_reach.induct)
  case (start w)
  then show ?case by (simp add: registry_ok_def NewHub_def)
next
  case (step s t)
  then show ?case using registry_step by blast
qed

section \<open>The channel to the agents\<close>

text \<open>What the instance manager relies on: a send that reports success has delivered the payload to
  that user and nothing to anybody else, and one that reports failure has delivered nothing.\<close>

locale agent_channel =
  fixes send :: "nat \<Rightarrow> string \<Rightarrow> 'h \<Rightarrow> bool \<times> 'h" and delivered :: "'h \<Rightarrow> nat \<Rightarrow> string list" and inv :: "'h \<Rightarrow> bool"
  assumes keeps: "inv h \<Longrightarrow> inv (snd (send u p h))"
    and online: "inv h \<Longrightarrow> fst (send u p h) \<Longrightarrow>
      delivered (snd (send u p h)) = (delivered h)(u := delivered h u @ [p])"
    and offline: "inv h \<Longrightarrow> \<not> fst (send u p h) \<Longrightarrow> delivered (snd (send u p h)) = delivered h"

context agent_channel
begin

text \<open>Either way, the user's deliveries grow by the payload or by nothing, and nobody else's change.\<close>

lemma send_extends:
  assumes "inv h"
  shows "\<exists>ps. (ps = [] \<or> ps = [p]) \<and> delivered (snd (send u p h)) = (delivered h)(u := delivered h u @ ps)"
proof (cases "fst (send u p h)")
  case True
  then show ?thesis using online [OF assms] by (intro exI [of _ "[p]"]) simp
next
  case False
  then show ?thesis using offline [OF assms] by (intro exI [of _ "[]"]) simp
qed

end

text \<open>The texts written to connections authenticated as a user, in order.\<close>

definition text_to :: "Hub \<Rightarrow> nat \<Rightarrow> nat \<times> frame \<Rightarrow> string list" where
  "text_to h u = (\<lambda>(c, f). case f of TextFrame s \<Rightarrow> if ac_userID (hb_all h ! c) = u then [s] else [] | CloseFrame _ \<Rightarrow> [])"

definition delivered_to :: "Hub \<Rightarrow> nat \<Rightarrow> string list" where
  "delivered_to h u = concat (map (text_to h u) (hb_sent h))"

lemma SendToAgent_cases:
  assumes "registry_ok h"
  obtains (sent) c where "fst (SendToAgent u p h)" "hb_conns h u = Some c" "ac_userID (hb_all h ! c) = u"
      "ac_open (hb_all h ! c)" "hb_sent (snd (SendToAgent u p h)) = hb_sent h @ [(c, TextFrame p)]"
      "hb_all (snd (SendToAgent u p h)) = hb_all h" "hb_conns (snd (SendToAgent u p h)) = hb_conns h"
  | (offline) "\<not> fst (SendToAgent u p h)" "hb_sent (snd (SendToAgent u p h)) = hb_sent h"
      "hb_all (snd (SendToAgent u p h)) = hb_all h" "hb_conns (snd (SendToAgent u p h)) = (hb_conns h)(u := None)"
proof (cases "hb_conns h u")
  case None
  then show ?thesis by (intro offline) (auto simp: SendToAgent_def)
next
  case (Some c)
  note r = registry_okD [OF assms Some]
  show ?thesis
  proof (cases "ac_open (hb_all h ! c) \<and> \<not> hb_wfails h (hb_writes h)")
    case True
    then show ?thesis using r by (intro sent) (auto simp: SendToAgent_def Some writeRaw_def write_frame_def Let_def)
  next
    case False
    then show ?thesis using r by (intro offline) (auto simp: SendToAgent_def Some writeRaw_def write_frame_def Let_def)
  qed
qed

interpretation hub: agent_channel SendToAgent delivered_to registry_ok
proof
  show "registry_ok h \<Longrightarrow> registry_ok (snd (SendToAgent u p h))" for h u p by (rule registry_send)
next
  fix h u p
  assume h: "registry_ok h" "fst (SendToAgent u p h)"
  from h(1) show "delivered_to (snd (SendToAgent u p h)) = (delivered_to h)(u := delivered_to h u @ [p])"
    using h(2) by (cases rule: SendToAgent_cases [where u = u and p = p])
      (auto simp: fun_eq_iff delivered_to_def text_to_def)
next
  fix h u p
  assume h: "registry_ok h" "\<not> fst (SendToAgent u p h)"
  from h(1) show "delivered_to (snd (SendToAgent u p h)) = delivered_to h"
    using h(2) by (cases rule: SendToAgent_cases [where u = u and p = p])
      (auto simp: fun_eq_iff delivered_to_def text_to_def)
qed

section \<open>Properties\<close>

text \<open>C21. Commands reach only the agent they are meant for. In every state the hub reaches, under any
  interleaving of connections, messages, disconnections and sends, a send for a user that reports
  success has written the payload, once, to an open connection that was authenticated as that
  user, and one that reports failure has written nothing and leaves the user unregistered.\<close>

theorem hub_delivers_to_owner:
  assumes "hub_reach env fails (h, w)" "SendToAgent u p h = (ok, h')"
  shows "(ok \<longrightarrow> (\<exists>c. hb_conns h u = Some c \<and> ac_userID (hb_all h ! c) = u \<and> ac_open (hb_all h ! c) \<and>
      hb_sent h' = hb_sent h @ [(c, TextFrame p)])) \<and>
    (\<not> ok \<longrightarrow> hb_sent h' = hb_sent h \<and> hb_conns h' u = None)"
proof -
  have "registry_ok h" using registry_reach [OF assms(1)] by simp
  then show ?thesis
    using assms(2) by (cases rule: SendToAgent_cases [where u = u and p = p]) auto
qed

text \<open>An agent that reconnects goes off line: the handler of the connection it replaces removes the
  registry entry of its successor, which stays open and served.\<close>

lemma reconnect_goes_offline:
  assumes "he_auth env raw = Some am" "AmType am = ''auth''" "he_token env (AmToken am) = Some u"
  defines "h1 \<equiv> handshake env (Some raw) (NewHub (\<lambda>_. False))"
  defines "h2 \<equiv> handshake env (Some raw) h1"
  defines "h3 \<equiv> leave 0 h2"
  shows "hub_step env (h1, w) (h2, w) \<and> hub_step env (h2, w) (h3, w) \<and> hb_conns h2 u = Some 1 \<and>
    ac_open (hb_all h3 ! 1) \<and> ac_serving (hb_all h3 ! 1) \<and> ac_userID (hb_all h3 ! 1) = u \<and> \<not> fst (SendToAgent u p h3)"
proof -
  note d = handshake_def register_def reply_def evict_def close_conn_def writeRaw_def write_frame_def leave_def
  have h1: "hb_all h1 = [\<lparr>ac_userID = u, ac_open = True, ac_serving = True\<rparr>] \<and> hb_conns h1 = [u \<mapsto> 0] \<and>
      hb_wfails h1 = (\<lambda>_. False)"
    by (simp add: h1_def d assms(1-3) NewHub_def Let_def)
  then have h2: "hb_all h2 = [\<lparr>ac_userID = u, ac_open = False, ac_serving = True\<rparr>,
      \<lparr>ac_userID = u, ac_open = True, ac_serving = True\<rparr>] \<and> hb_conns h2 = [u \<mapsto> 1]"
    by (simp add: h2_def d assms(1-3) Let_def)
  then have h3: "hb_all h3 ! 1 = \<lparr>ac_userID = u, ac_open = True, ac_serving = True\<rparr> \<and> hb_conns h3 u = None"
    by (simp add: h3_def leave_def Let_def)
  have "hub_step env (h1, w) (h2, w)" unfolding h2_def by (rule hub_step.connect)
  moreover have "hub_step env (h2, w) (h3, w)" unfolding h3_def using h2 by (intro hub_step.disconnect) auto
  ultimately show ?thesis using h2 h3 by (auto simp: SendToAgent_def)
qed

theorem hub_delivers_to_owner_witness:
  "\<exists>h. hub_reach \<lparr>he_auth = \<lambda>_. Some \<lparr>AmType = ''auth'', AmToken = ''t''\<rparr>, he_token = \<lambda>_. Some 9, he_msg = \<lambda>_. None,
       he_report = \<lambda>_. None, he_json = \<lambda>_. ''{}'', he_codec = demo_codec\<rparr> (\<lambda>_. False) (h, demo_world) \<and>
     fst (SendToAgent 9 ''buy'' h) \<and> hb_sent (snd (SendToAgent 9 ''buy'' h)) = hb_sent h @ [(0, TextFrame ''buy'')] \<and>
     \<not> fst (SendToAgent 8 ''buy'' h) \<and> hb_sent (snd (SendToAgent 8 ''buy'' h)) = hb_sent h"
proof -
  let ?env = "\<lparr>he_auth = \<lambda>_. Some \<lparr>AmType = ''auth'', AmToken = ''t''\<rparr>, he_token = \<lambda>_. Some 9, he_msg = \<lambda>_. None,
    he_report = \<lambda>_. None, he_json = \<lambda>_. ''{}'', he_codec = demo_codec\<rparr>"
  let ?h = "handshake ?env (Some ''x'') (NewHub (\<lambda>_. False))"
  have r: "hub_reach ?env (\<lambda>_. False) (?h, demo_world)" by (rule hub_reach.step [OF hub_reach.start hub_step.connect])
  have "hb_conns ?h = [9 \<mapsto> 0] \<and> fst (SendToAgent 9 ''buy'' ?h) \<and> \<not> fst (SendToAgent 8 ''buy'' ?h)"
    by (simp add: handshake_def register_def reply_def writeRaw_def write_frame_def NewHub_def SendToAgent_def Let_def)
  then show ?thesis
    using r hub_delivers_to_owner [OF r surjective_pairing, of 9 "''buy''"] hub_delivers_to_owner [OF r surjective_pairing, of 8 "''buy''"]
    by (intro exI [of _ ?h]) auto
qed

end
