(* ===== verification/InstanceManager.thy ===== *)
theory InstanceManager
  imports Hub Evolvable
begin

text \<open>
  \<open>internal/saas/instance/manager.go\<close>: the life cycle of strategy instances, the ten steps of \<open>Tick\<close>,
  the ledger release, the dispatch of commands and the candle fetcher. What the code takes from
  outside (the HTTP client, the JSON codecs, the float parser, \<open>sort.Slice\<close>, Redis, the clock,
  the strategy) is the record \<open>im_env\<close>. The codecs of the program are in \<open>Wire\<close> and \<open>StoredJson\<close>.
\<close>

section \<open>Data\<close>

record TradeCommand =
  TcClientOrderID :: string
  TcAction :: string
  TcEngine :: string
  TcSymbol :: string
  TcAmountUSDT :: string
  TcQtyAsset :: string
  TcLotType :: string

record bitgetCandleResp =
  BcCode :: string
  BcMsg :: string
  BcData :: "string list list"

record im_env =
  im_http :: "string \<Rightarrow> string option"
  im_candles :: "string \<Rightarrow> bitgetCandleResp option"
  im_float :: "string \<Rightarrow> f64"
  im_sort :: "Bar list \<Rightarrow> Bar list"
  im_redis :: "string \<Rightarrow> string option"
  im_gene :: "string \<Rightarrow> GeneRecord option"
  im_rt_marshal :: "RuntimeState \<Rightarrow> string option"
  im_rt_unmarshal :: "string \<Rightarrow> RuntimeState option"
  im_cmd :: "TradeCommand \<Rightarrow> string option"
  im_envelope :: "TradeCommand \<Rightarrow> string"
  im_audit :: "f64 \<Rightarrow> string"
  im_json :: json
  im_step :: "StrategyInput \<Rightarrow> StrategyOutput"
  im_now :: i64

section \<open>Numbers as text\<close>

text \<open>\<open>strconv.ParseInt\<close> in base 10 with 64 bits: the value returned, errors included.\<close>

primrec parse_uint :: "string \<Rightarrow> int \<Rightarrow> int option" where
  "parse_uint [] acc = Some acc"
| "parse_uint (c # cs) acc = (if c \<notin> set ''0123456789'' then None
     else let n = acc * 10 + digit_val c in if 2 ^ 64 \<le> n then Some (2 ^ 64 - 1) else parse_uint cs n)"

definition ParseInt :: "string \<Rightarrow> i64" where
  "ParseInt s = (let neg = (s \<noteq> [] \<and> hd s = CHR ''-''); ds = (if s \<noteq> [] \<and> (hd s = CHR ''-'' \<or> hd s = CHR ''+'') then tl s else s)
     in if ds = [] then 0 else case parse_uint ds 0 of None \<Rightarrow> 0
       | Some n \<Rightarrow> if neg then (if 2 ^ 63 < n then word_of_int (- (2 ^ 63)) else word_of_int (- n))
           else (if 2 ^ 63 \<le> n then word_of_int (2 ^ 63 - 1) else word_of_int n))"

text \<open>\<open>strconv.FormatFloat\<close> with the format \<open>f\<close>: the exact value rounded to \<open>prec\<close> places, ties to even.\<close>

definition fixed_digits :: "nat \<Rightarrow> int \<Rightarrow> string" where
  "fixed_digits prec n = map (\<lambda>i. digit (n div 10 ^ (prec - 1 - i) mod 10)) [0..<prec]"

definition FormatFloat :: "f64 \<Rightarrow> nat \<Rightarrow> string" where
  "FormatFloat x prec = (if f_nan x then ''NaN'' else if f_inf x then (if f_sign x then ''-Inf'' else ''+Inf'')
     else let n = round_even (\<bar>f_val x\<bar> * 10 ^ prec) in
       (if f_sign x then ''-'' else []) @ show_nat (n div 10 ^ prec) @
       (if prec = 0 then [] else ''.'' @ fixed_digits prec (n mod 10 ^ prec)))"

section \<open>State machine\<close>

definition set_status :: "(StrategyInstance \<Rightarrow> bool) \<Rightarrow> string \<Rightarrow> db \<Rightarrow> (db \<times> nat) option" where
  "set_status P status d = Some (d\<lparr>tb_instances := update_where P (\<lambda>i. i\<lparr>SiStatus := status\<rparr>) (tb_instances d)\<rparr>,
     length (filter P (tb_instances d)))"

definition Start :: "nat \<Rightarrow> world \<Rightarrow> go_error option \<times> world" where
  "Start instanceID w = (case statement (set_status (\<lambda>i. SiID i = instanceID \<and> SiStatus i = ''STOPPED'') ''RUNNING'') w of
     (Inl e, w) \<Rightarrow> (Some (Wrapf ''Start'' e), w)
   | (Inr n, w) \<Rightarrow> if n = 0 then (Some (Errorf (''Start: instance '' @ show_nat (int instanceID) @ '' is not in STOPPED state'')), w) else (None, w))"

definition Stop :: "nat \<Rightarrow> world \<Rightarrow> go_error option \<times> world" where
  "Stop instanceID w = (case statement (set_status (\<lambda>i. SiID i = instanceID \<and> SiStatus i = ''RUNNING'') ''STOPPED'') w of
     (Inl e, w) \<Rightarrow> (Some (Wrapf ''Stop'' e), w)
   | (Inr n, w) \<Rightarrow> if n = 0 then (Some (Errorf (''Stop: instance '' @ show_nat (int instanceID) @ '' is not in RUNNING state'')), w) else (None, w))"

definition Delete :: "nat \<Rightarrow> world \<Rightarrow> go_error option \<times> world" where
  "Delete instanceID w = (case statement (set_status (\<lambda>i. SiID i = instanceID) ''DELETED'') w of
     (Inl e, w) \<Rightarrow> (Some (Wrapf ''Delete'' e), w)
   | (Inr n, w) \<Rightarrow> (None, w))"

definition markError :: "nat \<Rightarrow> world \<Rightarrow> world" where
  "markError instanceID w =
     snd (statement (set_status (\<lambda>i. SiID i = instanceID \<and> SiStatus i = ''RUNNING'') ''ERROR'') w)"

section \<open>Candles\<close>

definition candle_bar :: "im_env \<Rightarrow> string list \<Rightarrow> Bar list" where
  "candle_bar env row = (if length row < 5 then []
     else [\<lparr>OpenTime = ParseInt (row ! 0), Open = im_float env (row ! 1), High = im_float env (row ! 2),
       Low = im_float env (row ! 3), Close = im_float env (row ! 4), Volume = 0\<rparr>])"

definition fetchLatestBars :: "im_env \<Rightarrow> string \<Rightarrow> string \<Rightarrow> nat \<Rightarrow> go_error + Bar list" where
  "fetchLatestBars env symbol interval limit =
     (let sym = filter (\<lambda>c. c \<noteq> CHR ''/'') symbol;
          url = ''https://api.bitget.com/api/v2/spot/market/candles?symbol='' @ sym @ ''&granularity='' @ interval @
            ''&limit='' @ show_nat (int limit)
      in case im_http env url of
        None \<Rightarrow> Inl (Errorf ''http get'')
      | Some body \<Rightarrow> (case im_candles env body of
          None \<Rightarrow> Inl (Errorf ''unmarshal candles'')
        | Some result \<Rightarrow> if BcCode result \<noteq> ''00000'' then Inl (Errorf (''bitget error '' @ BcCode result @ '': '' @ BcMsg result))
            else Inr (im_sort env (concat (map (candle_bar env) (BcData result))))))"

section \<open>Loading\<close>

definition loadOrCreatePortfolio :: "nat \<Rightarrow> world \<Rightarrow> (go_error + StorePortfolio) \<times> world" where
  "loadOrCreatePortfolio instanceID w = (case db_first tb_portfolios (\<lambda>p. SpInstanceID p = instanceID) w of
     (Inl e, w) \<Rightarrow> if is_not_found e
       then (case create_portfolio \<lparr>SpID = 0, SpInstanceID = instanceID, USDTBalance = 0, DeadBTC = 0, FloatBTC = 0,
           ColdSealedBTC = 0, TotalEquity = 0, LastProcessedBarTime = time_zero\<rparr> w of
         (Inl e, w) \<Rightarrow> (Inl (Wrapf ''create portfolio'' e), w)
       | (Inr ps, w) \<Rightarrow> (Inr ps, w))
       else (Inl e, w)
   | (Inr ps, w) \<Rightarrow> (Inr ps, w))"

definition load_runtime :: "nat \<Rightarrow> world \<Rightarrow> (go_error + StoreRuntime option) \<times> world" where
  "load_runtime instanceID w = (case db_first tb_runtimes (\<lambda>r. SrInstanceID r = instanceID) w of
     (Inl e, w) \<Rightarrow> if is_not_found e then (Inr None, w) else (Inl (Wrapf ''tick step2 runtime'' e), w)
   | (Inr r, w) \<Rightarrow> (Inr (Some r), w))"

definition decode_params :: "im_env \<Rightarrow> string \<Rightarrow> Chromosome \<times> SpawnPoint" where
  "decode_params env raw = (DecodeElite (im_json env) raw, DecodeSpawnFromParamPack (im_json env) raw)"

text \<open>\<open>created_at desc\<close>, ties by the key.\<close>

primrec newest :: "GeneRecord list \<Rightarrow> GeneRecord option" where
  "newest [] = None"
| "newest (g # gs) = (case newest gs of None \<Rightarrow> Some g
     | Some h \<Rightarrow> if GrCreatedAt g < GrCreatedAt h then Some h else Some g)"

definition champion_row :: "nat \<Rightarrow> world \<Rightarrow> (go_error + GeneRecord) \<times> world" where
  "champion_row strategyID w =
     (case db_query (\<lambda>d. newest (filter (\<lambda>g. GrStrategyID g = strategyID \<and> GrRole g = ''champion'') (tb_genes d))) w of
       (Inl e, w) \<Rightarrow> (Inl e, w)
     | (Inr None, w) \<Rightarrow> (Inl ErrRecordNotFound, w)
     | (Inr (Some g), w) \<Rightarrow> (Inr g, w))"

definition champion_key :: "nat \<Rightarrow> string" where
  "champion_key templateID = ''champion:'' @ show_nat (int templateID)"

definition cached_champion :: "im_env \<Rightarrow> nat \<Rightarrow> GeneRecord option" where
  "cached_champion env templateID = (case im_redis env (champion_key templateID) of
     None \<Rightarrow> None | Some raw \<Rightarrow> if raw = [] then None else im_gene env raw)"

definition loadChampionParams :: "im_env \<Rightarrow> StrategyInstance \<Rightarrow> world \<Rightarrow> (go_error + Chromosome \<times> SpawnPoint) \<times> world" where
  "loadChampionParams env inst w = (case cached_champion env (SiTemplateID inst) of
     Some champion \<Rightarrow> (Inr (decode_params env (GrParamPack champion)), w)
   | None \<Rightarrow> (case champion_row (SiTemplateID inst) w of
       (Inl e, w) \<Rightarrow> if is_not_found e then (Inr (decode_params env (SiParamPack inst)), w) else (Inl e, w)
     | (Inr champion, w) \<Rightarrow> (Inr (decode_params env (GrParamPack champion)), w)))"

section \<open>Running the strategy\<close>

definition clamp_zero :: "f64 \<Rightarrow> f64" where
  "clamp_zero v = (if v < 0 then 0 else v)"

definition tick_portfolio :: "StorePortfolio \<Rightarrow> SpawnPoint \<Rightarrow> PortfolioState" where
  "tick_portfolio ps sp = \<lparr>TotalUSDT = USDTBalance ps, ReserveFloor = SpReserveFloor sp,
     SpendableUSDT = clamp_zero (USDTBalance ps - SpReserveFloor sp), DeadStack = DeadBTC ps,
     FloatStack = FloatBTC ps, ColdSealedStack = ColdSealedBTC ps, NAVInitial = InitialCapital sp\<rparr>"

definition tick_runtime :: "im_env \<Rightarrow> StoreRuntime option \<Rightarrow> RuntimeState" where
  "tick_runtime env row = (case row of None \<Rightarrow> zero_runtime
   | Some r \<Rightarrow> if SrPayload r \<noteq> [] \<and> SrPayload r \<noteq> ''{}''
       then (case im_rt_unmarshal env (SrPayload r) of None \<Rightarrow> zero_runtime | Some rt \<Rightarrow> rt) else zero_runtime)"

definition tick_input :: "im_env \<Rightarrow> Bar list \<Rightarrow> StorePortfolio \<Rightarrow> StoreRuntime option \<Rightarrow> Chromosome \<Rightarrow> SpawnPoint \<Rightarrow> StrategyInput" where
  "tick_input env bars ps row chromosome spawn = \<lparr>StCloses = map Close bars, StHighs = map High bars, StLows = map Low bars,
     StTimestamps = map OpenTime bars, StPortfolio = tick_portfolio ps spawn, StRuntime = tick_runtime env row,
     StParams = chromosome, StSpawn = spawn\<rparr>"

definition upsertRuntime :: "im_env \<Rightarrow> nat \<Rightarrow> RuntimeState \<Rightarrow> StoreRuntime option \<Rightarrow> world \<Rightarrow> (go_error + unit) \<times> world" where
  "upsertRuntime env instanceID rt existing w = (case im_rt_marshal env rt of
     None \<Rightarrow> (Inl (Errorf ''marshal runtime''), w)
   | Some payload \<Rightarrow> (case existing of
       None \<Rightarrow> create_runtime \<lparr>SrID = 0, SrInstanceID = instanceID, SrPayload = payload\<rparr> w
     | Some r \<Rightarrow> db_exec (\<lambda>d. d\<lparr>tb_runtimes := update_where (\<lambda>x. SrID x = SrID r) (\<lambda>x. x\<lparr>SrPayload := payload\<rparr>)
         (tb_runtimes d)\<rparr>) w))"

section \<open>Releases and orders\<close>

definition release_body :: "im_env \<Rightarrow> nat \<Rightarrow> f64 \<Rightarrow> world \<Rightarrow> (go_error + unit) \<times> world" where
  "release_body env instanceID qty w = (case db_first tb_portfolios (\<lambda>p. SpInstanceID p = instanceID) w of
     (Inl e, w) \<Rightarrow> (Inl e, w)
   | (Inr ps, w) \<Rightarrow> let qty = (if DeadBTC ps < qty then DeadBTC ps else qty);
         ps = ps\<lparr>DeadBTC := DeadBTC ps - qty, FloatBTC := FloatBTC ps + qty\<rparr>
       in case save_portfolio ps w of
         (Inl e, w) \<Rightarrow> (Inl e, w)
       | (Inr _, w) \<Rightarrow> create_audit \<lparr>AlID = 0, AlInstanceID = instanceID, AlEventType = ''dead_release'',
             AlPayload = im_audit env qty\<rparr> w)"

definition handleRelease :: "im_env \<Rightarrow> nat \<Rightarrow> TradeIntent \<Rightarrow> world \<Rightarrow> world" where
  "handleRelease env instanceID intent w = (let qty = QtyAsset intent in
     if qty \<le> 0 then w else snd (transaction (release_body env instanceID qty) w))"

definition intentToCommand :: "StrategyInstance \<Rightarrow> TradeIntent \<Rightarrow> i64 \<Rightarrow> TradeCommand" where
  "intentToCommand inst intent nowMs = (let cmd = \<lparr>TcClientOrderID = ''inst'' @ show_nat (int (SiID inst)) @ ''-'' @
         Engine intent @ ''-'' @ show_int (sint nowMs), TcAction = Action intent, TcEngine = Engine intent,
         TcSymbol = SiSymbol inst, TcAmountUSDT = [], TcQtyAsset = [], TcLotType = LotType intent\<rparr>
     in if Action intent = ''BUY'' then cmd\<lparr>TcAmountUSDT := FormatFloat (AmountUSDT intent) 2\<rparr>
       else if Action intent = ''SELL'' then cmd\<lparr>TcQtyAsset := FormatFloat (QtyAsset intent) 8\<rparr> else cmd)"

definition dispatchCommand :: "im_env \<Rightarrow> StrategyInstance \<Rightarrow> TradeCommand \<Rightarrow> world \<times> Hub \<Rightarrow> go_error option \<times> world \<times> Hub" where
  "dispatchCommand env inst cmd = (\<lambda>(w, h). case im_cmd env cmd of
     None \<Rightarrow> (Some (Errorf ''marshal command''), w, h)
   | Some raw \<Rightarrow> (case create_exec \<lparr>SxID = 0, SxInstanceID = SiID inst, SxClientOrderID = TcClientOrderID cmd,
         SxStatus = ''pending'', SxRawPayload = raw\<rparr> w of
       (Inl e, w) \<Rightarrow> (Some (Wrapf ''create SpotExecution'' e), w, h)
     | (Inr _, w) \<Rightarrow> (None, w, snd (SendToAgent (SiUserID inst) (im_envelope env cmd) h))))"

section \<open>Tick\<close>

text \<open>The loops of steps 8 and 9.\<close>

primrec release_loop :: "im_env \<Rightarrow> nat \<Rightarrow> TradeIntent list \<Rightarrow> world \<Rightarrow> world" where
  "release_loop env instanceID [] w = w"
| "release_loop env instanceID (i # is) w =
     release_loop env instanceID is (if Action i = ''RELEASE'' then handleRelease env instanceID i w else w)"

primrec dispatch_loop :: "im_env \<Rightarrow> StrategyInstance \<Rightarrow> TradeIntent list \<Rightarrow> world \<times> Hub \<Rightarrow> world \<times> Hub" where
  "dispatch_loop env inst [] s = s"
| "dispatch_loop env inst (i # is) s = dispatch_loop env inst is (if Action i = ''RELEASE'' then s
     else snd (dispatchCommand env inst (intentToCommand inst i (im_now env)) s))"

text \<open>Steps 5 to 10.\<close>

definition tick_run :: "im_env \<Rightarrow> StrategyInstance \<Rightarrow> Bar list \<Rightarrow> StorePortfolio \<Rightarrow> StoreRuntime option \<Rightarrow> Chromosome \<Rightarrow>
    SpawnPoint \<Rightarrow> world \<times> Hub \<Rightarrow> go_error option \<times> world \<times> Hub" where
  "tick_run env inst bars ps row chromosome spawn = (\<lambda>(w, h).
     let output = im_step env (tick_input env bars ps row chromosome spawn) in
     case upsertRuntime env (SiID inst) (OutRuntime output) row w of
       (Inl e, w) \<Rightarrow> (Some (Wrapf ''tick step7 runtime persist'' e), w, h)
     | (Inr _, w) \<Rightarrow> (case dispatch_loop env inst (Intents output) (release_loop env (SiID inst) (Intents output) w, h) of (w, h) \<Rightarrow>
         let latestBarTime = from_UnixMilli (OpenTime (bars ! (length bars - 2))) in
         (case db_exec (\<lambda>d. d\<lparr>tb_portfolios := update_where (\<lambda>p. SpID p = SpID ps)
               (\<lambda>p. p\<lparr>LastProcessedBarTime := latestBarTime\<rparr>) (tb_portfolios d)\<rparr>) w of
            (Inl e, w) \<Rightarrow> (Some (Wrapf ''tick step10 bar time'' e), w, h)
          | (Inr _, w) \<Rightarrow> (None, w, h))))"

text \<open>Steps 2 and 3.\<close>

definition tick_load :: "im_env \<Rightarrow> StrategyInstance \<Rightarrow> Bar list \<Rightarrow> world \<times> Hub \<Rightarrow> go_error option \<times> world \<times> Hub" where
  "tick_load env inst bars = (\<lambda>(w, h).
     let latestBarTime = from_UnixMilli (OpenTime (bars ! (length bars - 2))) in
     case loadOrCreatePortfolio (SiID inst) w of
       (Inl e, w) \<Rightarrow> (Some (Wrapf ''tick step2 portfolio'' e), w, h)
     | (Inr ps, w) \<Rightarrow>
         if \<not> IsZero (LastProcessedBarTime ps) \<and> \<not> After latestBarTime (LastProcessedBarTime ps) then (None, w, h)
         else (case load_runtime (SiID inst) w of
           (Inl e, w) \<Rightarrow> (Some e, w, h)
         | (Inr row, w) \<Rightarrow> (case loadChampionParams env inst w of
             (Inl e, w) \<Rightarrow> (Some (Wrapf ''tick step3 champion'' e), w, h)
           | (Inr (chromosome, spawn), w) \<Rightarrow> tick_run env inst bars ps row chromosome spawn (w, h))))"

definition Tick :: "im_env \<Rightarrow> StrategyInstance \<Rightarrow> world \<times> Hub \<Rightarrow> go_error option \<times> world \<times> Hub" where
  "Tick env inst s = (case fetchLatestBars env (SiSymbol inst) (SiInterval inst) 300 of
     Inl e \<Rightarrow> (None, s)
   | Inr bars \<Rightarrow> if length bars < 2 then (None, s)
       else (case tick_load env inst bars s of
         (None, s) \<Rightarrow> (None, s)
       | (Some e, w, h) \<Rightarrow> (Some e, markError (SiID inst) w, h)))"

end
