(* ===== verification/InstanceLaws.thy ===== *)
theory InstanceLaws
  imports InstanceManager
begin

text \<open>
  The laws of the instance manager. Every change a tick makes to the database is one of five kinds
  (\<open>tick_change\<close>), so that what ticks preserve is proved once per kind. The properties cover the
  life cycle of instances and the order ledger of the whole back end.
\<close>

section \<open>The changes of a tick\<close>

definition released :: "f64 \<Rightarrow> StorePortfolio \<Rightarrow> StorePortfolio" where
  "released qty ps = (let q = (if DeadBTC ps < qty then DeadBTC ps else qty) in
     ps\<lparr>DeadBTC := DeadBTC ps - q, FloatBTC := FloatBTC ps + q\<rparr>)"

inductive tick_change :: "nat \<Rightarrow> db \<Rightarrow> db \<Rightarrow> bool" for k where
  portfolio: "SpInstanceID ps \<notin> SpInstanceID ` set (tb_portfolios d) \<Longrightarrow> SpInstanceID ps = k \<Longrightarrow> DeadBTC ps = 0 \<Longrightarrow>
    FloatBTC ps = 0 \<Longrightarrow> tick_change k d (add_portfolio ps d)"
| runtime: "tick_change k d (d\<lparr>tb_runtimes := rs\<rparr>)"
| release: "find (\<lambda>p. SpInstanceID p = k) (tb_portfolios d) = Some ps \<Longrightarrow> \<not> qty \<le> 0 \<Longrightarrow>
    tick_change k d (add_audit a (put_portfolio (released qty ps) d))"
| order: "SxClientOrderID x \<notin> SxClientOrderID ` set (tb_execs d) \<Longrightarrow> SxStatus x = ''pending'' \<Longrightarrow> SxInstanceID x = k \<Longrightarrow>
    tick_change k d (add_exec x d)"
| time: "tick_change k d (d\<lparr>tb_portfolios := update_where (\<lambda>p. SpID p = i) (\<lambda>p. p\<lparr>LastProcessedBarTime := t\<rparr>) (tb_portfolios d)\<rparr>)"

abbreviation tick_changes :: "nat \<Rightarrow> db \<Rightarrow> db \<Rightarrow> bool" where
  "tick_changes k \<equiv> (tick_change k)\<^sup>*\<^sup>*"

lemma loadOrCreatePortfolio_changes:
  assumes "loadOrCreatePortfolio k w = (r, u)"
  shows "tick_changes k (w_db w) (w_db u)"
proof -
  let ?ps = "\<lparr>SpID = 0, SpInstanceID = k, USDTBalance = 0, DeadBTC = 0, FloatBTC = 0,
    ColdSealedBTC = 0, TotalEquity = 0, LastProcessedBarTime = time_zero\<rparr>"
  obtain q v where q: "db_first tb_portfolios (\<lambda>p. SpInstanceID p = k) w = (q, v)" by fastforce
  have v: "w_db v = w_db w" using q by (cases rule: db_first_cases) auto
  obtain c x where c: "create_portfolio ?ps v = (c, x)" by fastforce
  have "tick_changes k (w_db v) (w_db x)"
    using c unfolding create_portfolio_def
  proof (cases rule: statement_cases)
    case (lost e)
    then show ?thesis by simp
  next
    case (ok d y)
    then have "k \<notin> SpInstanceID ` set (tb_portfolios (w_db v))" "w_db x = add_portfolio ?ps (w_db v)"
      by (auto split: if_splits)
    then show ?thesis using tick_change.portfolio [of ?ps "w_db v" k] by auto
  qed
  then show ?thesis
    using assms v by (auto simp: loadOrCreatePortfolio_def q c split: sum.splits if_splits)
qed

lemma load_runtime_db: "load_runtime k w = (r, u) \<Longrightarrow> w_db u = w_db w"
proof -
  obtain q v where q: "db_first tb_runtimes (\<lambda>r. SrInstanceID r = k) w = (q, v)" by fastforce
  have "w_db v = w_db w" using q by (cases rule: db_first_cases) auto
  then show "load_runtime k w = (r, u) \<Longrightarrow> w_db u = w_db w"
    by (auto simp: load_runtime_def q split: sum.splits if_splits)
qed

lemma champion_row_db: "champion_row k w = (r, u) \<Longrightarrow> w_db u = w_db w"
  unfolding champion_row_def
  by (auto split: prod.splits sum.splits option.splits dest!: db_query_db)

lemma loadChampionParams_db: "loadChampionParams env inst w = (r, u) \<Longrightarrow> w_db u = w_db w"
  unfolding loadChampionParams_def
  by (auto split: prod.splits sum.splits option.splits if_splits dest!: champion_row_db)

lemma upsertRuntime_changes:
  assumes "upsertRuntime env k rt row w = (r, u)"
  shows "tick_changes k (w_db w) (w_db u)"
proof (cases "im_rt_marshal env rt")
  case None
  then show ?thesis using assms by (simp add: upsertRuntime_def)
next
  case (Some payload)
  have "w_db u = w_db w \<or> (\<exists>rs. w_db u = (w_db w)\<lparr>tb_runtimes := rs\<rparr>)"
  proof (cases row)
    case None
    then have "create_runtime \<lparr>SrID = 0, SrInstanceID = k, SrPayload = payload\<rparr> w = (r, u)"
      using assms Some by (simp add: upsertRuntime_def)
    then show ?thesis
      unfolding create_runtime_def by (cases rule: statement_cases) (auto simp: add_runtime_def split: if_splits)
  next
    case r: (Some x)
    then have "db_exec (\<lambda>d. d\<lparr>tb_runtimes := update_where (\<lambda>y. SrID y = SrID x) (\<lambda>y. y\<lparr>SrPayload := payload\<rparr>) (tb_runtimes d)\<rparr>) w = (r, u)"
      using assms Some by (simp add: upsertRuntime_def)
    then show ?thesis unfolding db_exec_def by (cases rule: statement_cases) auto
  qed
  then show ?thesis using tick_change.runtime by (metis r_into_rtranclp rtranclp.rtrancl_refl)
qed

lemma release_body_ok:
  assumes "release_body env k qty w = (Inr x, u)"
  shows "\<exists>ps a. find (\<lambda>p. SpInstanceID p = k) (tb_portfolios (w_db w)) = Some ps \<and>
    w_db u = add_audit a (put_portfolio (released qty ps) (w_db w))"
proof -
  obtain q v where q: "db_first tb_portfolios (\<lambda>p. SpInstanceID p = k) w = (q, v)" by fastforce
  with assms obtain ps where ps: "q = Inr ps" by (auto simp: release_body_def split: sum.splits)
  note f = db_first_ok [OF q [unfolded ps]]
  obtain r1 w1 where s: "save_portfolio (released qty ps) v = (r1, w1)" by fastforce
  with assms obtain y where y: "r1 = Inr y"
    by (auto simp: release_body_def q ps released_def Let_def split: sum.splits)
  from assms obtain a where "create_audit a w1 = (Inr x, u)"
    using s y by (auto simp: release_body_def q ps released_def Let_def)
  then have "w_db u = add_audit a (w_db w1)" "w_db w1 = put_portfolio (released qty ps) (w_db v)"
    using db_exec_ok s [unfolded y save_portfolio_def] unfolding create_audit_def by blast+
  then show ?thesis using f by auto
qed

lemma handleRelease_cases:
  obtains (none) "w_db (handleRelease env k i w) = w_db w"
  | (moved) ps a where "\<not> QtyAsset i \<le> 0" "find (\<lambda>p. SpInstanceID p = k) (tb_portfolios (w_db w)) = Some ps"
      "w_db (handleRelease env k i w) = add_audit a (put_portfolio (released (QtyAsset i) ps) (w_db w))"
proof (cases "QtyAsset i \<le> 0")
  case True
  then show ?thesis by (intro none) (simp add: handleRelease_def)
next
  case False
  obtain r u where t: "transaction (release_body env k (QtyAsset i)) w = (r, u)" by fastforce
  have u: "handleRelease env k i w = u" using False t by (simp add: handleRelease_def)
  from t show ?thesis
  proof (cases rule: transaction_cases)
    case (rolledback e)
    then show ?thesis using none u by simp
  next
    case (committed x v)
    from release_body_ok [OF committed(2)] show ?thesis using moved False u committed(4) by auto
  qed
qed

lemma handleRelease_changes: "tick_changes k (w_db w) (w_db (handleRelease env k i w))"
  by (cases rule: handleRelease_cases [of env k i w]) (auto intro: tick_change.release)

lemma release_loop_changes: "tick_changes k (w_db w) (w_db (release_loop env k is w))"
proof (induction "is" arbitrary: w)
  case Nil
  then show ?case by simp
next
  case (Cons i "is")
  then show ?case using rtranclp_trans [OF handleRelease_changes Cons.IH] by simp
qed

lemma dispatchCommand_changes:
  assumes "dispatchCommand env inst cmd (w, h) = (r, u, g)"
  shows "tick_changes (SiID inst) (w_db w) (w_db u)"
proof (cases "im_cmd env cmd")
  case None
  then show ?thesis using assms by (simp add: dispatchCommand_def)
next
  case (Some raw)
  let ?x = "\<lparr>SxID = 0, SxInstanceID = SiID inst, SxClientOrderID = TcClientOrderID cmd, SxStatus = ''pending'', SxRawPayload = raw\<rparr>"
  obtain c v where c: "create_exec ?x w = (c, v)" by fastforce
  have "tick_changes (SiID inst) (w_db w) (w_db v)"
    using c unfolding create_exec_def
  proof (cases rule: statement_cases)
    case (lost e)
    then show ?thesis by simp
  next
    case (ok d y)
    then show ?thesis using tick_change.order [of ?x "w_db w" "SiID inst"] by (auto split: if_splits)
  qed
  then show ?thesis using assms by (auto simp: dispatchCommand_def Some c split: sum.splits)
qed

lemma dispatch_loop_changes:
  "dispatch_loop env inst is (w, h) = (u, g) \<Longrightarrow> tick_changes (SiID inst) (w_db w) (w_db u)"
proof (induction "is" arbitrary: w h)
  case Nil
  then show ?case by simp
next
  case (Cons i "is")
  obtain r v k where d: "dispatchCommand env inst (intentToCommand inst i (im_now env)) (w, h) = (r, v, k)"
    by (metis prod.exhaust)
  show ?case
    using Cons.prems Cons.IH [of v k] Cons.IH [of w h] rtranclp_trans [OF dispatchCommand_changes [OF d]]
    by (auto simp: d split: if_splits)
qed

lemma tick_run_changes:
  assumes "tick_run env inst bars ps row chromosome spawn (w, h) = (r, u, g)"
  shows "tick_changes (SiID inst) (w_db w) (w_db u)"
proof -
  let ?out = "im_step env (tick_input env bars ps row chromosome spawn)"
  obtain q v where q: "upsertRuntime env (SiID inst) (OutRuntime ?out) row w = (q, v)" by fastforce
  note c1 = upsertRuntime_changes [OF q]
  obtain x k where x: "dispatch_loop env inst (Intents ?out) (release_loop env (SiID inst) (Intents ?out) v, h) = (x, k)" by fastforce
  note c2 = rtranclp_trans [OF c1 rtranclp_trans [OF release_loop_changes dispatch_loop_changes [OF x]]]
  let ?t = "from_UnixMilli (OpenTime (bars ! (length bars - 2)))"
  let ?f = "\<lambda>d. d\<lparr>tb_portfolios := update_where (\<lambda>p. SpID p = SpID ps) (\<lambda>p. p\<lparr>LastProcessedBarTime := ?t\<rparr>) (tb_portfolios d)\<rparr>"
  obtain e y where e: "db_exec ?f x = (e, y)" by fastforce
  have "tick_changes (SiID inst) (w_db x) (w_db y)"
    using e unfolding db_exec_def by (cases rule: statement_cases) (auto intro: tick_change.time)
  then have "tick_changes (SiID inst) (w_db w) (w_db y)" by (rule rtranclp_trans [OF c2])
  then show ?thesis using assms c1 by (auto simp: tick_run_def Let_def q x e split: sum.splits)
qed

lemma tick_load_changes:
  assumes "tick_load env inst bars (w, h) = (r, u, g)"
  shows "tick_changes (SiID inst) (w_db w) (w_db u)"
proof -
  obtain q1 w1 where s1: "loadOrCreatePortfolio (SiID inst) w = (q1, w1)" by fastforce
  note c1 = loadOrCreatePortfolio_changes [OF s1]
  obtain q2 w2 where s2: "load_runtime (SiID inst) w1 = (q2, w2)" by fastforce
  obtain q3 w3 where s3: "loadChampionParams env inst w2 = (q3, w3)" by fastforce
  have d: "w_db w3 = w_db w1" "w_db w2 = w_db w1"
    using load_runtime_db [OF s2] loadChampionParams_db [OF s3] by simp_all
  have run: "tick_changes (SiID inst) (w_db w1) (w_db u)"
    if "tick_run env inst bars ps row c sp (w3, h) = (r, u, g)" for ps row c sp
    using tick_run_changes [OF that] by (simp add: d)
  show ?thesis
    using assms c1 d rtranclp_trans [OF c1 run] unfolding tick_load_def Let_def
    by (auto simp: s1 s2 s3 split: sum.splits if_splits)
qed

section \<open>What ticks preserve\<close>

lemma tick_change_frame:
  "tick_change k d e \<Longrightarrow> tb_instances e = tb_instances d \<and> tb_trades e = tb_trades d \<and> tb_genes e = tb_genes d \<and>
     tb_tasks e = tb_tasks d \<and> (\<exists>xs. tb_execs e = tb_execs d @ xs)"
  by (cases rule: tick_change.cases)
    (auto simp: add_portfolio_def add_audit_def put_portfolio_def add_exec_def)

lemma tick_changes_frame:
  assumes "tick_changes k d e"
  shows "tb_instances e = tb_instances d" "tb_trades e = tb_trades d" "\<exists>xs. tb_execs e = tb_execs d @ xs"
proof -
  have "tb_instances e = tb_instances d \<and> tb_trades e = tb_trades d \<and> (\<exists>xs. tb_execs e = tb_execs d @ xs)"
    using assms by (induction rule: rtranclp_induct) (auto dest!: tick_change_frame)
  then show "tb_instances e = tb_instances d" "tb_trades e = tb_trades d" "\<exists>xs. tb_execs e = tb_execs d @ xs" by auto
qed

lemma released_frame [simp]:
  "SpID (released q ps) = SpID ps" "SpInstanceID (released q ps) = SpInstanceID ps"
  "USDTBalance (released q ps) = USDTBalance ps" "LastProcessedBarTime (released q ps) = LastProcessedBarTime ps"
  by (simp_all add: released_def Let_def)

lemma ledger_change:
  assumes "tick_change k d e" "ledger_ok d"
  shows "ledger_ok e"
  using assms(1)
proof cases
  case (portfolio ps)
  then show ?thesis
    using assms(2) next_id_fresh [of "map SpID (tb_portfolios d)"] by (simp add: ledger_ok_def add_portfolio_def)
next
  case (runtime rs)
  then show ?thesis using assms(2) by (simp add: ledger_ok_def)
next
  case (release ps qty a)
  have ps: "ps \<in> set (tb_portfolios d)" using find_mem [OF release(2)] by simp
  have "map SpID (tb_portfolios e) = map SpID (tb_portfolios d)" "map SpInstanceID (tb_portfolios e) = map SpInstanceID (tb_portfolios d)"
    using ledger_keys(3) [OF assms(2) _ ps]
    by (auto simp: release(1) add_audit_def put_portfolio_def update_where_def)
  then show ?thesis using assms(2) by (simp add: ledger_ok_def release(1)) (simp add: add_audit_def put_portfolio_def)
next
  case (order x)
  then show ?thesis using ledger_add_exec [OF assms(2)] by simp
next
  case (time i t)
  then show ?thesis using assms(2) by (simp add: ledger_ok_def map_update_where)
qed

lemma ledger_changes: "tick_changes k d e \<Longrightarrow> ledger_ok d \<Longrightarrow> ledger_ok e"
  by (induction rule: rtranclp_induct) (auto intro: ledger_change)

lemma put_portfolio_set:
  assumes "ledger_ok d" "ps \<in> set (tb_portfolios d)" "SpID qs = SpID ps"
  shows "tb_portfolios (put_portfolio qs d) = map (\<lambda>p. if p = ps then qs else p) (tb_portfolios d)"
  using ledger_keys(3) [OF assms(1) _ assms(2)] by (simp add: put_portfolio_def update_where_def assms(3))

section \<open>The life cycle\<close>

text \<open>The automaton of the header of the source file.\<close>

inductive life_step :: "string \<Rightarrow> string \<Rightarrow> bool" where
  start: "life_step ''STOPPED'' ''RUNNING''"
| stop: "life_step ''RUNNING'' ''STOPPED''"
| fail: "life_step ''RUNNING'' ''ERROR''"
| delete: "life_step s ''DELETED''"

inductive_simps life_from [simp]: "life_step ''DELETED'' s" "life_step ''ERROR'' s"

text \<open>Every row keeps its columns but the status, which stays or takes one step.\<close>

definition moves :: "db \<Rightarrow> db \<Rightarrow> bool" where
  "moves d e \<longleftrightarrow> list_all2 (\<lambda>i j. j = i\<lparr>SiStatus := SiStatus j\<rparr> \<and> (SiStatus j = SiStatus i \<or> life_step (SiStatus i) (SiStatus j)))
     (tb_instances d) (tb_instances e)"

lemma moves_refl: "tb_instances e = tb_instances d \<Longrightarrow> moves d e"
  by (simp add: moves_def list_all2_same)

lemma moves_set_status:
  assumes "statement (set_status P status) w = (r, u)" "\<And>i. P i \<Longrightarrow> life_step (SiStatus i) status"
  shows "moves (w_db w) (w_db u)"
  using assms(1)
proof (cases rule: statement_cases)
  case (lost e)
  then show ?thesis by (simp add: moves_refl)
next
  case (ok d x)
  then show ?thesis
    using assms(2) by (auto simp: set_status_def moves_def update_where_def list_all2_map2 list_all2_same)
qed

lemma set_status_tables:
  assumes "statement (set_status P status) w = (r, u)"
  shows "tb_execs (w_db u) = tb_execs (w_db w)" "tb_trades (w_db u) = tb_trades (w_db w)"
    "tb_portfolios (w_db u) = tb_portfolios (w_db w)"
  using assms by (cases rule: statement_cases; auto simp: set_status_def)+

lemma Tick_changes:
  assumes "Tick env inst (w, h) = (r, u, g)"
  shows "\<exists>v. tick_changes (SiID inst) (w_db w) (w_db v) \<and> (u = v \<or> u = markError (SiID inst) v)"
proof -
  obtain bars where "u = w \<or> fetchLatestBars env (SiSymbol inst) (SiInterval inst) 300 = Inr bars"
    using assms by (cases "fetchLatestBars env (SiSymbol inst) (SiInterval inst) 300") (auto simp: Tick_def)
  then show ?thesis
  proof
    assume b: "fetchLatestBars env (SiSymbol inst) (SiInterval inst) 300 = Inr bars"
    obtain q v k where t: "tick_load env inst bars (w, h) = (q, v, k)" by (metis prod.exhaust)
    show ?thesis
      using assms tick_load_changes [OF t] by (auto simp: Tick_def b t split: if_splits option.splits)
  qed auto
qed

text \<open>The steps of the whole back end: the life-cycle calls, a tick for any instance row (possibly read
  before a later change) in whatever surroundings it meets, and everything that happens at the hub, reports included.\<close>

inductive saas_step :: "hub_env \<Rightarrow> world \<times> Hub \<Rightarrow> world \<times> Hub \<Rightarrow> bool" for henv where
  start: "Start k w = (r, u) \<Longrightarrow> saas_step henv (w, h) (u, h)"
| stop: "Stop k w = (r, u) \<Longrightarrow> saas_step henv (w, h) (u, h)"
| delete: "Delete k w = (r, u) \<Longrightarrow> saas_step henv (w, h) (u, h)"
| tick: "Tick env inst (w, h) = (r, u, g) \<Longrightarrow> saas_step henv (w, h) (u, g)"
| hub: "hub_step henv (h, w) (g, u) \<Longrightarrow> saas_step henv (w, h) (u, g)"

lemma markError_statement:
  "statement (set_status (\<lambda>i. SiID i = k \<and> SiStatus i = ''RUNNING'') ''ERROR'') v =
     (fst (statement (set_status (\<lambda>i. SiID i = k \<and> SiStatus i = ''RUNNING'') ''ERROR'') v), markError k v)"
  by (simp add: markError_def)

lemma markError_moves: "moves (w_db v) (w_db (markError k v))"
  by (rule moves_set_status [OF markError_statement]) (simp add: life_step.fail)

lemma Tick_moves:
  assumes "Tick env inst (w, h) = (r, u, g)"
  shows "moves (w_db w) (w_db u)"
proof -
  from Tick_changes [OF assms] obtain v where v: "tick_changes (SiID inst) (w_db w) (w_db v)"
    "u = v \<or> u = markError (SiID inst) v" by blast
  have i: "tb_instances (w_db v) = tb_instances (w_db w)" using tick_changes_frame(1) [OF v(1)] .
  show ?thesis using v(2) moves_refl [OF i] markError_moves [of v "SiID inst"] i by (auto simp: moves_def)
qed

lemma report_tables:
  assumes "processDeltaReport codec uid payload w = (r, u)"
  shows "tb_instances (w_db u) = tb_instances (w_db w)"
  using assms by (cases rule: report_cases) (simp_all add: settled_frame)

lemma hub_step_db:
  assumes "hub_step henv (h, w) (g, u)"
  shows "u = w \<or> (\<exists>codec uid payload. u = snd (processDeltaReport codec uid payload w))"
  using assms by (cases rule: hub_step.cases) (auto simp: on_message_def Let_def split: option.splits if_splits)

lemma saas_step_moves:
  assumes "saas_step henv (w, h) (u, g)"
  shows "moves (w_db w) (w_db u)"
  using assms
proof cases
  case (start k r)
  then show ?thesis
    by (auto simp: Start_def split: prod.splits sum.splits if_splits elim!: moves_set_status intro: life_step.start)
next
  case (stop k r)
  then show ?thesis
    by (auto simp: Stop_def split: prod.splits sum.splits if_splits elim!: moves_set_status intro: life_step.stop)
next
  case (delete k r)
  then show ?thesis
    by (auto simp: Delete_def split: prod.splits sum.splits if_splits elim!: moves_set_status intro: life_step.delete)
next
  case (tick env inst r)
  then show ?thesis by (intro Tick_moves)
next
  case hub
  have "tb_instances (w_db u) = tb_instances (w_db w)"
    using hub_step_db [OF hub] report_tables [OF surjective_pairing] by auto
  then show ?thesis by (rule moves_refl)
qed

lemma set_status_ledger:
  "statement (set_status P status) w = (r, u) \<Longrightarrow> ledger_ok (w_db w) \<Longrightarrow> ledger_ok (w_db u)"
  using set_status_tables [of P status w r u] by (simp add: ledger_ok_def)

lemma saas_step_ledger:
  assumes "saas_step henv (w, h) (u, g)" "ledger_ok (w_db w)"
  shows "ledger_ok (w_db u)"
  using assms(1)
proof cases
  case (start k r)
  then show ?thesis
    using assms(2) by (auto simp: Start_def split: prod.splits sum.splits if_splits dest: set_status_ledger)
next
  case (stop k r)
  then show ?thesis
    using assms(2) by (auto simp: Stop_def split: prod.splits sum.splits if_splits dest: set_status_ledger)
next
  case (delete k r)
  then show ?thesis
    using assms(2) by (auto simp: Delete_def split: prod.splits sum.splits if_splits dest: set_status_ledger)
next
  case (tick env inst r)
  from Tick_changes [OF tick] obtain v where v: "tick_changes (SiID inst) (w_db w) (w_db v)"
    "u = v \<or> u = markError (SiID inst) v" by blast
  have "ledger_ok (w_db v)" using ledger_changes [OF v(1) assms(2)] .
  then show ?thesis using v(2) set_status_ledger [OF markError_statement] by auto
next
  case hub
  show ?thesis using hub_step_db [OF hub] ledger_report [OF surjective_pairing] assms(2) by auto
qed

section \<open>Orders\<close>

text \<open>Orders are only appended, and a row changes by being filled when it was pending.\<close>

definition order_moves :: "db \<Rightarrow> db \<Rightarrow> bool" where
  "order_moves d e \<longleftrightarrow> (\<exists>ys zs. tb_execs e = ys @ zs \<and> list_all2 (\<lambda>x y. y = x\<lparr>SxStatus := SxStatus y\<rparr> \<and>
     (SxStatus y = SxStatus x \<or> SxStatus x = ''pending'' \<and> SxStatus y = ''filled'')) (tb_execs d) ys)"

lemma order_moves_extend: "tb_execs e = tb_execs d @ zs \<Longrightarrow> order_moves d e"
  unfolding order_moves_def by (rule exI [of _ "tb_execs d"], rule exI [of _ zs]) (simp add: list_all2_same)

lemma order_moves_trans:
  assumes "order_moves d e" "order_moves e f"
  shows "order_moves d f"
proof -
  let ?R = "\<lambda>x y. y = x\<lparr>SxStatus := SxStatus y\<rparr> \<and> (SxStatus y = SxStatus x \<or> SxStatus x = ''pending'' \<and> SxStatus y = ''filled'')"
  from assms(1) obtain ys zs where e: "tb_execs e = ys @ zs" "list_all2 ?R (tb_execs d) ys"
    unfolding order_moves_def by blast
  from assms(2) obtain ys' zs' where f: "tb_execs f = ys' @ zs'" "list_all2 ?R (ys @ zs) ys'"
    unfolding order_moves_def e(1) by blast
  from f(2) obtain us vs where u: "ys' = us @ vs" "list_all2 ?R ys us" by (auto simp: list_all2_append1)
  have l: "list_all2 ?R (tb_execs d) us"
  proof (rule list_all2_trans [OF _ e(2) u(2)])
    fix x y z :: SpotExecution
    assume xy: "?R x y" and yz: "?R y z"
    have "z = y\<lparr>SxStatus := SxStatus z\<rparr>" "y = x\<lparr>SxStatus := SxStatus y\<rparr>" using xy yz by blast+
    then have "z = x\<lparr>SxStatus := SxStatus z\<rparr>"
      by (metis SpotExecution.update_convs(4) SpotExecution.surjective)
    moreover have "SxStatus z = SxStatus x \<or> SxStatus x = ''pending'' \<and> SxStatus z = ''filled''"
      using conjunct2 [OF xy] conjunct2 [OF yz] by auto
    ultimately show "?R x z" by (rule conjI)
  qed
  have e: "tb_execs f = us @ (vs @ zs')" using f(1) u(1) by simp
  show ?thesis unfolding order_moves_def by (rule exI, rule exI, rule conjI [OF e l])
qed

lemma report_order_moves:
  assumes "processDeltaReport codec uid payload w = (r, u)" "ledger_ok (w_db w)"
  shows "order_moves (w_db w) (w_db u)"
  using assms(1)
proof (cases rule: report_cases)
  case (failed e)
  then show ?thesis using order_moves_extend [of "w_db u" "w_db w" "[]"] by simp
next
  case balances
  then show ?thesis using order_moves_extend [of "w_db u" "w_db w" "[]"] by simp
next
  case (fill m exec cmd ps)
  have ex: "exec \<in> set (tb_execs (w_db w))" "SxStatus exec = ''pending''" using find_mem [OF fill(5)] by simp_all
  have "SxStatus x = ''pending''" if "x \<in> set (tb_execs (w_db w))" "SxID x = SxID exec" for x
    using ledger_keys(1) [OF assms(2) that(1) ex(1)] that(2) ex(2) by simp
  then show ?thesis
    unfolding order_moves_def
    by (intro exI [of _ "tb_execs (w_db u)"] exI [of _ "[]"])
      (auto simp: fill(9) settled_frame mark_filled_def update_where_def list_all2_map2 list_all2_same)
qed

lemma status_calls:
  "Start k w = (r, u) \<Longrightarrow> \<exists>q P. statement (set_status P ''RUNNING'') w = (q, u)"
  "Stop k w = (r, u) \<Longrightarrow> \<exists>q P. statement (set_status P ''STOPPED'') w = (q, u)"
  "Delete k w = (r, u) \<Longrightarrow> \<exists>q P. statement (set_status P ''DELETED'') w = (q, u)"
  unfolding Start_def Stop_def Delete_def by (auto split: prod.splits sum.splits if_splits)

lemma set_status_orders: "statement (set_status P status) w = (q, u) \<Longrightarrow> order_moves (w_db w) (w_db u)"
  using set_status_tables(1) order_moves_extend [of "w_db u" "w_db w" "[]"] by simp

lemma saas_step_orders:
  assumes "saas_step henv (w, h) (u, g)" "ledger_ok (w_db w)"
  shows "order_moves (w_db w) (w_db u)"
  using assms(1)
proof cases
  case (start k r)
  then show ?thesis using status_calls(1) set_status_orders by blast
next
  case (stop k r)
  then show ?thesis using status_calls(2) set_status_orders by blast
next
  case (delete k r)
  then show ?thesis using status_calls(3) set_status_orders by blast
next
  case (tick env inst r)
  from Tick_changes [OF tick] obtain v where v: "tick_changes (SiID inst) (w_db w) (w_db v)"
    "u = v \<or> u = markError (SiID inst) v" by blast
  have "tb_execs (w_db u) = tb_execs (w_db v)" using v(2) set_status_tables(1) [OF markError_statement] by auto
  then show ?thesis using tick_changes_frame(3) [OF v(1)] order_moves_extend by metis
next
  case hub
  from hub_step_db [OF hub] show ?thesis
    using report_order_moves [OF surjective_pairing assms(2)] order_moves_extend [of "w_db u" "w_db w" "[]"] by auto
qed

section \<open>Properties\<close>

text \<open>C11. Refinement of the instance automaton of the specification (STOPPED to RUNNING by \<open>Start\<close>,
  RUNNING to STOPPED by \<open>Stop\<close>, RUNNING to ERROR by a failing tick, anything to DELETED): along
  every run of the back end, whatever the calls, ticks on stale rows, reports and statement
  failures, no instance row is lost or altered but for its status, which moves along the
  automaton; so a deleted instance stays deleted, and a failed one can only be deleted.\<close>

theorem lifecycle_refines:
  assumes "(saas_step henv)\<^sup>*\<^sup>* s t"
  shows "list_all2 (\<lambda>i j. j = i\<lparr>SiStatus := SiStatus j\<rparr> \<and> life_step\<^sup>*\<^sup>* (SiStatus i) (SiStatus j) \<and>
      (SiStatus i = ''DELETED'' \<longrightarrow> SiStatus j = ''DELETED'') \<and>
      (SiStatus i = ''ERROR'' \<longrightarrow> SiStatus j = ''ERROR'' \<or> SiStatus j = ''DELETED''))
    (tb_instances (w_db (fst s))) (tb_instances (w_db (fst t)))"
  using assms
proof (induction rule: rtranclp_induct)
  case base
  then show ?case by (simp add: list_all2_same)
next
  case (step u v)
  have "moves (w_db (fst u)) (w_db (fst v))" using saas_step_moves [of henv "fst u" "snd u" "fst v" "snd v"] step.hyps(2) by simp
  then have "list_all2 (\<lambda>i j. j = i\<lparr>SiStatus := SiStatus j\<rparr> \<and> (SiStatus j = SiStatus i \<or> life_step (SiStatus i) (SiStatus j)))
     (tb_instances (w_db (fst u))) (tb_instances (w_db (fst v)))" by (simp add: moves_def)
  from step.IH this show ?case
  proof (rule list_all2_trans [rotated 1])
    fix i j k :: StrategyInstance
    assume ij: "j = i\<lparr>SiStatus := SiStatus j\<rparr> \<and> life_step\<^sup>*\<^sup>* (SiStatus i) (SiStatus j) \<and>
      (SiStatus i = ''DELETED'' \<longrightarrow> SiStatus j = ''DELETED'') \<and>
      (SiStatus i = ''ERROR'' \<longrightarrow> SiStatus j = ''ERROR'' \<or> SiStatus j = ''DELETED'')"
      and jk: "k = j\<lparr>SiStatus := SiStatus k\<rparr> \<and> (SiStatus k = SiStatus j \<or> life_step (SiStatus j) (SiStatus k))"
    have "k = i\<lparr>SiStatus := SiStatus k\<rparr>"
      using ij jk by (metis StrategyInstance.update_convs(6) StrategyInstance.surjective)
    moreover have "life_step\<^sup>*\<^sup>* (SiStatus i) (SiStatus k)" using ij jk by (metis rtranclp.rtrancl_into_rtrancl)
    ultimately show "k = i\<lparr>SiStatus := SiStatus k\<rparr> \<and> life_step\<^sup>*\<^sup>* (SiStatus i) (SiStatus k) \<and>
      (SiStatus i = ''DELETED'' \<longrightarrow> SiStatus k = ''DELETED'') \<and>
      (SiStatus i = ''ERROR'' \<longrightarrow> SiStatus k = ''ERROR'' \<or> SiStatus k = ''DELETED'')"
      using ij jk by auto
  qed
qed

text \<open>C3. The order ledger of the whole back end: from a consistent database, along every run, order
  identifiers stay unique, the trades are exactly those of the filled orders, one each, and an
  order row, once written, stays as it is except that a pending one may become filled.\<close>

theorem ledger_invariant:
  assumes "(saas_step henv)\<^sup>*\<^sup>* s t" "ledger_ok (w_db (fst s))"
  shows "ledger_ok (w_db (fst t)) \<and> order_moves (w_db (fst s)) (w_db (fst t)) \<and>
    length (tb_trades (w_db (fst t))) = length (filter (\<lambda>x. SxStatus x = ''filled'') (tb_execs (w_db (fst t))))"
proof -
  from assms(1) have "ledger_ok (w_db (fst t)) \<and> order_moves (w_db (fst s)) (w_db (fst t))"
  proof (induction rule: rtranclp_induct)
    case base
    then show ?case using assms(2) order_moves_extend [of _ _ "[]"] by simp
  next
    case (step u v)
    then have "saas_step henv (fst u, snd u) (fst v, snd v)" by simp
    then show ?case using saas_step_ledger saas_step_orders order_moves_trans step.IH by blast
  qed
  moreover have "length (tb_trades d) = length (filter (\<lambda>x. SxStatus x = ''filled'') (tb_execs d))" if l: "ledger_ok d" for d
  proof -
    let ?F = "filter (\<lambda>x. SxStatus x = ''filled'') (tb_execs d)"
    have "distinct (map TrClientOrderID (tb_trades d))" "distinct (map SxClientOrderID ?F)"
      using l by (simp_all add: ledger_ok_def distinct_map_filter)
    from this [THEN distinct_card] have "card (TrClientOrderID ` set (tb_trades d)) = length (tb_trades d)"
      "card (SxClientOrderID ` set ?F) = length ?F" by simp_all
    moreover have "TrClientOrderID ` set (tb_trades d) = SxClientOrderID ` set ?F" using l by (simp add: ledger_ok_def)
    ultimately show ?thesis by simp
  qed
  ultimately show ?thesis by blast
qed

end
