(* ===== verification/EpochService.thy ===== *)
theory EpochService
  imports InstanceLaws GAEngine
begin

text \<open>
  \<open>internal/saas/epoch/service.go\<close>: the life of an evolution task. The service keeps one active task
  and runs each accepted one in a goroutine of its own; the state lists the goroutines in flight,
  and \<open>service_step\<close> interleaves their steps with the calls of the service. What the engine reports
  and returns, and when, is arbitrary there. Taken from outside: the JSON codecs and the random
  source.
\<close>

section \<open>Data\<close>

record CreateTaskRequest =
  CtStrategyID :: nat
  CtSymbol :: string
  CtInterval :: string
  CtPopSize :: int
  CtMaxGenerations :: int
  CtSpawnMode :: string
  CtSpawnPoint :: "SpawnPoint option"
  CtTestMode :: bool
  CtLotStep :: f64
  CtLotMin :: f64

record service_env =
  sv_rand :: rand_src
  sv_json :: json
  sv_marshal :: "CreateTaskRequest \<Rightarrow> string"

text \<open>A goroutine of \<open>runEpoch\<close>: the engine is at work, or its result is stored in the database and the
  status of the task in memory is about to be set.\<close>

datatype job_phase = Evolving | Settled string

record epoch_job =
  jb_task :: nat
  jb_request :: CreateTaskRequest
  jb_spawn :: SpawnPoint
  jb_phase :: job_phase

record EpochService =
  es_active :: "EvolutionTask option"
  es_cancelled :: "bool option"
  es_jobs :: "epoch_job list"

definition NewEpochService :: EpochService where
  "NewEpochService = \<lparr>es_active = None, es_cancelled = None, es_jobs = []\<rparr>"

section \<open>Spawn points\<close>

definition defaultSpawnPoint :: SpawnPoint where
  "defaultSpawnPoint = \<lparr>BaseCurrency = ''USDT'', TradingPair = ''BTC/USDT'', InitialCapital = lit 1000 1,
     SpReserveFloor = lit 50 1, ROIReleaseTrigger = lit 50 100, ReleaseRatio = lit 20 100, MonthlyInject = 0\<rparr>"

text \<open>The fields are drawn in the order of the composite literal.\<close>

definition randomSpawnPoint :: "rand_src \<Rightarrow> SpawnPoint" where
  "randomSpawnPoint src = \<lparr>BaseCurrency = ''USDT'', TradingPair = ''BTC/USDT'', InitialCapital = lit 1000 1,
     SpReserveFloor = f_of_int (50 + int (r_intn src 0 250)),
     ROIReleaseTrigger = lit 30 100 + r_float src 1 * lit 70 100,
     ReleaseRatio = lit 10 100 + r_float src 2 * lit 30 100, MonthlyInject = 0\<rparr>"

definition resolveSpawnPoint :: "service_env \<Rightarrow> CreateTaskRequest \<Rightarrow> world \<Rightarrow> (go_error + SpawnPoint) \<times> world" where
  "resolveSpawnPoint env req w =
     (if CtSpawnMode req = ''manual'' then
        (case CtSpawnPoint req of None \<Rightarrow> (Inl (Errorf ''spawn_mode=manual requires spawn_point in request body''), w)
         | Some sp \<Rightarrow> (Inr sp, w))
      else if CtSpawnMode req = ''random_once'' then (Inr (randomSpawnPoint (sv_rand env)), w)
      else (case champion_row (CtStrategyID req) w of
          (Inl e, w) \<Rightarrow> (Inr defaultSpawnPoint, w)
        | (Inr champion, w) \<Rightarrow> let sp = DecodeSpawnFromParamPack (sv_json env) (GrParamPack champion) in
            if 0 < InitialCapital sp then (Inr sp, w) else (Inr defaultSpawnPoint, w)))"

section \<open>Creating a task\<close>

definition with_defaults :: "CreateTaskRequest \<Rightarrow> CreateTaskRequest" where
  "with_defaults req =
     (let req = (if CtTestMode req then req\<lparr>CtPopSize := 10, CtMaxGenerations := 3\<rparr> else req);
          req = (if CtSpawnMode req = [] then req\<lparr>CtSpawnMode := ''inherit''\<rparr> else req);
          req = (if feq (CtLotStep req) 0 then req\<lparr>CtLotStep := lit 1 100000\<rparr> else req)
      in if feq (CtLotMin req) 0 then req\<lparr>CtLotMin := lit 1 100000\<rparr> else req)"

definition add_task :: "EvolutionTask \<Rightarrow> db \<Rightarrow> db" where
  "add_task t d = d\<lparr>tb_tasks := tb_tasks d @ [t\<lparr>EtID := next_id (map EtID (tb_tasks d))\<rparr>]\<rparr>"

definition create_task :: "EvolutionTask \<Rightarrow> world \<Rightarrow> (go_error + EvolutionTask) \<times> world" where
  "create_task t = statement (\<lambda>d. Some (add_task t d, last (tb_tasks (add_task t d))))"

definition busy :: "EpochService \<Rightarrow> bool" where
  "busy svc \<longleftrightarrow> (case es_active svc of None \<Rightarrow> False | Some t \<Rightarrow> EtStatus t = ''running'')"

definition CreateAndRunTask :: "service_env \<Rightarrow> CreateTaskRequest \<Rightarrow> EpochService \<times> world \<Rightarrow>
    (go_error + EvolutionTask) \<times> EpochService \<times> world" where
  "CreateAndRunTask env req = (\<lambda>(svc, w).
     if busy svc then (Inl (Errorf ''another evolution task is already running''), svc, w)
     else (case resolveSpawnPoint env req w of
       (Inl e, w) \<Rightarrow> (Inl (Wrapf ''CreateAndRunTask resolveSpawnPoint'' e), svc, w)
     | (Inr spawn, w) \<Rightarrow> let req = with_defaults req in
         (case create_task \<lparr>EtID = 0, EtStrategyID = CtStrategyID req, EtStatus = ''running'', EtProgress = 0,
             EtCurrentGeneration = 0, EtBestScore = 0, EtErrorMsg = [], EtConfig = sv_marshal env req\<rparr> w of
           (Inl e, w) \<Rightarrow> (Inl (Wrapf ''CreateAndRunTask create task'' e), svc, w)
         | (Inr task, w) \<Rightarrow> (Inr task, svc\<lparr>es_active := Some task, es_cancelled := Some False,
             es_jobs := es_jobs svc @ [\<lparr>jb_task = EtID task, jb_request = req, jb_spawn = spawn, jb_phase = Evolving\<rparr>]\<rparr>, w))))"

definition GetCurrentTask :: "EpochService \<Rightarrow> EvolutionTask option" where
  "GetCurrentTask svc = es_active svc"

definition CancelActiveTask :: "EpochService \<Rightarrow> EpochService" where
  "CancelActiveTask svc = (case es_cancelled svc of None \<Rightarrow> svc | Some _ \<Rightarrow> svc\<lparr>es_cancelled := Some True\<rparr>)"

section \<open>Running an epoch\<close>

text \<open>An update of the task's row; a failure is only logged.\<close>

definition updateTask :: "nat \<Rightarrow> (EvolutionTask \<Rightarrow> EvolutionTask) \<Rightarrow> world \<Rightarrow> world" where
  "updateTask taskID upd w =
     snd (db_exec (\<lambda>d. d\<lparr>tb_tasks := update_where (\<lambda>t. EtID t = taskID) upd (tb_tasks d)\<rparr>) w)"

definition epoch_config :: "nat \<Rightarrow> CreateTaskRequest \<Rightarrow> SpawnPoint \<Rightarrow> EpochConfig" where
  "epoch_config taskID req spawn = \<lparr>EcStrategyID = CtStrategyID req, EcTaskID = taskID, EcSymbol = CtSymbol req,
     EcInterval = CtInterval req, EcPopSize = CtPopSize req, EcMaxGenerations = CtMaxGenerations req,
     EcLotStep = CtLotStep req, EcLotMin = CtLotMin req, EcSpawnPointOverride = Some spawn, EcOnProgress = True\<rparr>"

definition onProgress :: "nat \<Rightarrow> CreateTaskRequest \<Rightarrow> int \<Rightarrow> f64 \<Rightarrow> world \<Rightarrow> world" where
  "onProgress taskID req gen best w =
     (let maxGen = (if CtMaxGenerations req \<le> 0 then 25 else CtMaxGenerations req);
          progress = f_of_int (gen + 1) / f_of_int maxGen
      in updateTask taskID (\<lambda>t. t\<lparr>EtCurrentGeneration := gen + 1, EtBestScore := best, EtProgress := progress\<rparr>) w)"

text \<open>The final update of the row, and the status for the task in memory. An error of the engine is its
  message.\<close>

definition settle_epoch :: "nat \<Rightarrow> string + EpochResult \<Rightarrow> world \<Rightarrow> string \<times> world" where
  "settle_epoch taskID result w = (case result of
     Inl msg \<Rightarrow> (''failed'', updateTask taskID (\<lambda>t. t\<lparr>EtStatus := ''failed'', EtProgress := 1, EtErrorMsg := msg\<rparr>) w)
   | Inr r \<Rightarrow> (''done'', updateTask taskID (\<lambda>t. t\<lparr>EtStatus := ''done'', EtProgress := 1,
       EtCurrentGeneration := EpGenerations r, EtBestScore := EpBestScore r\<rparr>) w))"

definition set_active_status :: "string \<Rightarrow> EpochService \<Rightarrow> EpochService" where
  "set_active_status status svc = svc\<lparr>es_active := map_option (\<lambda>t. t\<lparr>EtStatus := status\<rparr>) (es_active svc)\<rparr>"

text \<open>The whole body, for what the engine reports and returns.\<close>

definition runEpoch :: "nat \<Rightarrow> CreateTaskRequest \<Rightarrow> (int \<times> f64) list \<Rightarrow> string + EpochResult \<Rightarrow> EpochService \<times> world \<Rightarrow>
    EpochService \<times> world" where
  "runEpoch taskID req calls result = (\<lambda>(svc, w).
     case settle_epoch taskID result (foldl (\<lambda>w (gen, best). onProgress taskID req gen best w) w calls) of
       (status, w) \<Rightarrow> (set_active_status status svc, w))"

section \<open>Interleavings\<close>

definition set_phase :: "nat \<Rightarrow> job_phase \<Rightarrow> EpochService \<Rightarrow> EpochService" where
  "set_phase k p svc = svc\<lparr>es_jobs := (es_jobs svc)[k := (es_jobs svc ! k)\<lparr>jb_phase := p\<rparr>]\<rparr>"

definition drop_job :: "nat \<Rightarrow> EpochService \<Rightarrow> EpochService" where
  "drop_job k svc = svc\<lparr>es_jobs := take k (es_jobs svc) @ drop (Suc k) (es_jobs svc)\<rparr>"

text \<open>The steps: calls of the service, a progress report of a running engine, its return, the end of the
  goroutine, and anything the rest of the program does to the database.\<close>

inductive service_step :: "service_env \<Rightarrow> EpochService \<times> world \<Rightarrow> EpochService \<times> world \<Rightarrow> bool" for env where
  create: "CreateAndRunTask env req s = (r, t) \<Longrightarrow> service_step env s t"
| cancel: "service_step env (svc, w) (CancelActiveTask svc, w)"
| progress: "k < length (es_jobs svc) \<Longrightarrow> jb_phase (es_jobs svc ! k) = Evolving \<Longrightarrow>
    service_step env (svc, w) (svc, onProgress (jb_task (es_jobs svc ! k)) (jb_request (es_jobs svc ! k)) gen best w)"
| return: "k < length (es_jobs svc) \<Longrightarrow> jb_phase (es_jobs svc ! k) = Evolving \<Longrightarrow>
    settle_epoch (jb_task (es_jobs svc ! k)) result w = (status, u) \<Longrightarrow>
    service_step env (svc, w) (set_phase k (Settled status) svc, u)"
| finish: "k < length (es_jobs svc) \<Longrightarrow> jb_phase (es_jobs svc ! k) = Settled status \<Longrightarrow>
    service_step env (svc, w) (drop_job k (set_active_status status svc), w)"
| elsewhere: "service_step env (svc, w) (svc, u)"

inductive service_reach :: "service_env \<Rightarrow> EpochService \<times> world \<Rightarrow> bool" for env where
  start: "service_reach env (NewEpochService, w)"
| step: "service_reach env s \<Longrightarrow> service_step env s t \<Longrightarrow> service_reach env t"

lemma job_frames [simp]:
  "es_active (set_phase k p svc) = es_active svc" "es_active (drop_job k svc) = es_active svc"
  "es_active (set_active_status st svc) = map_option (\<lambda>t. t\<lparr>EtStatus := st\<rparr>) (es_active svc)"
  "es_jobs (set_active_status st svc) = es_jobs svc"
  "es_jobs (drop_job k svc) = take k (es_jobs svc) @ drop (Suc k) (es_jobs svc)"
  by (simp_all add: set_phase_def drop_job_def set_active_status_def)

section \<open>One task at a time\<close>

text \<open>The slot is free, or taken by the one goroutine in flight.\<close>

definition slot_ok :: "EpochService \<Rightarrow> bool" where
  "slot_ok svc \<longleftrightarrow> (es_jobs svc = [] \<and> \<not> busy svc \<or>
     (\<exists>j t. es_jobs svc = [j] \<and> es_active svc = Some t \<and> EtStatus t = ''running'' \<and> EtID t = jb_task j \<and>
       jb_phase j \<in> {Evolving, Settled ''done'', Settled ''failed''}))"

lemma busy_running [simp]: "es_active svc = Some t \<Longrightarrow> busy svc \<longleftrightarrow> EtStatus t = ''running''"
  by (simp add: busy_def)

lemma slot_busy: "slot_ok svc \<Longrightarrow> busy svc \<longleftrightarrow> es_jobs svc \<noteq> []"
  by (auto simp: slot_ok_def)

lemma create_task_ok:
  assumes "create_task t w = (Inr task, u)"
  shows "task = t\<lparr>EtID := next_id (map EtID (tb_tasks (w_db w)))\<rparr>" "w_db u = add_task t (w_db w)"
  using assms unfolding create_task_def by (elim statement_cases; simp add: add_task_def)+

text \<open>The outcomes of a request.\<close>

lemma CreateAndRunTask_cases:
  assumes "CreateAndRunTask env req (svc, w) = (r, svc', w')"
  obtains (refused) "busy svc" "r = Inl (Errorf ''another evolution task is already running'')" "svc' = svc" "w' = w"
  | (failed) e p where "\<not> busy svc" "r = Inl (Wrapf p e)" "svc' = svc"
  | (accepted) task job where "\<not> busy svc" "r = Inr task" "EtStatus task = ''running''" "EtStrategyID task = CtStrategyID req"
      "svc' = svc\<lparr>es_active := Some task, es_cancelled := Some False, es_jobs := es_jobs svc @ [job]\<rparr>"
      "jb_task job = EtID task" "jb_phase job = Evolving" "task \<in> set (tb_tasks (w_db w'))"
proof (cases "busy svc")
  case True
  then show ?thesis using assms by (intro refused) (simp_all add: CreateAndRunTask_def)
next
  case False
  obtain q u where q: "resolveSpawnPoint env req w = (q, u)" by fastforce
  show ?thesis
  proof (cases q)
    case (Inl e)
    have "r = Inl (Wrapf ''CreateAndRunTask resolveSpawnPoint'' e)" "svc' = svc"
      using assms False by (simp_all add: CreateAndRunTask_def q Inl)
    then show ?thesis by (rule failed [OF False])
  next
    case (Inr spawn)
    let ?req = "with_defaults req"
    let ?t = "\<lparr>EtID = 0, EtStrategyID = CtStrategyID req, EtStatus = ''running'', EtProgress = 0,
      EtCurrentGeneration = 0, EtBestScore = 0, EtErrorMsg = [], EtConfig = sv_marshal env ?req\<rparr>"
    obtain c v where c: "create_task ?t u = (c, v)" by fastforce
    have id: "CtStrategyID ?req = CtStrategyID req" by (simp add: with_defaults_def Let_def)
    show ?thesis
    proof (cases c)
      case (Inl e)
      have "r = Inl (Wrapf ''CreateAndRunTask create task'' e)" "svc' = svc"
        using assms False by (simp_all add: CreateAndRunTask_def q Inr c Inl id Let_def)
      then show ?thesis by (rule failed [OF False])
    next
      case t: (Inr task)
      note ok = create_task_ok [OF c [unfolded t]]
      have "task \<in> set (tb_tasks (w_db v))" unfolding ok by (simp add: add_task_def)
      then show ?thesis
        using assms False ok(1)
        by (intro accepted [of task "\<lparr>jb_task = EtID task, jb_request = ?req, jb_spawn = spawn, jb_phase = Evolving\<rparr>"])
          (simp_all add: CreateAndRunTask_def q Inr c t id Let_def)
    qed
  qed
qed

lemma slot_create:
  assumes "slot_ok svc" "CreateAndRunTask env req (svc, w) = (r, svc', w')"
  shows "slot_ok svc'"
  using assms(2)
proof (cases rule: CreateAndRunTask_cases)
  case (accepted task job)
  then have "es_jobs svc = []" using slot_busy [OF assms(1)] by simp
  then show ?thesis using accepted by (simp add: slot_ok_def)
qed (use assms(1) in simp_all)

lemma settle_epoch_status: "settle_epoch k result w = (status, u) \<Longrightarrow> status = ''done'' \<or> status = ''failed''"
  by (auto simp: settle_epoch_def split: sum.splits)

lemma slot_step:
  assumes "service_step env s t" "slot_ok (fst s)"
  shows "slot_ok (fst t)"
  using assms(1)
proof (cases rule: service_step.cases)
  case (create req r)
  then show ?thesis using slot_create [of "fst s" env req "snd s" r "fst t" "snd t"] assms(2) by simp
next
  case (cancel svc w)
  then show ?thesis using assms(2) by (auto simp: CancelActiveTask_def slot_ok_def busy_def split: option.splits)
next
  case (return k svc result w status u)
  then show ?thesis using assms(2) settle_epoch_status [OF return(5)] by (auto simp: set_phase_def slot_ok_def)
next
  case (finish k svc status w)
  then show ?thesis
    using assms(2) by (auto simp: drop_job_def set_active_status_def slot_ok_def)
qed (use assms(2) in simp_all)

lemma slot_reach: "service_reach env s \<Longrightarrow> slot_ok (fst s)"
proof (induction rule: service_reach.induct)
  case (start w)
  then show ?case by (simp add: slot_ok_def NewEpochService_def busy_def)
next
  case (step s t)
  then show ?case using slot_step by blast
qed

text \<open>C15. One evolution at a time. In every state the service can reach, under any interleaving of its
  calls with the goroutines and with the rest of the program, at most one epoch is in flight, the
  active task says \<open>running\<close> exactly while it is, and is its task, and every request
  for another task is refused without touching the service or the database.\<close>

theorem single_active_task:
  assumes "service_reach env (svc, w)"
  shows "length (es_jobs svc) \<le> 1 \<and> (busy svc \<longleftrightarrow> es_jobs svc \<noteq> []) \<and>
    (\<forall>j \<in> set (es_jobs svc). map_option EtID (GetCurrentTask svc) = Some (jb_task j) \<and>
      CreateAndRunTask env req (svc, w) = (Inl (Errorf ''another evolution task is already running''), svc, w))"
proof -
  have s: "slot_ok svc" using slot_reach [OF assms] by simp
  have "CreateAndRunTask env req (svc, w) = (Inl (Errorf ''another evolution task is already running''), svc, w)" if "busy svc"
    using that by (simp add: CreateAndRunTask_def)
  then show ?thesis using s slot_busy [OF s] by (auto simp: slot_ok_def GetCurrentTask_def)
qed

section \<open>An epoch releases the slot\<close>

lemma progress_steps:
  assumes "k < length (es_jobs svc)" "jb_phase (es_jobs svc ! k) = Evolving"
  shows "(service_step env)\<^sup>*\<^sup>* (svc, w) (svc, foldl (\<lambda>w (gen, best). onProgress (jb_task (es_jobs svc ! k))
    (jb_request (es_jobs svc ! k)) gen best w) w calls)"
proof (induction calls arbitrary: w)
  case Nil
  then show ?case by simp
next
  case (Cons c calls)
  obtain gen best where c: "c = (gen, best)" by fastforce
  show ?case
    using converse_rtranclp_into_rtranclp [OF service_step.progress [OF assms] Cons.IH] by (simp add: c)
qed

lemma updateTask_live:
  assumes "\<forall>n. \<not> w_fails w n" "\<not> w_aborted w"
  shows "w_db (updateTask k upd w) = (w_db w)\<lparr>tb_tasks := update_where (\<lambda>t. EtID t = k) upd (tb_tasks (w_db w))\<rparr> \<and>
    (\<forall>n. \<not> w_fails (updateTask k upd w) n) \<and> \<not> w_aborted (updateTask k upd w)"
  using assms by (simp add: updateTask_def db_exec_def statement_def Let_def)

lemma progress_live:
  fixes calls :: "(int \<times> f64) list" and req :: CreateTaskRequest and k :: nat
  assumes "\<forall>n. \<not> w_fails w n" "\<not> w_aborted w"
  defines "u \<equiv> foldl (\<lambda>w (gen, best). onProgress k req gen best w) w calls"
  shows "(\<forall>n. \<not> w_fails u n) \<and> \<not> w_aborted u"
  unfolding u_def using assms(1,2)
proof (induction calls arbitrary: w)
  case (Cons c calls)
  obtain gen best where c: "c = (gen, best)" by fastforce
  note l = updateTask_live [OF Cons.prems]
  show ?case using Cons.IH [of "onProgress k req gen best w"] l by (simp add: c onProgress_def Let_def)
qed simp

text \<open>C30. An epoch always gives the slot back. Whatever the engine reports and returns, and whichever
  statements fail, the body of the goroutine is a run of the interleaved steps; it ends with no
  epoch in flight and the active task \<open>done\<close> or, after an error, \<open>failed\<close>, so that the next
  request is not refused as a conflict. When the database answers, the row of the task has that
  status and full progress too.\<close>

theorem epoch_releases_slot:
  assumes "service_reach env (svc, w)" "es_jobs svc = [j]" "jb_phase j = Evolving"
    "runEpoch (jb_task j) (jb_request j) calls result (svc, w) = (svc', u)"
  shows "\<exists>svc''. (service_step env)\<^sup>*\<^sup>* (svc, w) (svc'', u) \<and> es_jobs svc'' = [] \<and> \<not> busy svc'' \<and>
    GetCurrentTask svc'' = GetCurrentTask svc' \<and>
    map_option EtStatus (GetCurrentTask svc'') = Some (if isl result then ''failed'' else ''done'') \<and>
    fst (CreateAndRunTask env req (svc'', u)) \<noteq> Inl (Errorf ''another evolution task is already running'') \<and>
    ((\<forall>n. \<not> w_fails w n) \<and> \<not> w_aborted w \<longrightarrow> (\<forall>t \<in> set (tb_tasks (w_db u)). EtID t = jb_task j \<longrightarrow>
       EtStatus t = (if isl result then ''failed'' else ''done'') \<and> EtProgress t = 1))"
proof -
  let ?v = "foldl (\<lambda>w (gen, best). onProgress (jb_task j) (jb_request j) gen best w) w calls"
  let ?status = "if isl result then ''failed'' else ''done''"
  have s: "slot_ok svc" using slot_reach [OF assms(1)] by simp
  then obtain t where t: "es_active svc = Some t" using assms(2) by (auto simp: slot_ok_def)
  obtain status where st: "settle_epoch (jb_task j) result ?v = (status, u)" and svc': "svc' = set_active_status status svc"
    using assms(4) by (auto simp: runEpoch_def split: prod.splits)
  have status: "status = ?status" using st by (auto simp: settle_epoch_def split: sum.splits)
  have k: "0 < length (es_jobs svc)" "jb_phase (es_jobs svc ! 0) = Evolving" using assms(2,3) by simp_all
  have p: "(service_step env)\<^sup>*\<^sup>* (svc, w) (svc, ?v)" using progress_steps [OF k] assms(2) by simp
  let ?a = "set_phase 0 (Settled status) svc"
  have ret: "service_step env (svc, ?v) (?a, u)" using service_step.return [OF k, of result ?v status u] st assms(2) by simp
  have a: "es_jobs ?a = [j\<lparr>jb_phase := Settled status\<rparr>]" by (simp add: set_phase_def assms(2))
  let ?b = "drop_job 0 (set_active_status status ?a)"
  have fin: "service_step env (?a, u) (?b, u)" by (rule service_step.finish) (simp_all add: a)
  have run: "(service_step env)\<^sup>*\<^sup>* (svc, w) (?b, u)" using rtranclp_trans [OF p] ret fin by (simp add: converse_rtranclp_into_rtranclp)
  have b: "es_jobs ?b = []" "es_active ?b = Some (t\<lparr>EtStatus := status\<rparr>)"
    by (simp_all add: t) (simp add: set_phase_def assms(2))
  have free: "\<not> busy ?b" using b(2) by (simp add: status)
  have next_ok: "fst (CreateAndRunTask env req (?b, u)) \<noteq> Inl (Errorf ''another evolution task is already running'')"
  proof -
    obtain r x y where c: "CreateAndRunTask env req (?b, u) = (r, x, y)" by (metis prod.exhaust)
    then show ?thesis using free by (cases rule: CreateAndRunTask_cases) (auto simp: c)
  qed
  have row: "EtStatus x = ?status \<and> EtProgress x = 1"
    if l: "\<forall>n. \<not> w_fails w n" "\<not> w_aborted w" and x: "x \<in> set (tb_tasks (w_db u))" "EtID x = jb_task j" for x
  proof -
    have v: "\<forall>n. \<not> w_fails ?v n" "\<not> w_aborted ?v" using progress_live [OF l] by blast+
    show ?thesis
      using st x updateTask_live [OF v] by (cases result) (auto simp: settle_epoch_def update_where_def split: if_splits)
  qed
  have "GetCurrentTask ?b = GetCurrentTask svc'" by (simp add: GetCurrentTask_def svc' t)
  moreover have "map_option EtStatus (GetCurrentTask ?b) = Some ?status" by (simp add: GetCurrentTask_def t status)
  ultimately show ?thesis using run b(1) free next_ok row by (intro exI [of _ ?b]) blast
qed

section \<open>The range of spawn points\<close>

lemma newest_member: "newest gs = Some g \<Longrightarrow> g \<in> set gs"
  by (induction gs arbitrary: g) (auto split: option.splits if_splits)

lemma champion_row_member:
  assumes "champion_row k w = (Inr g, u)"
  shows "g \<in> set (tb_genes (w_db w)) \<and> GrStrategyID g = k \<and> GrRole g = ''champion''"
proof -
  obtain q v where q: "db_query (\<lambda>d. newest (filter (\<lambda>g. GrStrategyID g = k \<and> GrRole g = ''champion'') (tb_genes d))) w = (q, v)"
    by fastforce
  have "q = Inr (Some g)" using assms by (auto simp: champion_row_def q split: sum.splits option.splits)
  from newest_member [OF db_query_ok [OF q [unfolded this], symmetric]] show ?thesis by simp
qed

lemma draw_bounds:
  assumes "rand_ok src" "f_fin lo" "f_fin wd" "0 \<le> f_val wd" "f_fin (lo + wd)"
  shows "f_fin (lo + r_float src k * wd) \<and> f_val lo \<le> f_val (lo + r_float src k * wd) \<and>
    f_val (lo + r_float src k * wd) \<le> f_val (lo + wd)"
proof -
  note u = f_scale [OF unit_fin [OF assms(1)] assms(3,4), of k]
  have v: "f_val (lo + r_float src k * wd) = R (f_val lo + f_val (r_float src k * wd))"
    "f_val (lo + wd) = R (f_val lo + f_val wd)"
    by (rule f_val_add [OF assms(2) u(1)], rule f_val_add [OF assms(2,3)])
  have l: "f_val lo \<le> f_val (lo + r_float src k * wd)"
    unfolding v using u f_fin_not(1) [OF assms(2)] by (intro R_ge_val) simp_all
  have h: "f_val (lo + r_float src k * wd) \<le> f_val (lo + wd)" unfolding v using u by (intro R_mono) simp
  have "f_fin (lo + r_float src k * wd)"
    by (rule f_fin_between [OF f_nan_add [OF assms(2) u(1)] assms(2,5) l h])
  then show ?thesis using l h by simp
qed

lemma spawn_draws:
  "f_fin (lit 30 100) \<and> f_fin (lit 70 100) \<and> 0 \<le> lit 70 100 \<and> f_fin (lit 30 100 + lit 70 100) \<and> lit 30 100 + lit 70 100 \<le> lit 1 1"
  "f_fin (lit 10 100) \<and> f_fin (lit 30 100) \<and> 0 \<le> lit 30 100 \<and> f_fin (lit 10 100 + lit 30 100) \<and> lit 10 100 + lit 30 100 \<le> lit 40 100"
  "0 \<le> lit 10 100 \<and> f_fin (lit 40 100) \<and> lit 40 100 \<le> lit 1 1 \<and> f_fin (lit 20 100) \<and> 0 \<le> lit 20 100 \<and> lit 20 100 \<le> lit 1 1"
  by (code_simp, code_simp, code_simp)

lemma randomSpawnPoint_bounds:
  assumes "rand_ok src"
  defines "sp \<equiv> randomSpawnPoint src"
  shows "50 \<le> f_val (SpReserveFloor sp) \<and> f_val (SpReserveFloor sp) < 300"
    "lit 30 100 \<le> ROIReleaseTrigger sp \<and> ROIReleaseTrigger sp \<le> 1"
    "lit 10 100 \<le> ReleaseRatio sp \<and> ReleaseRatio sp \<le> lit 40 100"
    "spawn_ok sp"
proof -
  have n: "r_intn src 0 250 < 250" using assms(1) by (simp add: rand_ok_def)
  then have "f_val (f_of_int (50 + int (r_intn src 0 250))) = of_int (50 + int (r_intn src 0 250))"
    by (intro conjunct1 [OF f_of_int]) simp
  then show "50 \<le> f_val (SpReserveFloor sp) \<and> f_val (SpReserveFloor sp) < 300" using n by (simp add: sp_def randomSpawnPoint_def)
  have roi: "f_fin (ROIReleaseTrigger sp) \<and> f_val (lit 30 100) \<le> f_val (ROIReleaseTrigger sp) \<and>
      f_val (ROIReleaseTrigger sp) \<le> f_val (lit 30 100 + lit 70 100)"
    using draw_bounds [OF assms(1), of "lit 30 100" "lit 70 100" 1] spawn_draws(1) f_leD [of 0 "lit 70 100"]
    by (simp add: sp_def randomSpawnPoint_def)
  then show "lit 30 100 \<le> ROIReleaseTrigger sp \<and> ROIReleaseTrigger sp \<le> 1"
    using spawn_draws(1) f_leD [of "lit 30 100 + lit 70 100" "lit 1 1"] f_fin_not(1) [of "ROIReleaseTrigger sp"]
      f_fin_not(1) [of "lit 30 100"] by (simp add: f_le_val lit_1)
  have ratio: "f_fin (ReleaseRatio sp) \<and> f_val (lit 10 100) \<le> f_val (ReleaseRatio sp) \<and>
      f_val (ReleaseRatio sp) \<le> f_val (lit 10 100 + lit 30 100)"
    using draw_bounds [OF assms(1), of "lit 10 100" "lit 30 100" 2] spawn_draws(2) f_leD [of 0 "lit 30 100"]
    by (simp add: sp_def randomSpawnPoint_def)
  then show r: "lit 10 100 \<le> ReleaseRatio sp \<and> ReleaseRatio sp \<le> lit 40 100"
    using spawn_draws(2,3) f_leD [of "lit 10 100 + lit 30 100" "lit 40 100"] f_fin_not(1) [of "ReleaseRatio sp"]
      f_fin_not(1) [of "lit 10 100"] f_fin_not(1) [of "lit 40 100"] by (simp add: f_le_val)
  have "f_val (lit 40 100) \<le> 1" using spawn_draws(3) f_leD [of "lit 40 100" "lit 1 1"] by (simp add: lit_1)
  moreover have "0 \<le> f_val (lit 10 100)" using spawn_draws(3) f_leD [of 0 "lit 10 100"] by simp
  ultimately show "spawn_ok sp"
    using ratio f_leD [OF conjunct1 [OF r]] f_leD [OF conjunct2 [OF r]] by (simp add: spawn_ok_def)
qed

text \<open>Resolving a spawn point fails only for a manual request without a point. A drawn point has its
  reserve floor in [50, 300), its release trigger in [0.3, 1] and its release ratio in [0.1, 0.4];
  an inherited one has a positive capital and is the champion's or the default. Drawn and default
  points satisfy what the release rule and the strategy assume of a spawn point.\<close>

theorem spawn_point_resolved:
  assumes "rand_ok (sv_rand env)" "resolveSpawnPoint env req w = (r, u)"
  shows "w_db u = w_db w \<and> (isl r \<longleftrightarrow> CtSpawnMode req = ''manual'' \<and> CtSpawnPoint req = None) \<and>
    (\<forall>sp. r = Inr sp \<longrightarrow> CtSpawnMode req = ''manual'' \<and> CtSpawnPoint req = Some sp \<or>
      CtSpawnMode req = ''random_once'' \<and> spawn_ok sp \<and> 50 \<le> f_val (SpReserveFloor sp) \<and> f_val (SpReserveFloor sp) < 300 \<and>
        lit 30 100 \<le> ROIReleaseTrigger sp \<and> ROIReleaseTrigger sp \<le> 1 \<and>
        lit 10 100 \<le> ReleaseRatio sp \<and> ReleaseRatio sp \<le> lit 40 100 \<or>
      sp = defaultSpawnPoint \<and> spawn_ok sp \<or>
      0 < InitialCapital sp \<and> (\<exists>g \<in> set (tb_genes (w_db w)). GrStrategyID g = CtStrategyID req \<and> GrRole g = ''champion'' \<and>
        sp = DecodeSpawnFromParamPack (sv_json env) (GrParamPack g)))"
proof -
  have d: "spawn_ok defaultSpawnPoint"
    using spawn_draws(3) f_leD [of 0 "lit 20 100"] f_leD [of "lit 20 100" "lit 1 1"]
    by (simp add: spawn_ok_def defaultSpawnPoint_def lit_1)
  note rnd = randomSpawnPoint_bounds [OF assms(1)]
  obtain q v where q: "champion_row (CtStrategyID req) w = (q, v)" by fastforce
  have v: "w_db v = w_db w" by (rule champion_row_db [OF q])
  show ?thesis
  proof (cases "CtSpawnMode req = ''manual'' \<or> CtSpawnMode req = ''random_once''")
    case True
    then show ?thesis using assms(2) rnd by (auto simp: resolveSpawnPoint_def split: option.splits if_splits)
  next
    case False
    then have f: "CtSpawnMode req \<noteq> ''manual''" "CtSpawnMode req \<noteq> ''random_once''" by simp_all
    show ?thesis
    proof (cases q)
      case (Inl e)
      then have "r = Inr defaultSpawnPoint" "u = v" using assms(2) f by (auto simp: resolveSpawnPoint_def q)
      then show ?thesis using d v f by simp
    next
      case (Inr g)
      have g: "g \<in> set (tb_genes (w_db w))" "GrStrategyID g = CtStrategyID req" "GrRole g = ''champion''"
        using champion_row_member [OF q [unfolded Inr]] by simp_all
      have "u = v" "r = Inr (if 0 < InitialCapital (DecodeSpawnFromParamPack (sv_json env) (GrParamPack g))
          then DecodeSpawnFromParamPack (sv_json env) (GrParamPack g) else defaultSpawnPoint)"
        using assms(2) f by (auto simp: resolveSpawnPoint_def q Inr Let_def split: if_splits)
      then show ?thesis using d v f g by auto
    qed
  qed
qed

section \<open>Witnesses\<close>

definition demo_service :: service_env where
  "demo_service = \<lparr>sv_rand = quarter_src, sv_json = bits_json, sv_marshal = \<lambda>_. ''{}''\<rparr>"

definition demo_request :: CreateTaskRequest where
  "demo_request = \<lparr>CtStrategyID = 1, CtSymbol = ''BTCUSDT'', CtInterval = ''1d'', CtPopSize = 0, CtMaxGenerations = 0,
     CtSpawnMode = ''random_once'', CtSpawnPoint = None, CtTestMode = True, CtLotStep = 0, CtLotMin = 0\<rparr>"

abbreviation accepted :: "(go_error + EvolutionTask) \<times> EpochService \<times> world" where
  "accepted \<equiv> CreateAndRunTask demo_service demo_request (NewEpochService, demo_world)"

lemma accepted_reach: "service_reach demo_service (fst (snd accepted), snd (snd accepted))"
proof -
  have "service_step demo_service (NewEpochService, demo_world) (snd accepted)"
    by (rule service_step.create [OF surjective_pairing])
  then show ?thesis using service_reach.step [OF service_reach.start] by simp
qed

lemma accepted_job: "map jb_task (es_jobs (fst (snd accepted))) = [1] \<and> map jb_phase (es_jobs (fst (snd accepted))) = [Evolving]"
  by code_simp

theorem single_active_task_witness:
  "CreateAndRunTask demo_service demo_request (snd accepted) =
     (Inl (Errorf ''another evolution task is already running''), snd accepted)"
proof -
  obtain j where "j \<in> set (es_jobs (fst (snd accepted)))" using accepted_job by fastforce
  then show ?thesis using single_active_task [OF accepted_reach, where req = demo_request] by auto
qed

theorem epoch_releases_slot_witness:
  "\<exists>svc u. (service_step demo_service)\<^sup>*\<^sup>* (snd accepted) (svc, u) \<and> \<not> busy svc \<and>
     map_option EtStatus (GetCurrentTask svc) = Some ''failed''"
proof -
  obtain j where j: "es_jobs (fst (snd accepted)) = [j]" "jb_phase j = Evolving" using accepted_job by auto
  obtain svc' u where "runEpoch (jb_task j) (jb_request j) [(0, 1)] (Inl ''no data'') (fst (snd accepted), snd (snd accepted)) = (svc', u)"
    by fastforce
  from epoch_releases_slot [OF accepted_reach j this, where req = demo_request] show ?thesis by auto
qed

theorem spawn_point_resolved_witness:
  "\<exists>sp. fst (resolveSpawnPoint demo_service demo_request demo_world) = Inr sp \<and> spawn_ok sp"
proof -
  obtain r u where r: "resolveSpawnPoint demo_service demo_request demo_world = (r, u)" by fastforce
  have "rand_ok (sv_rand demo_service)" using quarter_src_ok by (simp add: demo_service_def)
  note s = spawn_point_resolved [OF this r]
  have m: "CtSpawnMode demo_request = ''random_once''" by (simp add: demo_request_def)
  then have "\<not> isl r" using s by simp
  moreover have "tb_genes (w_db demo_world) = []" by (simp add: demo_world_def demo_db_def)
  ultimately show ?thesis using s m by (cases r) (auto simp: r)
qed

end
