(* ===== verification/TickLaws.thy ===== *)
theory TickLaws
  imports InstanceLaws
begin

text \<open>
  Lemmas on a tick of a live instance: what its dispatch loop delivers and records, that order
  identifiers are injective, and that quantities are printed to the nearest unit of the last place.
\<close>

section \<open>Deliveries\<close>

text \<open>\<open>cmds\<close> were delivered to the owner of the instance between two states of the hub: each is recorded, and
  their identifiers are distinct and new to the database \<open>d\<close> it began with.\<close>

definition recorded :: "StrategyInstance \<Rightarrow> db \<Rightarrow> TradeCommand \<Rightarrow> bool" where
  "recorded inst d c \<longleftrightarrow> TcAction c \<noteq> ''RELEASE'' \<and> TcSymbol c = SiSymbol inst \<and>
     (\<exists>x \<in> set (tb_execs d). pending (TcClientOrderID c) x \<and> SxInstanceID x = SiID inst)"

definition sent_recorded :: "im_env \<Rightarrow> StrategyInstance \<Rightarrow> db \<Rightarrow> Hub \<Rightarrow> world \<Rightarrow> Hub \<Rightarrow> bool" where
  "sent_recorded env inst d h u g \<longleftrightarrow> registry_ok g \<and> (\<exists>cmds. (\<forall>c \<in> set cmds. recorded inst (w_db u) c) \<and>
     distinct (map TcClientOrderID cmds) \<and> TcClientOrderID ` set cmds \<inter> SxClientOrderID ` set (tb_execs d) = {} \<and>
     delivered_to g = (delivered_to h)(SiUserID inst := delivered_to h (SiUserID inst) @ map (im_envelope env) cmds))"

lemma sent_recorded_refl: "registry_ok h \<Longrightarrow> sent_recorded env inst d h u h"
  unfolding sent_recorded_def by (intro conjI exI [of _ "[]"]) simp_all

lemma recorded_id: "recorded inst d c \<Longrightarrow> TcClientOrderID c \<in> SxClientOrderID ` set (tb_execs d)"
  unfolding recorded_def by (elim conjE bexE) (rule image_eqI, rule sym, assumption+)

lemma recorded_later:
  assumes "recorded inst d c" "tick_changes k d e"
  shows "recorded inst e c"
  using assms(1) tick_changes_frame(3) [OF assms(2)] by (auto simp: recorded_def)

lemma sent_recorded_later:
  assumes "sent_recorded env inst d h u g" "tick_changes k (w_db u) (w_db v)"
  shows "sent_recorded env inst d h v g"
proof -
  have "\<forall>c \<in> set cmds. recorded inst (w_db v) c" if "\<forall>c \<in> set cmds. recorded inst (w_db u) c" for cmds
    using that recorded_later [OF _ assms(2)] by blast
  then show ?thesis using assms(1) unfolding sent_recorded_def by fast
qed

lemma sent_recorded_earlier:
  assumes "sent_recorded env inst e h u g" "tick_changes k d e"
  shows "sent_recorded env inst d h u g"
proof -
  have "SxClientOrderID ` set (tb_execs d) \<subseteq> SxClientOrderID ` set (tb_execs e)" using tick_changes_frame(3) [OF assms(2)] by auto
  then show ?thesis using assms(1) unfolding sent_recorded_def by blast
qed

lemma sent_recorded_trans:
  assumes "sent_recorded env inst d h u g" "sent_recorded env inst (w_db u) g v k" "tick_changes i (w_db u) (w_db v)"
    "tick_changes j d (w_db u)"
  shows "sent_recorded env inst d h v k"
proof -
  from assms(1) obtain cs where cs: "\<forall>c \<in> set cs. recorded inst (w_db u) c" "distinct (map TcClientOrderID cs)"
    "TcClientOrderID ` set cs \<inter> SxClientOrderID ` set (tb_execs d) = {}"
    "delivered_to g = (delivered_to h)(SiUserID inst := delivered_to h (SiUserID inst) @ map (im_envelope env) cs)"
    unfolding sent_recorded_def by blast
  from assms(2) obtain ds where ds: "\<forall>c \<in> set ds. recorded inst (w_db v) c" "registry_ok k" "distinct (map TcClientOrderID ds)"
    "TcClientOrderID ` set ds \<inter> SxClientOrderID ` set (tb_execs (w_db u)) = {}"
    "delivered_to k = (delivered_to g)(SiUserID inst := delivered_to g (SiUserID inst) @ map (im_envelope env) ds)"
    unfolding sent_recorded_def by blast
  have c: "TcClientOrderID ` set cs \<subseteq> SxClientOrderID ` set (tb_execs (w_db u))"
    using cs(1) recorded_id by blast
  then have "distinct (map TcClientOrderID (cs @ ds))" using cs(2) ds(3,4) by auto
  moreover have "TcClientOrderID ` set (cs @ ds) \<inter> SxClientOrderID ` set (tb_execs d) = {}"
    using cs(3) ds(4) tick_changes_frame(3) [OF assms(4)] by auto
  moreover have "\<forall>c \<in> set (cs @ ds). recorded inst (w_db v) c" using cs(1) ds(1) recorded_later [OF _ assms(3)] by auto
  moreover have "delivered_to k = (delivered_to h)(SiUserID inst := delivered_to h (SiUserID inst) @ map (im_envelope env) (cs @ ds))"
    by (simp add: ds(5) cs(4))
  ultimately show ?thesis using ds(2) unfolding sent_recorded_def by blast
qed

lemma dispatch_sent:
  assumes "dispatchCommand env inst cmd (w, h) = (r, u, g)" "registry_ok h" "TcAction cmd \<noteq> ''RELEASE''" "TcSymbol cmd = SiSymbol inst"
  shows "sent_recorded env inst (w_db w) h u g"
proof (cases "im_cmd env cmd")
  case None
  then show ?thesis using assms(1,2) by (auto simp: dispatchCommand_def intro: sent_recorded_refl)
next
  case (Some raw)
  let ?x = "\<lparr>SxID = 0, SxInstanceID = SiID inst, SxClientOrderID = TcClientOrderID cmd, SxStatus = ''pending'', SxRawPayload = raw\<rparr>"
  obtain c v where c: "create_exec ?x w = (c, v)" by fastforce
  show ?thesis
  proof (cases c)
    case (Inl e)
    then show ?thesis using assms(1,2) by (auto simp: dispatchCommand_def Some c intro: sent_recorded_refl)
  next
    case (Inr y)
    have uv: "u = v" "g = snd (SendToAgent (SiUserID inst) (im_envelope env cmd) h)"
      using assms(1) by (simp_all add: dispatchCommand_def Some c Inr)
    have v: "w_db v = add_exec ?x (w_db w)" "TcClientOrderID cmd \<notin> SxClientOrderID ` set (tb_execs (w_db w))"
      using create_exec_ok [OF c [unfolded Inr]] by simp_all
    then have rec: "recorded inst (w_db u) cmd" using assms(3,4) by (auto simp: recorded_def uv add_exec_def)
    from hub.send_extends [OF assms(2)] obtain ps where ps: "ps = [] \<or> ps = [im_envelope env cmd]"
      "delivered_to g = (delivered_to h)(SiUserID inst := delivered_to h (SiUserID inst) @ ps)"
      unfolding uv by blast
    obtain cmds where cmds: "cmds = [] \<or> cmds = [cmd]" "ps = map (im_envelope env) cmds"
      using ps(1) that [of "[]"] that [of "[cmd]"] by fastforce
    have "\<forall>c \<in> set cmds. recorded inst (w_db u) c" "distinct (map TcClientOrderID cmds)"
      "TcClientOrderID ` set cmds \<inter> SxClientOrderID ` set (tb_execs (w_db w)) = {}"
      using cmds(1) rec v(2) by auto
    then show ?thesis
      using ps(2) cmds(2) hub.keeps [OF assms(2)] unfolding sent_recorded_def uv by blast
  qed
qed

lemma intentToCommand_simps [simp]:
  "TcAction (intentToCommand inst i t) = Action i" "TcSymbol (intentToCommand inst i t) = SiSymbol inst"
  "TcEngine (intentToCommand inst i t) = Engine i" "TcLotType (intentToCommand inst i t) = LotType i"
  "TcClientOrderID (intentToCommand inst i t) =
     ''inst'' @ show_nat (int (SiID inst)) @ ''-'' @ Engine i @ ''-'' @ show_int (sint t)"
  by (simp_all add: intentToCommand_def Let_def)

lemma dispatch_loop_sent:
  "dispatch_loop env inst is (w, h) = (u, g) \<Longrightarrow> registry_ok h \<Longrightarrow> sent_recorded env inst (w_db w) h u g"
proof (induction "is" arbitrary: w h)
  case Nil
  then show ?case by (simp add: sent_recorded_refl)
next
  case (Cons i "is")
  show ?case
  proof (cases "Action i = ''RELEASE''")
    case True
    then show ?thesis using Cons by simp
  next
    case False
    obtain r v k where d: "dispatchCommand env inst (intentToCommand inst i (im_now env)) (w, h) = (r, v, k)"
      by (metis prod.exhaust)
    have l: "dispatch_loop env inst is (v, k) = (u, g)" using Cons.prems(1) False by (simp add: d)
    have s: "sent_recorded env inst (w_db w) h v k" by (rule dispatch_sent [OF d Cons.prems(2)]) (simp_all add: False)
    then have "registry_ok k" by (simp add: sent_recorded_def)
    from sent_recorded_trans [OF s Cons.IH [OF l this] dispatch_loop_changes [OF l] dispatchCommand_changes [OF d]] show ?thesis .
  qed
qed

lemma tick_run_sent:
  assumes "tick_run env inst bars ps row chromosome spawn (w, h) = (r, u, g)" "registry_ok h"
  shows "sent_recorded env inst (w_db w) h u g"
proof -
  let ?out = "im_step env (tick_input env bars ps row chromosome spawn)"
  obtain q v where q: "upsertRuntime env (SiID inst) (OutRuntime ?out) row w = (q, v)" by fastforce
  obtain x k where x: "dispatch_loop env inst (Intents ?out) (release_loop env (SiID inst) (Intents ?out) v, h) = (x, k)" by fastforce
  have "tick_changes (SiID inst) (w_db w) (w_db v)" by (rule upsertRuntime_changes [OF q])
  from rtranclp_trans [OF this release_loop_changes]
  have s: "sent_recorded env inst (w_db w) h x k" by (rule sent_recorded_earlier [OF dispatch_loop_sent [OF x assms(2)]])
  let ?t = "from_UnixMilli (OpenTime (bars ! (length bars - 2)))"
  let ?f = "\<lambda>d. d\<lparr>tb_portfolios := update_where (\<lambda>p. SpID p = SpID ps) (\<lambda>p. p\<lparr>LastProcessedBarTime := ?t\<rparr>) (tb_portfolios d)\<rparr>"
  obtain e y where e: "db_exec ?f x = (e, y)" by fastforce
  have "tick_changes (SiID inst) (w_db x) (w_db y)"
    using e unfolding db_exec_def by (cases rule: statement_cases) (auto intro: tick_change.time)
  note l = sent_recorded_later [OF s this]
  show ?thesis
    using assms l sent_recorded_refl [OF assms(2)] by (auto simp: tick_run_def Let_def q x e split: sum.splits)
qed

lemma tick_load_sent:
  assumes "tick_load env inst bars (w, h) = (r, u, g)" "registry_ok h"
  shows "sent_recorded env inst (w_db w) h u g"
proof -
  obtain q1 w1 where s1: "loadOrCreatePortfolio (SiID inst) w = (q1, w1)" by fastforce
  obtain q2 w2 where s2: "load_runtime (SiID inst) w1 = (q2, w2)" by fastforce
  obtain q3 w3 where s3: "loadChampionParams env inst w2 = (q3, w3)" by fastforce
  have c: "tick_changes (SiID inst) (w_db w) (w_db w3)"
    using loadOrCreatePortfolio_changes [OF s1] load_runtime_db [OF s2] loadChampionParams_db [OF s3] by simp
  have run: "sent_recorded env inst (w_db w) h u g" if "tick_run env inst bars ps row chromosome spawn (w3, h) = (r, u, g)"
    for ps row chromosome spawn
    by (rule sent_recorded_earlier [OF tick_run_sent [OF that assms(2)] c])
  show ?thesis
    using assms(1) sent_recorded_refl [OF assms(2)] run unfolding tick_load_def Let_def
    by (auto simp: s1 s2 s3 split: sum.splits if_splits)
qed

section \<open>Order identifiers\<close>

lemma show_int_inject: "show_int a = show_int b \<longleftrightarrow> a = b"
proof -
  have d: "show_nat n \<noteq> CHR ''-'' # xs" if "0 \<le> n" for n xs
    using show_nat_no_dash [OF that] by (metis list.set_intros(1))
  show ?thesis
    using show_nat_inject [of "- a" "- b"] show_nat_inject [of a b]
    by (cases "a < 0"; cases "b < 0") (auto simp: show_int_def d d [THEN not_sym])
qed

lemma order_id_inject:
  assumes "TcClientOrderID (intentToCommand inst i t) = TcClientOrderID (intentToCommand inst' i' t')"
    "CHR ''-'' \<notin> set (Engine i)" "CHR ''-'' \<notin> set (Engine i')"
  shows "SiID inst = SiID inst' \<and> Engine i = Engine i' \<and> t = t'"
proof -
  have e: "show_nat (int (SiID inst)) @ CHR ''-'' # (Engine i @ CHR ''-'' # show_int (sint t)) =
      show_nat (int (SiID inst')) @ CHR ''-'' # (Engine i' @ CHR ''-'' # show_int (sint t'))" using assms(1) by simp
  note s = split_dash [OF show_nat_no_dash show_nat_no_dash e]
  then have id: "SiID inst = SiID inst'" and r: "Engine i @ CHR ''-'' # show_int (sint t) = Engine i' @ CHR ''-'' # show_int (sint t')"
    using show_nat_inject [of "int (SiID inst)" "int (SiID inst')"] by auto
  from split_dash [OF assms(2,3) r] have "Engine i = Engine i'" "sint t = sint t'" by (auto simp: show_int_inject)
  then show ?thesis using id signed_word_eqI [of t t'] by blast
qed

section \<open>Printed numbers\<close>

text \<open>The value a reader of a decimal text recovers.\<close>

definition read_decimal :: "string \<Rightarrow> rat" where
  "read_decimal s = (let neg = (s \<noteq> [] \<and> hd s = CHR ''-''); ds = (if neg then tl s else s);
     whole = takeWhile (\<lambda>c. c \<noteq> CHR ''.'') ds; frac = drop (length whole + 1) ds
   in (if neg then - 1 else 1) * (of_int (read_nat whole) + of_int (read_nat frac) / 10 ^ length frac))"

lemma digit_not_dot: "0 \<le> d \<Longrightarrow> d < 10 \<Longrightarrow> digit d \<noteq> CHR ''.''"
  using digit_val_digit [of d] by (auto simp: digit_val_def)

lemma show_nat_chars: "0 \<le> n \<Longrightarrow> CHR ''.'' \<notin> set (show_nat n) \<and> show_nat n \<noteq> []"
proof (induction n rule: show_nat.induct)
  case (1 n)
  then show ?case by (cases "n < 10") (auto simp: show_nat.simps [of n] digit_not_dot [THEN not_sym])
qed

lemma read_nat_snoc: "read_nat (s @ [c]) = 10 * read_nat s + digit_val c"
  by (simp add: read_nat_def)

lemma fixed_digits_Suc: "fixed_digits (Suc p) n = fixed_digits p (n div 10) @ [digit (n mod 10)]"
proof -
  have "n div 10 ^ (p - i) = n div 10 div 10 ^ (p - 1 - i)" if "i < p" for i
  proof -
    have "(10::int) ^ (p - i) = 10 * 10 ^ (p - 1 - i)" using that by (simp flip: power_Suc add: Suc_diff_Suc)
    then show ?thesis by (simp add: zdiv_zmult2_eq)
  qed
  then show ?thesis by (auto simp: fixed_digits_def)
qed

lemma read_fixed_digits: "0 \<le> n \<Longrightarrow> n < 10 ^ p \<Longrightarrow> read_nat (fixed_digits p n) = n"
proof (induction p arbitrary: n)
  case 0
  then show ?case by (simp add: fixed_digits_def read_nat_def)
next
  case (Suc p)
  then have "read_nat (fixed_digits p (n div 10)) = n div 10" by (intro Suc.IH) (auto simp: div_less_iff_less_mult)
  then show ?case using Suc.prems by (simp add: fixed_digits_Suc read_nat_snoc digit_val_digit)
qed

lemma length_fixed_digits [simp]: "length (fixed_digits p n) = p"
  by (simp add: fixed_digits_def)

lemma read_FormatFloat:
  assumes "f_fin x" "0 < p"
  shows "read_decimal (FormatFloat x p) =
    (if f_sign x then - 1 else 1) * of_int (round_even (\<bar>f_val x\<bar> * 10 ^ p)) / 10 ^ p"
proof -
  define n where "n = round_even (\<bar>f_val x\<bar> * 10 ^ p)"
  have n: "0 \<le> n" unfolding n_def by (rule round_even_ge) simp
  let ?w = "show_nat (n div 10 ^ p)" and ?f = "fixed_digits p (n mod 10 ^ p)"
  have m: "0 \<le> n div 10 ^ p" using n by (simp add: pos_imp_zdiv_nonneg_iff)
  have w: "CHR ''.'' \<notin> set ?w" "?w \<noteq> []" "CHR ''-'' \<notin> set ?w" "read_nat ?w = n div 10 ^ p"
    using show_nat_chars [OF m] show_nat_no_dash [OF m] read_show_nat [OF m] by blast+
  have "n mod 10 ^ p < 10 ^ p" "0 \<le> n mod 10 ^ p" by simp_all
  then have f: "read_nat ?f = n mod 10 ^ p" by (intro read_fixed_digits)
  have printed: "FormatFloat x p = (if f_sign x then ''-'' else []) @ ?w @ CHR ''.'' # ?f"
    using assms f_fin_not [OF assms(1)] by (simp add: FormatFloat_def n_def Let_def)
  have hd: "hd ?w \<noteq> CHR ''-''" using w(2,3) by (metis list.set_sel(1))
  have tw: "takeWhile (\<lambda>c. c \<noteq> CHR ''.'') (?w @ CHR ''.'' # ?f) = ?w" using w(1) by (simp add: takeWhile_append)
  have v: "(of_int n :: rat) = of_int (n div 10 ^ p) * 10 ^ p + of_int (n mod 10 ^ p)"
    using arg_cong [OF div_mult_mod_eq [of n "10 ^ p", symmetric], of "of_int :: int \<Rightarrow> rat"]
    by (simp only: of_int_add of_int_mult of_int_power of_int_numeral)
  have "of_int (n div 10 ^ p) + of_int (n mod 10 ^ p) / 10 ^ p = (of_int n :: rat) / 10 ^ p"
    unfolding v by (simp add: add_divide_distrib)
  then show ?thesis
    unfolding printed n_def [symmetric] using w(2) hd by (simp add: read_decimal_def Let_def tw w(4) f)
qed

lemma FormatFloat_error:
  assumes "f_fin x" "0 < p"
  shows "\<bar>read_decimal (FormatFloat x p) - f_val x\<bar> \<le> 1 / 2 / 10 ^ p"
proof -
  let ?n = "round_even (\<bar>f_val x\<bar> * 10 ^ p)"
  have s: "(if f_sign x then - 1 else 1) * \<bar>f_val x\<bar> = f_val x"
    using mag_nonneg [of "f_bits x"] f_bits_range [of x] by (simp add: f_val_def)
  have "read_decimal (FormatFloat x p) - f_val x = read_decimal (FormatFloat x p) - (if f_sign x then - 1 else 1) * \<bar>f_val x\<bar>"
    by (simp only: s)
  also have "\<dots> = (if f_sign x then - 1 else 1) * ((of_int ?n - \<bar>f_val x\<bar> * 10 ^ p) / 10 ^ p)"
    unfolding read_FormatFloat [OF assms] by (simp add: field_simps)
  finally have "\<bar>read_decimal (FormatFloat x p) - f_val x\<bar> = \<bar>of_int ?n - \<bar>f_val x\<bar> * 10 ^ p\<bar> / 10 ^ p"
    by (simp add: abs_mult abs_divide)
  also have "\<dots> \<le> 1 / 2 / 10 ^ p" using round_even_err by (intro divide_right_mono) auto
  finally show ?thesis .
qed

end
