(* ===== verification/TickProps.thy ===== *)
theory TickProps
  imports TickLaws
begin

text \<open>
  The properties of a tick of a live instance, and the witnesses of the properties about the whole
  back end: a small environment with two candles, one connected agent and a strategy that buys.
\<close>

section \<open>Recorded before sent\<close>

lemma markError_execs: "tb_execs (w_db (markError k v)) = tb_execs (w_db v)"
  using set_status_tables(1) [OF markError_statement] .

lemma Tick_sent:
  assumes "Tick env inst (w, h) = (r, u, g)" "registry_ok h"
  shows "sent_recorded env inst (w_db w) h u g"
proof (cases "fetchLatestBars env (SiSymbol inst) (SiInterval inst) 300")
  case (Inl e)
  then show ?thesis using assms by (auto simp: Tick_def intro: sent_recorded_refl)
next
  case (Inr bars)
  obtain q v k where t: "tick_load env inst bars (w, h) = (q, v, k)" by (metis prod.exhaust)
  have m: "sent_recorded env inst (w_db w) h (markError (SiID inst) v) k" if "sent_recorded env inst (w_db w) h v k"
    using that by (simp add: sent_recorded_def recorded_def markError_execs)
  show ?thesis
    using assms m tick_load_sent [OF t assms(2)] sent_recorded_refl [OF assms(2)]
    by (auto simp: Tick_def Inr t split: if_splits option.splits)
qed

lemma saas_step_registry:
  assumes "saas_step henv (w, h) (u, g)" "registry_ok h"
  shows "registry_ok g"
  using assms(1)
proof cases
  case (tick env inst r)
  from Tick_sent [OF this assms(2)] show ?thesis by (simp add: sent_recorded_def)
next
  case hub
  from registry_step [OF this] show ?thesis using assms(2) by simp
qed (use assms(2) in simp_all)

lemma saas_registry:
  assumes "(saas_step henv)\<^sup>*\<^sup>* s t" "registry_ok (snd s)"
  shows "registry_ok (snd t)"
  using assms
proof (induction rule: rtranclp_induct)
  case (step u v)
  then show ?case using saas_step_registry [of henv "fst u" "snd u" "fst v" "snd v"] by simp
qed

text \<open>C10. No order leaves unrecorded. In every state the back end can reach from its start, a tick sends
  to the owner of its instance, and to nobody else, only commands whose execution row, pending,
  of that instance and with that order identifier, is already in the database and stays there, and
  never a release; statement failures and lost connections included. The identifiers sent are
  distinct and new: no row had one of them before the tick.\<close>

theorem commands_recorded:
  assumes "(saas_step henv)\<^sup>*\<^sup>* (w0, NewHub fails) (w, h)" "Tick env inst (w, h) = (r, u, g)"
  shows "\<exists>cmds. delivered_to g = (delivered_to h)(SiUserID inst := delivered_to h (SiUserID inst) @ map (im_envelope env) cmds) \<and>
    (\<forall>c \<in> set cmds. TcAction c \<noteq> ''RELEASE'' \<and> TcSymbol c = SiSymbol inst \<and>
      (\<exists>x \<in> set (tb_execs (w_db u)). SxClientOrderID x = TcClientOrderID c \<and> SxStatus x = ''pending'' \<and>
        SxInstanceID x = SiID inst)) \<and>
    distinct (map TcClientOrderID cmds) \<and> TcClientOrderID ` set cmds \<inter> SxClientOrderID ` set (tb_execs (w_db w)) = {}"
proof -
  have "registry_ok h" using saas_registry [OF assms(1)] by (simp add: registry_ok_def NewHub_def)
  from Tick_sent [OF assms(2) this, unfolded sent_recorded_def, THEN conjunct2] obtain cmds
    where "\<forall>c \<in> set cmds. recorded inst (w_db u) c" "distinct (map TcClientOrderID cmds)"
      "TcClientOrderID ` set cmds \<inter> SxClientOrderID ` set (tb_execs (w_db w)) = {}"
      "delivered_to g = (delivered_to h)(SiUserID inst := delivered_to h (SiUserID inst) @ map (im_envelope env) cmds)"
    by (elim exE conjE)
  then show ?thesis unfolding recorded_def conj_assoc by (intro exI [of _ cmds] conjI)
qed

section \<open>Order identifiers and printed quantities\<close>

text \<open>Order identifiers name one order: two commands with the same identifier come from the same
  instance, the same engine and the same millisecond; so the at most one order per engine of a step
  never collide with each other, nor with the orders of other instances or of ticks at other times.\<close>

theorem order_ids_unique:
  assumes "TcClientOrderID (intentToCommand inst i t) = TcClientOrderID (intentToCommand inst' i' t')"
    "Engine i \<in> {''MACRO'', ''MICRO''}" "Engine i' \<in> {''MACRO'', ''MICRO''}"
  shows "SiID inst = SiID inst' \<and> Engine i = Engine i' \<and> t = t'"
  by (rule order_id_inject [OF assms(1)]) (use assms(2,3) in auto)

text \<open>What is printed is what was decided: the amount of a buy, read back from the text of the
  command, differs from the intent by at most half a cent, and the quantity of a sell by at most
  half a unit of the eighth place. The other field stays empty, and so do both for any other action.\<close>

theorem printed_order:
  assumes "f_fin (AmountUSDT i)" "f_fin (QtyAsset i)"
  shows "(Action i = ''BUY'' \<longrightarrow> TcQtyAsset (intentToCommand inst i t) = [] \<and>
      \<bar>read_decimal (TcAmountUSDT (intentToCommand inst i t)) - f_val (AmountUSDT i)\<bar> \<le> 1 / 200) \<and>
    (Action i = ''SELL'' \<longrightarrow> TcAmountUSDT (intentToCommand inst i t) = [] \<and>
      \<bar>read_decimal (TcQtyAsset (intentToCommand inst i t)) - f_val (QtyAsset i)\<bar> \<le> 1 / 2 / 10 ^ 8) \<and>
    (Action i \<notin> {''BUY'', ''SELL''} \<longrightarrow>
      TcAmountUSDT (intentToCommand inst i t) = [] \<and> TcQtyAsset (intentToCommand inst i t) = [])"
  using FormatFloat_error [OF assms(1), of 2] FormatFloat_error [OF assms(2), of 8]
  by (auto simp: intentToCommand_def Let_def)

section \<open>Once per candle\<close>

text \<open>Ticks keep the keys of the portfolio rows.\<close>

definition keyed :: "nat \<Rightarrow> nat \<Rightarrow> db \<Rightarrow> bool" where
  "keyed i k d \<longleftrightarrow> (\<exists>p \<in> set (tb_portfolios d). SpID p = i \<and> SpInstanceID p = k)"

lemma tick_change_keyed:
  assumes "tick_change j d e" "ledger_ok d" "keyed i k d"
  shows "keyed i k e"
  using assms(1)
proof cases
  case (portfolio ps)
  then show ?thesis using assms(3) by (auto simp: keyed_def add_portfolio_def)
next
  case (runtime rs)
  then show ?thesis using assms(3) by (simp add: keyed_def)
next
  case (release ps qty a)
  have ps: "ps \<in> set (tb_portfolios d)" using find_mem [OF release(2)] by simp
  then have "tb_portfolios e = map (\<lambda>p. if p = ps then released qty ps else p) (tb_portfolios d)"
    using put_portfolio_set [OF assms(2) ps, of "released qty ps"] by (simp add: release(1) add_audit_def)
  moreover obtain p where p: "p \<in> set (tb_portfolios d)" "SpID p = i" "SpInstanceID p = k"
    using assms(3) unfolding keyed_def by blast
  ultimately show ?thesis
    unfolding keyed_def by (intro bexI [of _ "if p = ps then released qty ps else p"]) auto
next
  case (order x)
  then show ?thesis using assms(3) by (simp add: keyed_def add_exec_def)
next
  case (time n t)
  obtain p where p: "p \<in> set (tb_portfolios d)" "SpID p = i" "SpInstanceID p = k" using assms(3) unfolding keyed_def by blast
  with time show ?thesis
    unfolding keyed_def by (intro bexI [of _ "if SpID p = n then p\<lparr>LastProcessedBarTime := t\<rparr> else p"]) (auto simp: update_where_def)
qed

lemma tick_changes_keyed: "tick_changes j d e \<Longrightarrow> ledger_ok d \<Longrightarrow> keyed i k d \<Longrightarrow> keyed i k e"
proof (induction rule: rtranclp_induct)
  case (step e f)
  then show ?case using tick_change_keyed ledger_changes by blast
qed

text \<open>The portfolio of an instance has processed the candle at \<open>t\<close>.\<close>

definition processed :: "nat \<Rightarrow> go_time \<Rightarrow> db \<Rightarrow> bool" where
  "processed k t d \<longleftrightarrow> (\<exists>p \<in> set (tb_portfolios d). SpInstanceID p = k \<and> \<not> IsZero (LastProcessedBarTime p) \<and>
     t \<le> LastProcessedBarTime p)"

lemma loadOrCreatePortfolio_row:
  assumes "loadOrCreatePortfolio k w = (Inr ps, u)"
  shows "ps \<in> set (tb_portfolios (w_db u)) \<and> SpInstanceID ps = k"
proof -
  let ?ps = "\<lparr>SpID = 0, SpInstanceID = k, USDTBalance = 0, DeadBTC = 0, FloatBTC = 0,
    ColdSealedBTC = 0, TotalEquity = 0, LastProcessedBarTime = time_zero\<rparr>"
  obtain q v where q: "db_first tb_portfolios (\<lambda>p. SpInstanceID p = k) w = (q, v)" by fastforce
  show ?thesis
  proof (cases q)
    case (Inl e)
    then have "is_not_found e" using assms by (auto simp: loadOrCreatePortfolio_def q split: if_splits)
    then have "create_portfolio ?ps v = (Inr ps, u)"
      using assms by (auto simp: loadOrCreatePortfolio_def q Inl split: prod.splits sum.splits)
    then show ?thesis
      unfolding create_portfolio_def
    proof (cases rule: statement_cases)
      case (ok d y)
      then show ?thesis by (auto simp: add_portfolio_def split: if_splits)
    qed simp
  next
    case (Inr x)
    then have "x = ps" "u = v" using assms by (simp_all add: loadOrCreatePortfolio_def q)
    then show ?thesis using find_mem [of _ "tb_portfolios (w_db w)"] db_first_ok [OF q [unfolded Inr]] by auto
  qed
qed

lemma tick_run_processed:
  assumes "tick_run env inst bars ps row chromosome spawn (w, h) = (None, u, g)" "ledger_ok (w_db w)"
    "keyed (SpID ps) (SiID inst) (w_db w)"
    "\<not> IsZero (from_UnixMilli (OpenTime (bars ! (length bars - 2))))"
  shows "processed (SiID inst) (from_UnixMilli (OpenTime (bars ! (length bars - 2)))) (w_db u)"
proof -
  let ?out = "im_step env (tick_input env bars ps row chromosome spawn)"
  obtain q v where q: "upsertRuntime env (SiID inst) (OutRuntime ?out) row w = (q, v)" by fastforce
  obtain x k where x: "dispatch_loop env inst (Intents ?out) (release_loop env (SiID inst) (Intents ?out) v, h) = (x, k)" by fastforce
  let ?t = "from_UnixMilli (OpenTime (bars ! (length bars - 2)))"
  let ?f = "\<lambda>d. d\<lparr>tb_portfolios := update_where (\<lambda>p. SpID p = SpID ps) (\<lambda>p. p\<lparr>LastProcessedBarTime := ?t\<rparr>) (tb_portfolios d)\<rparr>"
  obtain e y where e: "db_exec ?f x = (e, y)" by fastforce
  have "tick_changes (SiID inst) (w_db w) (w_db x)"
    by (rule rtranclp_trans [OF upsertRuntime_changes [OF q] rtranclp_trans [OF release_loop_changes dispatch_loop_changes [OF x]]])
  then have "keyed (SpID ps) (SiID inst) (w_db x)" by (rule tick_changes_keyed [OF _ assms(2,3)])
  then obtain p where p: "p \<in> set (tb_portfolios (w_db x))" "SpID p = SpID ps" "SpInstanceID p = SiID inst"
    unfolding keyed_def by blast
  from assms(1) obtain z where z: "e = Inr z" "u = y"
    by (auto simp: tick_run_def Let_def q x e split: sum.splits)
  have "w_db u = ?f (w_db x)" using e db_exec_ok z by blast
  then have "p\<lparr>LastProcessedBarTime := ?t\<rparr> \<in> set (tb_portfolios (w_db u))"
    using p by (auto simp: update_where_def intro!: image_eqI [of _ _ p])
  then show ?thesis using p(3) assms(4) unfolding processed_def by (intro bexI) simp_all
qed

lemma tick_load_processed:
  assumes "tick_load env inst bars (w, h) = (None, u, g)" "ledger_ok (w_db w)"
    "\<not> IsZero (from_UnixMilli (OpenTime (bars ! (length bars - 2))))"
  shows "processed (SiID inst) (from_UnixMilli (OpenTime (bars ! (length bars - 2)))) (w_db u)"
proof -
  let ?t = "from_UnixMilli (OpenTime (bars ! (length bars - 2)))"
  obtain q1 w1 where s1: "loadOrCreatePortfolio (SiID inst) w = (q1, w1)" by fastforce
  from assms(1) obtain ps where ps: "q1 = Inr ps" by (auto simp: tick_load_def s1 Let_def split: sum.splits)
  note row = loadOrCreatePortfolio_row [OF s1 [unfolded ps]]
  show ?thesis
  proof (cases "\<not> IsZero (LastProcessedBarTime ps) \<and> \<not> After ?t (LastProcessedBarTime ps)")
    case True
    then have "u = w1" using assms(1) by (simp add: tick_load_def s1 ps Let_def)
    then show ?thesis using row True by (auto simp: processed_def After_def)
  next
    case False
    obtain q2 w2 where s2: "load_runtime (SiID inst) w1 = (q2, w2)" by fastforce
    from assms(1) False obtain rt where rt: "q2 = Inr rt" by (auto simp: tick_load_def s1 ps s2 Let_def split: sum.splits)
    obtain q3 w3 where s3: "loadChampionParams env inst w2 = (q3, w3)" by fastforce
    from assms(1) False obtain c sp where c: "q3 = Inr (c, sp)"
      by (auto simp: tick_load_def s1 ps s2 rt s3 Let_def split: sum.splits)
    have d: "w_db w3 = w_db w1" using load_runtime_db [OF s2] loadChampionParams_db [OF s3] by simp
    have "ledger_ok (w_db w3)" using ledger_changes [OF loadOrCreatePortfolio_changes [OF s1] assms(2)] d by simp
    moreover have "keyed (SpID ps) (SiID inst) (w_db w3)" using row d by (auto simp: keyed_def)
    moreover have "tick_run env inst bars ps rt c sp (w3, h) = (None, u, g)"
      using assms(1) False by (simp add: tick_load_def s1 ps s2 rt s3 c Let_def)
    ultimately show ?thesis by (intro tick_run_processed [OF _ _ _ assms(3)])
  qed
qed

text \<open>A portfolio that has processed the candle stops the tick before it does anything.\<close>

lemma tick_load_skips:
  assumes "processed (SiID inst) t (w_db w)" "ledger_ok (w_db w)"
    "from_UnixMilli (OpenTime (bars ! (length bars - 2))) \<le> t" "tick_load env inst bars (w, h) = (r, u, g)"
  shows "w_db u = w_db w \<and> g = h"
proof -
  from assms(1) obtain p where p: "p \<in> set (tb_portfolios (w_db w))" "SpInstanceID p = SiID inst"
    "\<not> IsZero (LastProcessedBarTime p)" "t \<le> LastProcessedBarTime p" unfolding processed_def by blast
  have found: "find (\<lambda>p. SpInstanceID p = SiID inst) (tb_portfolios (w_db w)) \<noteq> None"
    using p(1,2) by (auto simp: find_None_iff)
  obtain q v where q: "db_first tb_portfolios (\<lambda>p. SpInstanceID p = SiID inst) w = (q, v)" by fastforce
  show ?thesis
  proof (cases q)
    case (Inl e)
    have "\<not> is_not_found e" using db_first_not_found [OF q [unfolded Inl]] found by blast
    moreover have "w_db v = w_db w" using q [unfolded Inl] by (cases rule: db_first_cases) auto
    ultimately show ?thesis using assms(4) by (auto simp: tick_load_def loadOrCreatePortfolio_def q Inl Let_def)
  next
    case (Inr x)
    note f = db_first_ok [OF q [unfolded Inr]]
    then have "x \<in> set (tb_portfolios (w_db w))" "SpInstanceID x = SiID inst" using find_mem [OF conjunct1 [OF f]] by simp_all
    then have "x = p" using ledger_keys(4) [OF assms(2) _ p(1)] p(2) by simp
    then show ?thesis
      using assms(3,4) p(3,4) f by (auto simp: tick_load_def loadOrCreatePortfolio_def q Inr Let_def After_def)
  qed
qed

lemma markError_db: "w_db (markError k v) = (w_db v)\<lparr>tb_instances := tb_instances (w_db (markError k v))\<rparr>"
  using markError_statement [of k v] by (rule statement_cases) (auto simp: set_status_def)

text \<open>C12. A candle is traded once. After a tick that succeeded on some candle, the next tick of the
  same instance, whatever else it reads, sends nothing and changes no table, except that a failing
  statement may mark the instance, as long as the exchange still reports that candle, or an older
  one, as the latest completed. (The candle must not open at the zero time, which the row of a new
  instance holds.)\<close>

theorem tick_once_per_candle:
  assumes "ledger_ok (w_db w)" "Tick env inst (w, h) = (None, u, g)"
    "fetchLatestBars env (SiSymbol inst) (SiInterval inst) 300 = Inr bars" "2 \<le> length bars"
    "\<not> IsZero (from_UnixMilli (OpenTime (bars ! (length bars - 2))))"
    "SiID inst' = SiID inst" "fetchLatestBars env' (SiSymbol inst') (SiInterval inst') 300 = Inr bars'"
    "from_UnixMilli (OpenTime (bars' ! (length bars' - 2))) \<le> from_UnixMilli (OpenTime (bars ! (length bars - 2)))"
    "Tick env' inst' (u, g) = (r, v, k)"
  shows "w_db v = (w_db u)\<lparr>tb_instances := tb_instances (w_db v)\<rparr> \<and> k = g"
proof -
  have l: "tick_load env inst bars (w, h) = (None, u, g)"
    using assms(2,4) by (auto simp: Tick_def assms(3) split: prod.splits option.splits)
  have d: "ledger_ok (w_db u)" by (rule ledger_changes [OF tick_load_changes [OF l] assms(1)])
  note p = tick_load_processed [OF l assms(1,5), folded assms(6)]
  obtain r' v' k' where t: "tick_load env' inst' bars' (u, g) = (r', v', k')" by (metis prod.exhaust)
  note s = tick_load_skips [OF p d assms(8) t]
  have m: "w_db (markError i v') = (w_db v')\<lparr>tb_instances := tb_instances (w_db (markError i v'))\<rparr>" for i by (rule markError_db)
  show ?thesis
  proof (cases "length bars' < 2")
    case True
    then show ?thesis using assms(9) by (auto simp: Tick_def assms(7))
  next
    case False
    show ?thesis
    proof (cases r')
      case None
      then have "v = v'" "k = k'" using assms(9) False by (simp_all add: Tick_def assms(7) t)
      then show ?thesis using s by simp
    next
      case (Some e)
      then have "v = markError (SiID inst') v'" "k = k'" using assms(9) False by (simp_all add: Tick_def assms(7) t)
      then show ?thesis using s m [of "SiID inst'"] by simp
    qed
  qed
qed

section \<open>Releases\<close>


section \<open>The strategy on live inputs\<close>

lemma spendable_bounds:
  fixes t r :: f64
  assumes "f_fin t" "f_fin r" "0 \<le> f_val r"
  shows "f_fin (clamp_zero (t - r))" "f_val (clamp_zero (t - r)) \<le> max 0 (f_val t)"
proof -
  have v: "f_val (t - r) = R (f_val t - f_val r)" "\<not> f_nan (t - r)" using assms by (simp_all add: f_val_sub f_nan_sub)
  have u: "f_val (t - r) \<le> f_val t" unfolding v using assms f_fin_not(1) [OF assms(1)] by (intro R_le_val) auto
  have "f_fin (t - r)" if "\<not> t - r < 0"
    by (rule f_fin_between [of _ 0 t]) (use that u v assms in \<open>auto simp: f_less_val\<close>)
  then show "f_fin (clamp_zero (t - r))" "f_val (clamp_zero (t - r)) \<le> max 0 (f_val t)"
    using u by (auto simp: clamp_zero_def)
qed


section \<open>Witnesses\<close>

definition demo_hub :: hub_env where
  "demo_hub = \<lparr>he_auth = \<lambda>_. Some \<lparr>AmType = ''auth'', AmToken = ''t''\<rparr>, he_token = \<lambda>_. Some 9,
     he_msg = \<lambda>_. Some \<lparr>ImType = ''delta_report'', ImPayload = []\<rparr>, he_report = \<lambda>_. Some demo_report,
     he_json = \<lambda>_. ''{}'', he_codec = demo_codec\<rparr>"

definition demo_env :: im_env where
  "demo_env = \<lparr>im_http = \<lambda>_. Some ''x'', im_candles = \<lambda>_. Some \<lparr>BcCode = ''00000'', BcMsg = [],
       BcData = [[''1000'', ''1'', ''1'', ''1'', ''1''], [''2000'', ''1'', ''1'', ''1'', ''1'']]\<rparr>,
     im_float = \<lambda>_. 1, im_sort = \<lambda>bs. bs, im_redis = \<lambda>_. None, im_gene = \<lambda>_. None, im_rt_marshal = \<lambda>_. Some ''r'',
     im_rt_unmarshal = \<lambda>_. Some (StRuntime step_example), im_cmd = \<lambda>_. Some ''c'', im_envelope = TcClientOrderID,
     im_audit = \<lambda>_. ''{}'', im_json = bits_json,
     im_step = \<lambda>_. \<lparr>Intents = [\<lparr>Action = ''BUY'', Engine = ''MACRO'', LotType = ''DEAD_STACK'', AmountUSDT = lit 20 1, QtyAsset = 0\<rparr>],
       OutRuntime = zero_runtime\<rparr>, im_now = 5\<rparr>"

definition demo_inst :: StrategyInstance where
  "demo_inst = hd (tb_instances demo_db)"

definition demo_bars :: "Bar list" where
  "demo_bars = map (\<lambda>t. \<lparr>OpenTime = t, Open = 1, High = 1, Low = 1, Close = 1, Volume = 0\<rparr>) [1000, 2000]"

definition online :: Hub where
  "online = handshake demo_hub (Some ''x'') (NewHub (\<lambda>_. False))"

abbreviation ticked :: "go_error option \<times> world \<times> Hub" where
  "ticked \<equiv> Tick demo_env demo_inst (demo_world, online)"

abbreviation ticked_again :: "go_error option \<times> world \<times> Hub" where
  "ticked_again \<equiv> Tick demo_env demo_inst (snd ticked)"

lemma demo_online: "saas_step demo_hub (w, NewHub (\<lambda>_. False)) (w, online)"
  unfolding online_def by (rule saas_step.hub, rule hub_step.connect)

lemma demo_fetch: "fetchLatestBars demo_env (SiSymbol demo_inst) (SiInterval demo_inst) 300 = Inr demo_bars"
  by code_simp

lemma demo_ticked: "fst ticked = None" and demo_delivered: "delivered_to (snd (snd ticked)) 9 = [''{}'', ''inst4-MACRO-5'']"
  and demo_online_delivered: "delivered_to online 9 = [''{}'']"
  by (code_simp, code_simp, code_simp)

lemma demo_tick: "Tick demo_env demo_inst (demo_world, online) = (None, fst (snd ticked), snd (snd ticked))"
  using demo_ticked by (metis prod.collapse)

theorem commands_recorded_witness:
  "\<exists>x \<in> set (tb_execs (w_db (fst (snd ticked)))). SxClientOrderID x = ''inst4-MACRO-5'' \<and> SxStatus x = ''pending'' \<and> SxInstanceID x = 4"
proof -
  have "(saas_step demo_hub)\<^sup>*\<^sup>* (demo_world, NewHub (\<lambda>_. False)) (demo_world, online)"
    using demo_online by (rule r_into_rtranclp)
  from commands_recorded [OF this demo_tick] obtain cmds where c:
    "delivered_to (snd (snd ticked)) = (delivered_to online)(SiUserID demo_inst := delivered_to online (SiUserID demo_inst) @ map (im_envelope demo_env) cmds)"
    "\<forall>c \<in> set cmds. TcAction c \<noteq> ''RELEASE'' \<and> TcSymbol c = SiSymbol demo_inst \<and>
      (\<exists>x \<in> set (tb_execs (w_db (fst (snd ticked)))). SxClientOrderID x = TcClientOrderID c \<and> SxStatus x = ''pending'' \<and>
        SxInstanceID x = SiID demo_inst)" by blast
  have i: "SiUserID demo_inst = 9" "SiID demo_inst = 4" by (simp_all add: demo_inst_def demo_db_def)
  have "map TcClientOrderID cmds = [''inst4-MACRO-5'']"
    using fun_cong [OF c(1), of 9] demo_delivered demo_online_delivered by (simp add: i demo_env_def)
  then obtain k where "cmds = [k]" "TcClientOrderID k = ''inst4-MACRO-5''" by auto
  then show ?thesis using c(2) by (simp add: i)
qed

theorem order_ids_unique_witness:
  "TcClientOrderID (intentToCommand demo_inst (macro_buy 1) 5) \<noteq> TcClientOrderID (intentToCommand demo_inst (macro_buy 1) 6)"
proof
  assume e: "TcClientOrderID (intentToCommand demo_inst (macro_buy 1) 5) = TcClientOrderID (intentToCommand demo_inst (macro_buy 1) 6)"
  have "Engine (macro_buy 1) \<in> {''MACRO'', ''MICRO''}" by (simp add: macro_buy_def)
  from order_ids_unique [OF e this this] show False by simp
qed

theorem printed_order_witness:
  "\<bar>read_decimal (TcAmountUSDT (intentToCommand demo_inst (macro_buy (lit 20 1)) 5)) - 20\<bar> \<le> 1 / 200"
proof -
  have "f_fin (AmountUSDT (macro_buy (lit 20 1)))" "f_fin (QtyAsset (macro_buy (lit 20 1)))" "f_val (lit 20 1) = 20"
    using lit_int [of 20] by (simp_all add: macro_buy_def)
  then show ?thesis using printed_order [of "macro_buy (lit 20 1)" demo_inst 5] by (simp add: macro_buy_def)
qed

theorem tick_once_per_candle_witness:
  "tb_execs (w_db (fst (snd ticked_again))) = tb_execs (w_db (fst (snd ticked))) \<and>
   delivered_to (snd (snd ticked_again)) 9 = [''{}'', ''inst4-MACRO-5'']"
proof -
  have n: "\<not> IsZero (from_UnixMilli (OpenTime (demo_bars ! (length demo_bars - 2))))" by code_simp
  have "Tick demo_env demo_inst (fst (snd ticked), snd (snd ticked)) = (fst ticked_again, fst (snd ticked_again), snd (snd ticked_again))"
    by simp
  from tick_once_per_candle [OF _ demo_tick demo_fetch _ n refl demo_fetch order.refl this]
  have t: "w_db (fst (snd ticked_again)) = (w_db (fst (snd ticked)))\<lparr>tb_instances := tb_instances (w_db (fst (snd ticked_again)))\<rparr>
      \<and> snd (snd ticked_again) = snd (snd ticked)"
    using demo_ledger by (simp add: demo_world_def demo_bars_def)
  then have "tb_execs (w_db (fst (snd ticked_again))) = tb_execs ((w_db (fst (snd ticked)))\<lparr>tb_instances := tb_instances (w_db (fst (snd ticked_again)))\<rparr>)"
    by (rule arg_cong [OF conjunct1])
  then show ?thesis using conjunct2 [OF t] demo_delivered by simp
qed

text \<open>The report of the demonstration puts one coin into the dead stack; two are released.\<close>

abbreviation release_two :: TradeIntent where
  "release_two \<equiv> \<lparr>Action = ''RELEASE'', Engine = ''MACRO'', LotType = ''DEAD_STACK'', AmountUSDT = 0, QtyAsset = 1 + 1\<rparr>"


text \<open>The live run of the demonstration: 24 candles at 80 after an average of 100.\<close>

definition live_env :: im_env where
  "live_env = demo_env\<lparr>im_step := Step step_libm\<rparr>"

definition live_bars :: "Bar list" where
  "live_bars = replicate 24 \<lparr>OpenTime = 1700000000000, Open = lit 80 1, High = lit 82 1, Low = lit 78 1, Close = lit 80 1, Volume = 0\<rparr>"

definition live_row :: StorePortfolio where
  "live_row = \<lparr>SpID = 1, SpInstanceID = 4, USDTBalance = lit 1000 1, DeadBTC = 0, FloatBTC = 0, ColdSealedBTC = 0,
     TotalEquity = 0, LastProcessedBarTime = time_zero\<rparr>"

abbreviation live_out :: StrategyOutput where
  "live_out \<equiv> im_step live_env (tick_input live_env live_bars live_row (Some \<lparr>SrID = 1, SrInstanceID = 4, SrPayload = ''r''\<rparr>)
     DefaultSeedChromosome zero_spawn)"


text \<open>A deleted instance, started again in vain.\<close>

abbreviation deleted :: world where "deleted \<equiv> snd (Delete 4 demo_world)"
abbreviation restarted :: world where "restarted \<equiv> snd (Start 4 deleted)"

theorem lifecycle_refines_witness: "map SiStatus (tb_instances (w_db restarted)) = [''DELETED'']"
proof -
  have "saas_step demo_hub (deleted, online) (restarted, online)"
    by (rule saas_step.start [OF surjective_pairing])
  then have "(saas_step demo_hub)\<^sup>*\<^sup>* (deleted, online) (restarted, online)" by (rule r_into_rtranclp)
  from lifecycle_refines [OF this, unfolded fst_conv] have l: "list_all2 (\<lambda>i j. SiStatus i = ''DELETED'' \<longrightarrow> SiStatus j = ''DELETED'')
      (tb_instances (w_db deleted)) (tb_instances (w_db restarted))"
    by (rule list_all2_mono) (elim conjE, assumption)
  have "map SiStatus (tb_instances (w_db deleted)) = [''DELETED'']" by code_simp
  then obtain i where "tb_instances (w_db deleted) = [i]" "SiStatus i = ''DELETED''" by auto
  with l show ?thesis by (auto simp: list_all2_Cons1)
qed

text \<open>A report arrives at the hub and settles the pending order.\<close>

theorem ledger_invariant_witness:
  "ledger_ok (w_db once) \<and> length (tb_trades (w_db once)) = length (filter (\<lambda>x. SxStatus x = ''filled'') (tb_execs (w_db once)))"
proof -
  have c: "length (hb_all online) = 1" "ac_serving (hb_all online ! 0)" "ac_open (hb_all online ! 0)" "ac_userID (hb_all online ! 0) = 9"
    by (code_simp, code_simp, code_simp, code_simp)
  have m: "on_message demo_hub 0 ''x'' (online, demo_world) =
      (reply demo_hub 0 \<lparr>EvType = ''report_ack'', EvPayload = None\<rparr> online, once)"
    using c(4) by (simp add: on_message_def demo_hub_def Let_def)
  have "hub_step demo_hub (online, demo_world) (on_message demo_hub 0 ''x'' (online, demo_world))"
    by (rule hub_step.receive) (use c in simp_all)
  then have "saas_step demo_hub (demo_world, online) (once, reply demo_hub 0 \<lparr>EvType = ''report_ack'', EvPayload = None\<rparr> online)"
    unfolding m by (rule saas_step.hub)
  from ledger_invariant [OF r_into_rtranclp, of demo_hub, OF this] show ?thesis
    using demo_ledger by (simp add: demo_world_def)
qed

end
