(* ===== verification/EvolutionAPI.thy ===== *)
theory EvolutionAPI
  imports EpochService TickProps
begin

text \<open>
  \<open>internal/saas/api/handler_evolution.go\<close> and the three operations of \<open>internal/saas/store/redis.go\<close>:
  creating and listing evolution tasks, promoting a challenger, reading the champion through the
  cache. The Redis server is a map whose operations may fail; an entry may expire at any time. The
  binding of request bodies and the JSON codecs are parameters.
\<close>

section \<open>Redis\<close>

record RedisClient =
  rc_data :: "string \<rightharpoonup> string"
  rc_fails :: "nat \<Rightarrow> bool"
  rc_ops :: nat

text \<open>A missing key is an error to the client.\<close>

definition Get :: "string \<Rightarrow> RedisClient \<Rightarrow> string option \<times> RedisClient" where
  "Get key r = (if rc_fails r (rc_ops r) then None else rc_data r key, r\<lparr>rc_ops := rc_ops r + 1\<rparr>)"

definition Set :: "string \<Rightarrow> string \<Rightarrow> RedisClient \<Rightarrow> bool \<times> RedisClient" where
  "Set key value r = (let s = r\<lparr>rc_ops := rc_ops r + 1\<rparr> in
     if rc_fails r (rc_ops r) then (False, s) else (True, s\<lparr>rc_data := (rc_data r)(key \<mapsto> value)\<rparr>))"

definition Del :: "string \<Rightarrow> RedisClient \<Rightarrow> bool \<times> RedisClient" where
  "Del key r = (let s = r\<lparr>rc_ops := rc_ops r + 1\<rparr> in
     if rc_fails r (rc_ops r) then (False, s) else (True, s\<lparr>rc_data := (rc_data r)(key := None)\<rparr>))"

definition expire :: "string \<Rightarrow> RedisClient \<Rightarrow> RedisClient" where
  "expire key r = r\<lparr>rc_data := (rc_data r)(key := None)\<rparr>"

text \<open>What the handlers rely on: a hit returns what is stored, a successful write or delete has its
  effect on its key alone, and whatever happens no other key changes.\<close>

locale cache =
  fixes get :: "string \<Rightarrow> 'r \<Rightarrow> string option \<times> 'r" and put :: "string \<Rightarrow> string \<Rightarrow> 'r \<Rightarrow> bool \<times> 'r"
    and del :: "string \<Rightarrow> 'r \<Rightarrow> bool \<times> 'r" and stored :: "'r \<Rightarrow> string \<Rightarrow> string option"
  assumes get_stored: "fst (get k r) = Some v \<Longrightarrow> stored r k = Some v"
    and get_keeps: "stored (snd (get k r)) = stored r"
    and put_stored: "stored (snd (put k v r)) k = (if fst (put k v r) then Some v else stored r k)"
    and del_stored: "fst (del k r) \<Longrightarrow> stored (snd (del k r)) k = None"
    and put_other: "j \<noteq> k \<Longrightarrow> stored (snd (put k v r)) j = stored r j"
    and del_other: "j \<noteq> k \<Longrightarrow> stored (snd (del k r)) j = stored r j"

text \<open>Every entry under a key of \<open>K\<close> that decodes holds what \<open>current\<close> says.\<close>

definition coherent :: "(string \<Rightarrow> 'g option) \<Rightarrow> (nat \<Rightarrow> string) \<Rightarrow> (nat \<Rightarrow> 'g option) \<Rightarrow> (string \<Rightarrow> string option) \<Rightarrow> bool" where
  "coherent decode key current entries \<longleftrightarrow>
     (\<forall>k v g. entries (key k) = Some v \<longrightarrow> decode v = Some g \<longrightarrow> current k = Some g)"

context cache
begin

lemma get_coherent: "coherent decode key current (stored r) \<Longrightarrow> coherent decode key current (stored (snd (get k r)))"
  by (simp add: get_keeps)

lemma hit_current:
  "coherent decode key current (stored r) \<Longrightarrow> fst (get (key k) r) = Some v \<Longrightarrow> decode v = Some g \<Longrightarrow> current k = Some g"
  using get_stored unfolding coherent_def by blast

lemma put_coherent:
  assumes "coherent decode key current (stored r)" "inj key" "decode v = Some g" "current k = Some g"
  shows "coherent decode key current (stored (snd (put (key k) v r)))"
  unfolding coherent_def
proof (intro allI impI)
  fix j u h
  assume u: "stored (snd (put (key k) v r)) (key j) = Some u" "decode u = Some h"
  show "current j = Some h"
  proof (cases "key j = key k")
    case True
    then have j: "j = k" using assms(2) by (simp add: inj_eq)
    show ?thesis using u assms put_stored [of "key k" v r] by (cases "fst (put (key k) v r)") (auto simp: j coherent_def)
  next
    case False
    then show ?thesis using u assms(1) put_other [of "key j" "key k"] by (simp add: coherent_def)
  qed
qed

lemma del_coherent:
  assumes "coherent decode key current (stored r)" "fst (del (key k) r)" "\<And>j. j \<noteq> k \<Longrightarrow> current' j = current j"
  shows "coherent decode key current' (stored (snd (del (key k) r)))"
  unfolding coherent_def
proof (intro allI impI)
  fix j u h
  assume u: "stored (snd (del (key k) r)) (key j) = Some u" "decode u = Some h"
  have n: "key j \<noteq> key k" using u(1) del_stored [OF assms(2)] by auto
  then have "j \<noteq> k" by auto
  then show "current' j = Some h" using u assms(1,3) del_other [OF n] by (simp add: coherent_def)
qed

end

interpretation redis: cache Get Set Del rc_data
  by unfold_locales (auto simp: Get_def Set_def Del_def Let_def split: if_splits)

lemma champion_key_inj: "inj champion_key"
  using show_nat_inject by (auto simp: inj_def champion_key_def)

section \<open>Responses\<close>

record challengerItem =
  ciID :: nat
  ciCreatedAt :: go_time
  ciScoreTotal :: f64
  ciMaxDrawdown :: f64
  ciWindowScores :: "(string \<times> f64) list"

datatype body =
    ErrorBody string
  | TaskBody EvolutionTask
  | TasksBody "challengerItem list" "(bool \<times> int \<times> f64 \<times> string) option"
  | PromotedBody nat
  | ChampionBody GeneRecord

type_synonym response = "nat \<times> body"

record api_env =
  ae_bind :: "string \<Rightarrow> string + CreateTaskRequest"
  ae_service :: service_env
  ae_scores :: "string \<Rightarrow> (string \<times> f64) list"
  ae_gene :: "string \<Rightarrow> GeneRecord option"
  ae_gene_json :: "GeneRecord \<Rightarrow> string option"

text \<open>\<open>strconv.ParseUint\<close> in base 10 with 64 bits; \<open>None\<close> is any of its errors.\<close>

definition ParseUint :: "string \<Rightarrow> nat option" where
  "ParseUint s = (if s = [] \<or> \<not> list_all (\<lambda>c. c \<in> set ''0123456789'') s then None
     else let n = read_nat s in if 2 ^ 64 \<le> n then None else Some (nat n))"

section \<open>Tasks\<close>

text \<open>\<open>err.Error()[:7]\<close> panics on a shorter message: \<open>None\<close>.\<close>

definition isConflict :: "go_error \<Rightarrow> bool option" where
  "isConflict err = (if Error err = [] then Some False
     else if length (Error err) < 7 then None else Some (take 7 (Error err) = ''another''))"

text \<open>No error of the service is a deadline. A panic ends the handler.\<close>

definition CreateTask :: "api_env \<Rightarrow> string \<Rightarrow> EpochService \<times> world \<Rightarrow> response option \<times> EpochService \<times> world" where
  "CreateTask env raw s = (case ae_bind env raw of
     Inl msg \<Rightarrow> (Some (400, ErrorBody (''invalid request body: '' @ msg)), s)
   | Inr req \<Rightarrow> (case CreateAndRunTask (ae_service env) req s of
       (Inl e, s) \<Rightarrow> (case isConflict e of
           None \<Rightarrow> (None, s)
         | Some conflict \<Rightarrow> (Some (if conflict then 409 else 500, ErrorBody (Error e)), s))
     | (Inr task, s) \<Rightarrow> (Some (201, TaskBody task), s)))"

text \<open>\<open>created_at desc\<close>: newest first.\<close>

definition by_age :: "GeneRecord list \<Rightarrow> GeneRecord list" where
  "by_age gs = rev (sort_key GrCreatedAt (rev gs))"

definition challenger_item :: "api_env \<Rightarrow> GeneRecord \<Rightarrow> challengerItem" where
  "challenger_item env ch = \<lparr>ciID = GrID ch, ciCreatedAt = GrCreatedAt ch, ciScoreTotal = GrScoreTotal ch,
     ciMaxDrawdown = GrMaxDrawdown ch, ciWindowScores = ae_scores env (GrWindowScores ch)\<rparr>"

definition ListTasks :: "api_env \<Rightarrow> EpochService \<times> world \<Rightarrow> response \<times> world" where
  "ListTasks env = (\<lambda>(svc, w). let current = GetCurrentTask svc in
     case db_query (\<lambda>d. by_age (filter (\<lambda>g. GrRole g = ''challenger'') (tb_genes d))) w of (r, w) \<Rightarrow>
       let challengers = (case r of Inl e \<Rightarrow> [] | Inr gs \<Rightarrow> gs) in
       ((200, TasksBody (map (challenger_item env) challengers) (map_option (\<lambda>t. (EtStatus t = ''running'',
           EtCurrentGeneration t, EtBestScore t, EtStatus t)) current)), w))"

section \<open>Champions\<close>

definition set_role :: "(GeneRecord \<Rightarrow> bool) \<Rightarrow> string \<Rightarrow> db \<Rightarrow> db" where
  "set_role P role d = d\<lparr>tb_genes := update_where P (\<lambda>g. g\<lparr>GrRole := role\<rparr>) (tb_genes d)\<rparr>"

definition promote_body :: "GeneRecord \<Rightarrow> world \<Rightarrow> (go_error + unit) \<times> world" where
  "promote_body challenger w =
     (case db_exec (set_role (\<lambda>g. GrStrategyID g = GrStrategyID challenger \<and> GrRole g = ''champion'') ''retired'') w of
       (Inl e, w) \<Rightarrow> (Inl (Wrapf ''retire champion'' e), w)
     | (Inr _, w) \<Rightarrow> (case db_exec (set_role (\<lambda>g. GrID g = GrID challenger) ''champion'') w of
         (Inl e, w) \<Rightarrow> (Inl (Wrapf ''promote challenger'' e), w)
       | (Inr _, w) \<Rightarrow> (Inr (), w)))"

definition PromoteChallenger :: "string \<Rightarrow> world \<times> RedisClient \<Rightarrow> response \<times> world \<times> RedisClient" where
  "PromoteChallenger taskIDStr = (\<lambda>(w, redis). case ParseUint taskIDStr of
     None \<Rightarrow> ((400, ErrorBody ''invalid taskID''), w, redis)
   | Some taskID \<Rightarrow> (case db_first tb_genes (\<lambda>g. GrTaskID g = taskID \<and> GrRole g = ''challenger'') w of
       (Inl e, w) \<Rightarrow> (if is_not_found e then (404, ErrorBody (''no challenger found for task '' @ show_nat (int taskID)))
           else (500, ErrorBody (Error e)), w, redis)
     | (Inr challenger, w) \<Rightarrow> (case transaction (promote_body challenger) w of
         (Inl e, w) \<Rightarrow> ((500, ErrorBody (Error e)), w, redis)
       | (Inr _, w) \<Rightarrow> ((200, PromotedBody (GrID challenger)), w,
           snd (Del (champion_key (GrStrategyID challenger)) redis)))))"

definition champion_hit :: "api_env \<Rightarrow> string option \<Rightarrow> GeneRecord option" where
  "champion_hit env raw = (case raw of None \<Rightarrow> None | Some s \<Rightarrow> if s = [] then None else ae_gene env s)"

definition GetChampion :: "api_env \<Rightarrow> string \<Rightarrow> world \<times> RedisClient \<Rightarrow> response \<times> world \<times> RedisClient" where
  "GetChampion env strategyIDStr = (\<lambda>(w, redis). case ParseUint strategyIDStr of
     None \<Rightarrow> ((400, ErrorBody ''strategy_id query param required''), w, redis)
   | Some strategyID \<Rightarrow>
       if strategyID = 0 then ((400, ErrorBody ''strategy_id query param required''), w, redis)
       else (case Get (champion_key strategyID) redis of (raw, redis) \<Rightarrow>
         (case champion_hit env raw of
            Some champion \<Rightarrow> ((200, ChampionBody champion), w, redis)
          | None \<Rightarrow> (case champion_row strategyID w of
              (Inl e, w) \<Rightarrow> (if is_not_found e then (404, ErrorBody ''no champion found'') else (500, ErrorBody (Error e)), w, redis)
            | (Inr champion, w) \<Rightarrow> ((200, ChampionBody champion), w,
                (case ae_gene_json env champion of None \<Rightarrow> redis
                 | Some data \<Rightarrow> snd (Set (champion_key strategyID) data redis)))))))"

section \<open>The champion of a strategy\<close>

definition champion_of :: "db \<Rightarrow> nat \<Rightarrow> GeneRecord option" where
  "champion_of d k = newest (filter (\<lambda>g. GrStrategyID g = k \<and> GrRole g = ''champion'') (tb_genes d))"

definition genes_ok :: "db \<Rightarrow> bool" where
  "genes_ok d \<longleftrightarrow> distinct (map GrID (tb_genes d))"

abbreviation fresh_cache :: "api_env \<Rightarrow> db \<Rightarrow> RedisClient \<Rightarrow> bool" where
  "fresh_cache env d r \<equiv> coherent (\<lambda>s. champion_hit env (Some s)) champion_key (champion_of d) (rc_data r)"

lemma champion_row_cases:
  assumes "champion_row k w = (r, u)"
  obtains (found) g where "r = Inr g" "champion_of (w_db w) k = Some g" "w_db u = w_db w"
  | (missing) "r = Inl ErrRecordNotFound" "champion_of (w_db w) k = None" "w_db u = w_db w"
  | (lost) e where "r = Inl e" "\<not> is_not_found e" "w_db u = w_db w"
proof -
  let ?f = "\<lambda>d. newest (filter (\<lambda>g. GrStrategyID g = k \<and> GrRole g = ''champion'') (tb_genes d))"
  obtain q v where q: "db_query ?f w = (q, v)" by fastforce
  have u: "w_db u = w_db w" by (rule champion_row_db [OF assms])
  show ?thesis
  proof (cases q)
    case (Inl e)
    then have "\<not> is_not_found e" using q by (auto simp: db_query_def statement_def Let_def split: if_splits)
    moreover have "r = Inl e" using assms by (simp add: champion_row_def q Inl)
    ultimately show ?thesis using lost u by blast
  next
    case (Inr x)
    have x: "champion_of (w_db w) k = x" using db_query_ok [OF q [unfolded Inr]] by (simp add: champion_of_def)
    show ?thesis
    proof (cases x)
      case None
      then have "r = Inl ErrRecordNotFound" using assms by (simp add: champion_row_def q Inr)
      then show ?thesis using x [unfolded None] u by (rule missing)
    next
      case (Some g)
      then have "r = Inr g" using assms by (simp add: champion_row_def q Inr)
      then show ?thesis using x [unfolded Some] u by (rule found)
    qed
  qed
qed

text \<open>What a promotion does to the rows.\<close>

definition promoted :: "GeneRecord \<Rightarrow> GeneRecord \<Rightarrow> GeneRecord" where
  "promoted ch g = (if g = ch then g\<lparr>GrRole := ''champion''\<rparr>
     else if GrStrategyID g = GrStrategyID ch \<and> GrRole g = ''champion'' then g\<lparr>GrRole := ''retired''\<rparr> else g)"

lemma promote_body_ok:
  assumes "promote_body ch w = (Inr x, u)" "genes_ok (w_db w)" "ch \<in> set (tb_genes (w_db w))" "GrRole ch = ''challenger''"
  shows "w_db u = (w_db w)\<lparr>tb_genes := map (promoted ch) (tb_genes (w_db w))\<rparr>"
proof -
  let ?P = "\<lambda>g. GrStrategyID g = GrStrategyID ch \<and> GrRole g = ''champion''"
  obtain q v where q: "db_exec (set_role ?P ''retired'') w = (q, v)" by fastforce
  obtain r y where r: "db_exec (set_role (\<lambda>g. GrID g = GrID ch) ''champion'') v = (r, y)" by fastforce
  obtain a b where ok: "q = Inr a" "r = Inr b" "u = y" using assms(1) by (auto simp: promote_body_def q r split: sum.splits)
  have d: "w_db u = set_role (\<lambda>g. GrID g = GrID ch) ''champion'' (set_role ?P ''retired'' (w_db w))"
    using db_exec_ok [OF q [unfolded ok]] db_exec_ok [OF r [unfolded ok]] ok(3) by simp
  have "GrID g = GrID ch \<longleftrightarrow> g = ch" if "g \<in> set (tb_genes (w_db w))" for g
    using assms(2,3) that by (auto simp: genes_ok_def distinct_map inj_on_eq_iff)
  then have "(\<lambda>g. if GrID g = GrID ch then g\<lparr>GrRole := ''champion''\<rparr> else g) (if ?P g then g\<lparr>GrRole := ''retired''\<rparr> else g) =
      promoted ch g" if "g \<in> set (tb_genes (w_db w))" for g
    using that assms(4) by (auto simp: promoted_def)
  then show ?thesis by (simp add: d set_role_def update_where_def)
qed

lemma promoted_champions:
  assumes "distinct (map GrID gs)" "ch \<in> set gs" "GrRole ch = ''challenger''"
  shows "filter (\<lambda>g. GrStrategyID g = GrStrategyID ch \<and> GrRole g = ''champion'') (map (promoted ch) gs) =
    [ch\<lparr>GrRole := ''champion''\<rparr>]"
  using assms
proof (induction gs)
  case Nil
  then show ?case by simp
next
  case (Cons g gs)
  have none: "filter (\<lambda>g. GrStrategyID g = GrStrategyID ch \<and> GrRole g = ''champion'') (map (promoted ch) gs) = []" if "ch \<notin> set gs"
    using that by (auto simp: filter_empty_conv promoted_def)
  show ?case
  proof (cases "g = ch")
    case True
    then have "ch \<notin> set gs" using Cons.prems(1) by auto
    moreover have "promoted ch ch = ch\<lparr>GrRole := ''champion''\<rparr>" by (simp add: promoted_def)
    ultimately show ?thesis using none True by simp
  next
    case False
    then have "\<not> (GrStrategyID (promoted ch g) = GrStrategyID ch \<and> GrRole (promoted ch g) = ''champion'')"
      by (simp add: promoted_def)
    then show ?thesis using Cons False by simp
  qed
qed

lemma promoted_others: "k \<noteq> GrStrategyID ch \<Longrightarrow>
    filter (\<lambda>g. GrStrategyID g = k \<and> GrRole g = ''champion'') (map (promoted ch) gs) =
    filter (\<lambda>g. GrStrategyID g = k \<and> GrRole g = ''champion'') gs"
  by (induction gs) (auto simp: promoted_def)

lemma PromoteChallenger_cases:
  assumes "PromoteChallenger idStr (w, redis) = ((code, b), u, redis')" "genes_ok (w_db w)"
  obtains (refused) "code \<in> {400, 404, 500}" "w_db u = w_db w" "redis' = redis"
  | (done_) ch where "code = 200" "b = PromotedBody (GrID ch)" "ch \<in> set (tb_genes (w_db w))" "GrRole ch = ''challenger''"
      "map_option int (ParseUint idStr) = Some (int (GrTaskID ch))"
      "w_db u = (w_db w)\<lparr>tb_genes := map (promoted ch) (tb_genes (w_db w))\<rparr>"
      "redis' = snd (Del (champion_key (GrStrategyID ch)) redis)"
proof (cases "ParseUint idStr")
  case None
  then show ?thesis using assms(1) refused by (simp add: PromoteChallenger_def)
next
  case (Some taskID)
  obtain q v where q: "db_first tb_genes (\<lambda>g. GrTaskID g = taskID \<and> GrRole g = ''challenger'') w = (q, v)" by fastforce
  have v: "w_db v = w_db w" using q by (cases rule: db_first_cases) auto
  show ?thesis
  proof (cases q)
    case (Inl e)
    then have "code \<in> {400, 404, 500}" "u = v" "redis' = redis"
      using assms(1) by (auto simp: PromoteChallenger_def Some q split: if_splits)
    then show ?thesis using refused v by blast
  next
    case (Inr ch)
    have ch: "ch \<in> set (tb_genes (w_db w))" "GrTaskID ch = taskID" "GrRole ch = ''challenger''"
      using find_mem [OF conjunct1 [OF db_first_ok [OF q [unfolded Inr]]]] by simp_all
    obtain r y where t: "transaction (promote_body ch) v = (r, y)" by fastforce
    from t show ?thesis
    proof (cases rule: transaction_cases)
      case (rolledback e)
      then have "code \<in> {400, 404, 500}" "u = y" "redis' = redis"
        using assms(1) by (simp_all add: PromoteChallenger_def Some q Inr t)
      then show ?thesis using refused v rolledback by simp
    next
      case (committed x z)
      have "w_db z = (w_db w)\<lparr>tb_genes := map (promoted ch) (tb_genes (w_db w))\<rparr>"
        using promote_body_ok [OF committed(2)] assms(2) ch v by simp
      moreover have "code = 200" "b = PromotedBody (GrID ch)" "u = y" "redis' = snd (Del (champion_key (GrStrategyID ch)) redis)"
        using assms(1) committed(1) by (simp_all add: PromoteChallenger_def Some q Inr t)
      ultimately show ?thesis using done_ ch committed(4) Some by simp
    qed
  qed
qed

section \<open>Promotion\<close>

text \<open>C25. A promotion leaves exactly one champion or changes nothing. If the handler answers 200, the
  challenger it names has become the only champion of its strategy, the champions of every other
  strategy are what they were, and no row has changed but for its role; any other answer, a
  failed or half-done transaction included, leaves the database and the cache as they were.\<close>

theorem promotion_unique_champion:
  assumes "PromoteChallenger idStr (w, redis) = ((code, b), u, redis')" "genes_ok (w_db w)"
  shows "genes_ok (w_db u) \<and>
    (code \<in> {400, 404, 500} \<and> w_db u = w_db w \<and> redis' = redis \<or>
     code = 200 \<and> (\<exists>ch \<in> set (tb_genes (w_db w)). b = PromotedBody (GrID ch) \<and> GrRole ch = ''challenger'' \<and>
       filter (\<lambda>g. GrStrategyID g = GrStrategyID ch \<and> GrRole g = ''champion'') (tb_genes (w_db u)) = [ch\<lparr>GrRole := ''champion''\<rparr>] \<and>
       (\<forall>k. k \<noteq> GrStrategyID ch \<longrightarrow> champion_of (w_db u) k = champion_of (w_db w) k) \<and>
       list_all2 (\<lambda>g h. h = g\<lparr>GrRole := GrRole h\<rparr>) (tb_genes (w_db w)) (tb_genes (w_db u))))"
  using assms
proof (cases rule: PromoteChallenger_cases)
  case refused
  then show ?thesis using assms(2) by simp
next
  case (done_ ch)
  have d: "distinct (map GrID (tb_genes (w_db w)))" using assms(2) by (simp add: genes_ok_def)
  have i: "map GrID (tb_genes (w_db u)) = map GrID (tb_genes (w_db w))" by (simp add: done_(6) promoted_def)
  have "list_all2 (\<lambda>g h. h = g\<lparr>GrRole := GrRole h\<rparr>) (tb_genes (w_db w)) (tb_genes (w_db u))"
    by (simp add: done_(6) list_all2_map2 list_all2_same promoted_def)
  moreover have "filter (\<lambda>g. GrStrategyID g = GrStrategyID ch \<and> GrRole g = ''champion'') (tb_genes (w_db u)) = [ch\<lparr>GrRole := ''champion''\<rparr>]"
    using promoted_champions [OF d done_(3,4)] by (simp add: done_(6))
  moreover have "champion_of (w_db u) k = champion_of (w_db w) k" if "k \<noteq> GrStrategyID ch" for k
    using promoted_others [OF that] by (simp add: done_(6) champion_of_def)
  ultimately show ?thesis using done_(1-4) d i by (auto simp: genes_ok_def)
qed

section \<open>The cache of champions\<close>

text \<open>The steps that touch champions: reads through the cache, promotions whose delete reaches Redis, new
  challengers, expiry of an entry.\<close>

inductive champion_step :: "api_env \<Rightarrow> world \<times> RedisClient \<Rightarrow> world \<times> RedisClient \<Rightarrow> bool" for env where
  read: "GetChampion env idStr s = (resp, t) \<Longrightarrow> champion_step env s t"
| promote: "PromoteChallenger idStr (w, r) = (resp, t) \<Longrightarrow> \<not> rc_fails r (rc_ops r) \<Longrightarrow> champion_step env (w, r) t"
| epoch: "w_db u = (w_db w)\<lparr>tb_genes := tb_genes (w_db w) @ [g]\<rparr> \<Longrightarrow> GrRole g = ''challenger'' \<Longrightarrow>
    GrID g \<notin> GrID ` set (tb_genes (w_db w)) \<Longrightarrow> champion_step env (w, r) (u, r)"
| expire: "champion_step env (w, r) (w, expire key r)"

definition gene_json_ok :: "api_env \<Rightarrow> bool" where
  "gene_json_ok env \<longleftrightarrow> (\<forall>g s. ae_gene_json env g = Some s \<longrightarrow> s \<noteq> [] \<and> ae_gene env s = Some g)"

lemma GetChampion_fresh:
  assumes "GetChampion env idStr (w, r) = (resp, u, r')" "fresh_cache env (w_db w) r" "gene_json_ok env"
  shows "w_db u = w_db w \<and> fresh_cache env (w_db u) r' \<and>
    (\<forall>g. resp = (200, ChampionBody g) \<longrightarrow> map_option (champion_of (w_db w)) (ParseUint idStr) = Some (Some g))"
proof (cases "ParseUint idStr")
  case None
  then show ?thesis using assms(1,2) by (auto simp: GetChampion_def)
next
  case (Some k)
  show ?thesis
  proof (cases "k = 0")
    case True
    then show ?thesis using assms(1,2) Some by (auto simp: GetChampion_def)
  next
    case False
    obtain raw r1 where g: "Get (champion_key k) r = (raw, r1)" by fastforce
    have c: "fresh_cache env (w_db w) r1" using redis.get_coherent [OF assms(2), of "champion_key k"] by (simp add: g)
    show ?thesis
    proof (cases "champion_hit env raw")
      case hit: (Some h)
      then obtain v where v: "raw = Some v" by (auto simp: champion_hit_def split: option.splits)
      have "champion_of (w_db w) k = Some h"
        by (rule redis.hit_current [OF assms(2), of k v]) (use g v hit in simp_all)
      then show ?thesis using assms(1) c Some False by (auto simp: GetChampion_def g hit)
    next
      case miss: None
      obtain q v where q: "champion_row k w = (q, v)" by fastforce
      from q show ?thesis
      proof (cases rule: champion_row_cases)
        case (found h)
        have "fresh_cache env (w_db w) r'"
        proof (cases "ae_gene_json env h")
          case None
          then have "r' = r1" using assms(1) Some False by (simp add: GetChampion_def g miss q found(1))
          then show ?thesis using c by simp
        next
          case data: (Some data)
          then have r': "r' = snd (Set (champion_key k) data r1)"
            using assms(1) Some False by (simp add: GetChampion_def g miss q found(1))
          have "champion_hit env (Some data) = Some h" using assms(3) data by (auto simp: gene_json_ok_def champion_hit_def)
          from redis.put_coherent [OF c champion_key_inj this found(2)] show ?thesis by (simp add: r')
        qed
        then show ?thesis using assms(1) Some False found by (auto simp: GetChampion_def g miss q)
      qed (use assms(1) c Some False in \<open>auto simp: GetChampion_def g miss q split: if_splits\<close>)
    qed
  qed
qed

lemma promote_fresh:
  assumes "PromoteChallenger idStr (w, r) = (resp, u, r')" "\<not> rc_fails r (rc_ops r)" "genes_ok (w_db w)" "fresh_cache env (w_db w) r"
  shows "genes_ok (w_db u) \<and> fresh_cache env (w_db u) r'"
proof -
  obtain code b where resp: "resp = (code, b)" by fastforce
  from assms(1) [unfolded resp] assms(3) show ?thesis
  proof (cases rule: PromoteChallenger_cases)
    case refused
    then show ?thesis using assms(3,4) by simp
  next
    case (done_ ch)
    have "champion_of (w_db u) j = champion_of (w_db w) j" if "j \<noteq> GrStrategyID ch" for j
      using promoted_others [OF that] by (simp add: done_(6) champion_of_def)
    moreover have "fst (Del (champion_key (GrStrategyID ch)) r)" using assms(2) by (simp add: Del_def Let_def)
    ultimately have "fresh_cache env (w_db u) r'" unfolding done_(7) by (intro redis.del_coherent [OF assms(4)])
    moreover have "map GrID (tb_genes (w_db u)) = map GrID (tb_genes (w_db w))" by (simp add: done_(6) promoted_def)
    ultimately show ?thesis using assms(3) by (simp add: genes_ok_def)
  qed
qed

lemma champion_step_fresh:
  assumes "champion_step env s t" "gene_json_ok env" "genes_ok (w_db (fst s))" "fresh_cache env (w_db (fst s)) (snd s)"
  shows "genes_ok (w_db (fst t)) \<and> fresh_cache env (w_db (fst t)) (snd t)"
  using assms(1)
proof cases
  case (read idStr resp)
  then have "GetChampion env idStr (fst s, snd s) = (resp, fst t, snd t)" by simp
  note c = GetChampion_fresh [OF this assms(4,2)]
  show ?thesis using assms(3) conjunct1 [OF c] conjunct1 [OF conjunct2 [OF c]] by simp
next
  case (promote idStr w r resp)
  then show ?thesis using promote_fresh [of idStr w r resp "fst t" "snd t" env] assms(3,4) by simp
next
  case (epoch u w g r)
  have "champion_of (w_db u) = champion_of (w_db w)" using epoch(4) by (auto simp: fun_eq_iff champion_of_def epoch(3))
  then show ?thesis using epoch assms(3,4) by (simp add: genes_ok_def)
next
  case (expire w r key)
  then show ?thesis using assms(3,4) by (auto simp: coherent_def expire_def)
qed

text \<open>C16. The champion everybody sees is the current one. Along every run of reads, promotions whose cache
  delete reaches Redis, new challengers and expiries, each of them one step, starting from an empty cache, a champion
  returned by the API is the newest champion of the database, and the parameters a live tick
  loads are those of that champion or, when the strategy has none, of the instance itself.\<close>

theorem champion_is_current:
  assumes "gene_json_ok env" "genes_ok (w_db w0)" "rc_data r0 = Map.empty" "(champion_step env)\<^sup>*\<^sup>* (w0, r0) (w, r)"
    "im_redis ienv = rc_data r" "im_gene ienv = ae_gene env"
  shows "(GetChampion env idStr (w, r) = ((200, ChampionBody g), s) \<longrightarrow>
      map_option (champion_of (w_db w)) (ParseUint idStr) = Some (Some g)) \<and>
    (loadChampionParams ienv inst w = (Inr p, v) \<longrightarrow> p = decode_params ienv
      (case champion_of (w_db w) (SiTemplateID inst) of None \<Rightarrow> SiParamPack inst | Some h \<Rightarrow> GrParamPack h))"
proof -
  have e: "fresh_cache env (w_db w0) r0" using assms(3) by (simp add: coherent_def)
  have i: "genes_ok (w_db (fst (w, r))) \<and> fresh_cache env (w_db (fst (w, r))) (snd (w, r))"
    using assms(4)
  proof (induction rule: rtranclp_induct)
    case base
    then show ?case using assms(2) e by simp
  next
    case (step s t)
    then show ?case using champion_step_fresh [OF step.hyps(2) assms(1)] by simp
  qed
  then have f: "fresh_cache env (w_db w) r" by simp
  have "map_option (champion_of (w_db w)) (ParseUint idStr) = Some (Some g)"
    if "GetChampion env idStr (w, r) = ((200, ChampionBody g), s)"
    using GetChampion_fresh [of env idStr w r "(200, ChampionBody g)" "fst s" "snd s"] that f assms(1) by simp
  moreover have "p = decode_params ienv
      (case champion_of (w_db w) (SiTemplateID inst) of None \<Rightarrow> SiParamPack inst | Some h \<Rightarrow> GrParamPack h)"
    if l: "loadChampionParams ienv inst w = (Inr p, v)"
  proof (cases "cached_champion ienv (SiTemplateID inst)")
    case (Some h)
    then obtain raw where raw: "rc_data r (champion_key (SiTemplateID inst)) = Some raw" "champion_hit env (Some raw) = Some h"
      by (auto simp: cached_champion_def champion_hit_def assms(5,6) split: option.splits if_splits)
    have "champion_of (w_db w) (SiTemplateID inst) = Some h" using f raw unfolding coherent_def by blast
    then show ?thesis using l Some by (simp add: loadChampionParams_def)
  next
    case None
    obtain q x where q: "champion_row (SiTemplateID inst) w = (q, x)" by fastforce
    from q show ?thesis by (cases rule: champion_row_cases) (use l None in \<open>auto simp: loadChampionParams_def q\<close>)
  qed
  ultimately show ?thesis by blast
qed

section \<open>Answers to a new task\<close>

text \<open>Creating a task answers for what happened: 400 exactly for a body that does not parse, 409
  exactly when another epoch is running, 201 with the record of the task that then runs, and 500
  for any other error of the service; the look into the error text never panics.\<close>

theorem create_task_answers:
  assumes "CreateTask env raw (svc, w) = (resp, svc', u)"
  shows "case ae_bind env raw of
      Inl msg \<Rightarrow> resp = Some (400, ErrorBody (''invalid request body: '' @ msg)) \<and> svc' = svc \<and> u = w
    | Inr req \<Rightarrow> (if busy svc
        then resp = Some (409, ErrorBody ''another evolution task is already running'') \<and> svc' = svc \<and> u = w
        else (\<exists>msg. resp = Some (500, ErrorBody msg)) \<and> svc' = svc \<or>
          (\<exists>task. resp = Some (201, TaskBody task) \<and> EtStrategyID task = CtStrategyID req \<and> GetCurrentTask svc' = Some task \<and>
            busy svc' \<and> task \<in> set (tb_tasks (w_db u))))"
proof (cases "ae_bind env raw")
  case (Inl msg)
  then show ?thesis using assms by (auto simp: CreateTask_def)
next
  case (Inr req)
  obtain r x y where c: "CreateAndRunTask (ae_service env) req (svc, w) = (r, x, y)" by (metis prod.exhaust)
  from c show ?thesis
  proof (cases rule: CreateAndRunTask_cases)
    case refused
    then show ?thesis using assms by (simp add: CreateTask_def Inr c isConflict_def)
  next
    case (failed e p)
    have p: "p = ''CreateAndRunTask resolveSpawnPoint'' \<or> p = ''CreateAndRunTask create task''"
      using c failed(1,2) by (auto simp: CreateAndRunTask_def Let_def split: prod.splits sum.splits)
    then have "isConflict (Wrapf p e) = Some False" by (auto simp: isConflict_def)
    then show ?thesis using assms failed by (auto simp: CreateTask_def Inr c)
  next
    case (accepted task job)
    then show ?thesis using assms by (auto simp: CreateTask_def Inr c GetCurrentTask_def)
  qed
qed

section \<open>Witnesses\<close>

definition demo_gene :: GeneRecord where
  "demo_gene = \<lparr>GrID = 1, GrCreatedAt = 0, GrStrategyID = 1, GrTaskID = 7, GrRole = ''challenger'', GrParamPack = ''p'',
     GrScoreTotal = 1, GrMaxDrawdown = 0, GrWindowScores = ''{}''\<rparr>"

definition demo_api :: api_env where
  "demo_api = \<lparr>ae_bind = \<lambda>_. Inr demo_request, ae_service = demo_service, ae_scores = \<lambda>_. [],
     ae_gene = \<lambda>s. if s = ''g'' then Some (demo_gene\<lparr>GrRole := ''champion''\<rparr>) else None,
     ae_gene_json = \<lambda>g. if g = demo_gene\<lparr>GrRole := ''champion''\<rparr> then Some ''g'' else None\<rparr>"

definition gene_world :: world where
  "gene_world = demo_world\<lparr>w_db := demo_db\<lparr>tb_genes := [demo_gene]\<rparr>\<rparr>"

definition empty_redis :: RedisClient where
  "empty_redis = \<lparr>rc_data = Map.empty, rc_fails = \<lambda>_. False, rc_ops = 0\<rparr>"

abbreviation promotion :: "response \<times> world \<times> RedisClient" where
  "promotion \<equiv> PromoteChallenger ''7'' (gene_world, empty_redis)"

lemma gene_world_ok: "genes_ok (w_db gene_world)" and promotion_200: "fst (fst promotion) = 200"
  by (code_simp, code_simp)

lemma promotion_eq: "PromoteChallenger ''7'' (gene_world, empty_redis) =
    ((fst (fst promotion), snd (fst promotion)), fst (snd promotion), snd (snd promotion))"
  by simp

theorem promotion_unique_champion_witness:
  "map GrID (filter (\<lambda>g. GrStrategyID g = 1 \<and> GrRole g = ''champion'') (tb_genes (w_db (fst (snd promotion))))) = [1]"
proof -
  note p = promotion_unique_champion [OF promotion_eq gene_world_ok]
  then obtain ch where ch: "ch \<in> set (tb_genes (w_db gene_world))"
    "filter (\<lambda>g. GrStrategyID g = GrStrategyID ch \<and> GrRole g = ''champion'') (tb_genes (w_db (fst (snd promotion)))) = [ch\<lparr>GrRole := ''champion''\<rparr>]"
    using promotion_200 by auto
  from ch(1) have "ch = demo_gene" by (simp add: gene_world_def)
  then show ?thesis using ch(2) by (simp add: demo_gene_def)
qed

abbreviation champion_params :: "(go_error + Chromosome \<times> SpawnPoint) \<times> world" where
  "champion_params \<equiv> loadChampionParams (demo_env\<lparr>im_redis := rc_data (snd (snd promotion)), im_gene := ae_gene demo_api\<rparr>)
     demo_inst (fst (snd promotion))"

theorem champion_is_current_witness:
  "fst champion_params = Inr (decode_params demo_env ''p'')"
proof -
  let ?env = "demo_env\<lparr>im_redis := rc_data (snd (snd promotion)), im_gene := ae_gene demo_api\<rparr>"
  have j: "gene_json_ok demo_api" by (simp add: gene_json_ok_def demo_api_def)
  have "champion_step demo_api (gene_world, empty_redis) (fst (snd promotion), snd (snd promotion))"
    by (rule champion_step.promote [OF promotion_eq]) (simp add: empty_redis_def)
  then have s: "(champion_step demo_api)\<^sup>*\<^sup>* (gene_world, empty_redis) (fst (snd promotion), snd (snd promotion))"
    by (rule r_into_rtranclp)
  have e: "rc_data empty_redis = Map.empty" by (simp add: empty_redis_def)
  have m: "im_redis ?env = rc_data (snd (snd promotion))" "im_gene ?env = ae_gene demo_api" by simp_all
  have "\<not> isl (fst champion_params)" by code_simp
  then obtain p where p: "fst champion_params = Inr p" by (cases "fst champion_params") auto
  then have "champion_params = (Inr p, snd champion_params)" by (metis prod.collapse)
  note c = champion_is_current [OF j gene_world_ok e s m, where inst = demo_inst and p = p and v = "snd champion_params"]
  have h: "map_option GrParamPack (champion_of (w_db (fst (snd promotion))) (SiTemplateID demo_inst)) = Some ''p''" by code_simp
  have "p = decode_params ?env (case champion_of (w_db (fst (snd promotion))) (SiTemplateID demo_inst) of
      None \<Rightarrow> SiParamPack demo_inst | Some h \<Rightarrow> GrParamPack h)"
    using c \<open>champion_params = (Inr p, snd champion_params)\<close> by blast
  then show ?thesis using p h by (auto simp: decode_params_def)
qed

theorem create_task_answers_witness:
  "fst (CreateTask demo_api ''{}'' (snd accepted)) = Some (409, ErrorBody ''another evolution task is already running'')"
proof -
  obtain resp svc u where c: "CreateTask demo_api ''{}'' (fst (snd accepted), snd (snd accepted)) = (resp, svc, u)" by (metis prod.exhaust)
  have "busy (fst (snd accepted))" by code_simp
  then show ?thesis using create_task_answers [OF c] c by (simp add: demo_api_def)
qed

end
