(* ===== verification/Bitget.thy ===== *)
theory Bitget
  imports Database
begin

text \<open>
  \<open>internal/agent/exchange/bitget.go\<close> and the structs of \<open>internal/agent/config/config.go\<close>: the exchange
  client of the agent. The state is the list of the requests sent. Taken from outside: the clock,
  HMAC-SHA256 with Base64, the answers of the server, the JSON codecs, the float parser and the
  points at which a wait is cancelled. The pauses between polls are not modelled. The codecs of the program are in \<open>ExchangeWire\<close>.
\<close>

section \<open>Data\<close>

record ExchangeConfig =
  XcName :: string
  XcAPIKey :: string
  XcSecretKey :: string
  XcPassphrase :: string
  XcSandbox :: bool

record AgentConfig =
  AgSaaSURL :: string
  AgEmail :: string
  AgPassword :: string
  AgExchange :: ExchangeConfig

record AgentCommand =
  AcClientOrderID :: string
  AcAction :: string
  AcEngine :: string
  AcSymbol :: string
  AcAmountUSDT :: string
  AcQtyAsset :: string
  AcLotType :: string

record AgentExecution =
  AxClientOrderID :: string
  AxFilledQty :: f64
  AxFilledPrice :: f64
  AxFee :: f64

record AgentBalance =
  AbAsset :: string
  AbAvailable :: f64
  AbFrozen :: f64

record http_request =
  rq_method :: string
  rq_url :: string
  rq_headers :: "(string \<times> string) list"
  rq_body :: string

record placeResp =
  PrCode :: string
  PrMsg :: string
  PrOrderId :: string

record orderInfoResp =
  OrCode :: string
  OrMsg :: string
  OrStatus :: string
  OrBaseVolume :: string
  OrFillPrice :: string
  OrTotalDeductedFee :: string

record assetRow =
  AsCoinName :: string
  AsAvailable :: string
  AsFrozen :: string

record assetsResp =
  ArCode :: string
  ArMsg :: string
  ArData :: "assetRow list"

record bitget_env =
  bx_cfg :: AgentConfig
  bx_now :: "nat \<Rightarrow> i64"
  bx_mac :: "string \<Rightarrow> string \<Rightarrow> string"
  bx_url_ok :: "string \<Rightarrow> bool"
  bx_http :: "nat \<Rightarrow> http_request \<Rightarrow> string option"
  bx_cancelled :: "nat \<Rightarrow> bool"
  bx_body :: "(string \<rightharpoonup> string) \<Rightarrow> string"
  bx_place :: "string \<Rightarrow> placeResp option"
  bx_info :: "string \<Rightarrow> orderInfoResp option"
  bx_assets :: "string \<Rightarrow> assetsResp option"
  bx_float :: "string \<Rightarrow> f64"

type_synonym net = "http_request list"

section \<open>Requests\<close>

definition productionAPI :: string where "productionAPI = ''https://api.bitget.com''"
definition sandboxAPI :: string where "sandboxAPI = ''https://testnet-api.bitget.com''"

definition NewBitgetClient :: "AgentConfig \<Rightarrow> string" where
  "NewBitgetClient cfg = (if XcSandbox (AgExchange cfg) then sandboxAPI else productionAPI)"

definition ToUpper :: "string \<Rightarrow> string" where
  "ToUpper s = map (\<lambda>c. if 97 \<le> (of_char c :: nat) \<and> (of_char c :: nat) \<le> 122 then char_of ((of_char c :: nat) - 32) else c) s"

definition addAuth :: "bitget_env \<Rightarrow> i64 \<Rightarrow> string \<Rightarrow> string \<Rightarrow> string \<Rightarrow> http_request \<Rightarrow> http_request" where
  "addAuth env now path query body req = (let x = AgExchange (bx_cfg env); ts = show_int (sint now);
       requestPath = (if query \<noteq> [] then path @ ''?'' @ query else path);
       prehash = ts @ ToUpper (rq_method req) @ requestPath @ body
     in req\<lparr>rq_headers := rq_headers req @ [(''Content-Type'', ''application/json''), (''ACCESS-KEY'', XcAPIKey x),
         (''ACCESS-SIGN'', bx_mac env (XcSecretKey x) prehash), (''ACCESS-TIMESTAMP'', ts),
         (''ACCESS-PASSPHRASE'', XcPassphrase x), (''locale'', ''zh-CN'')]\<rparr>)"

text \<open>The status of the response is not looked at. The errors of the HTTP client and the codecs have fixed
  texts here.\<close>

definition do_request :: "bitget_env \<Rightarrow> http_request \<Rightarrow> net \<Rightarrow> (go_error + string) \<times> net" where
  "do_request env req lg = (case bx_http env (length lg) req of
     None \<Rightarrow> (Inl (Errorf ''http''), lg @ [req]) | Some body \<Rightarrow> (Inr body, lg @ [req]))"

definition post :: "bitget_env \<Rightarrow> string \<Rightarrow> string \<Rightarrow> net \<Rightarrow> (go_error + string) \<times> net" where
  "post env path body lg = (let u = NewBitgetClient (bx_cfg env) @ path in
     if \<not> bx_url_ok env u then (Inl (Errorf ''request''), lg)
     else do_request env (addAuth env (bx_now env (length lg)) path [] body
       \<lparr>rq_method = ''POST'', rq_url = u, rq_headers = [], rq_body = body\<rparr>) lg)"

definition get :: "bitget_env \<Rightarrow> string \<Rightarrow> string \<Rightarrow> net \<Rightarrow> (go_error + string) \<times> net" where
  "get env path query lg = (let u = NewBitgetClient (bx_cfg env) @ path; u = (if query \<noteq> [] then u @ ''?'' @ query else u) in
     if \<not> bx_url_ok env u then (Inl (Errorf ''request''), lg)
     else do_request env (addAuth env (bx_now env (length lg)) path query []
       \<lparr>rq_method = ''GET'', rq_url = u, rq_headers = [], rq_body = []\<rparr>) lg)"

section \<open>Orders\<close>

text \<open>The body of an order; no body for an unknown action.\<close>

definition order_body :: "AgentCommand \<Rightarrow> (string \<rightharpoonup> string) option" where
  "order_body cmd = (let body = [''symbol'' \<mapsto> filter (\<lambda>c. c \<noteq> CHR ''/'') (AcSymbol cmd), ''orderType'' \<mapsto> ''market'',
       ''force'' \<mapsto> ''gtc'', ''clientOid'' \<mapsto> AcClientOrderID cmd]
     in if AcAction cmd = ''BUY'' then Some (body(''side'' \<mapsto> ''buy'', ''size'' \<mapsto> AcAmountUSDT cmd))
       else if AcAction cmd = ''SELL'' then Some (body(''side'' \<mapsto> ''sell'', ''size'' \<mapsto> AcQtyAsset cmd)) else None)"

definition fetchOrderInfo :: "bitget_env \<Rightarrow> string \<Rightarrow> net \<Rightarrow> (go_error + AgentExecution \<times> bool) \<times> net" where
  "fetchOrderInfo env orderID lg = (case get env ''/api/v2/spot/trade/orderInfo'' (''orderId='' @ orderID) lg of
     (Inl e, lg) \<Rightarrow> (Inl e, lg)
   | (Inr raw, lg) \<Rightarrow> (case bx_info env raw of
       None \<Rightarrow> (Inl (Errorf ''unmarshal''), lg)
     | Some resp \<Rightarrow> if OrCode resp \<noteq> ''00000'' then (Inl (Errorf (''orderInfo: '' @ OrMsg resp)), lg)
         else (Inr (\<lparr>AxClientOrderID = [], AxFilledQty = bx_float env (OrBaseVolume resp),
             AxFilledPrice = bx_float env (OrFillPrice resp), AxFee = bx_float env (OrTotalDeductedFee resp)\<rparr>,
           OrStatus resp = ''full_fill'' \<or> OrStatus resp = ''partially_fill''), lg)))"

definition no_fill :: "string \<Rightarrow> AgentExecution" where
  "no_fill clientOid = \<lparr>AxClientOrderID = clientOid, AxFilledQty = 0, AxFilledPrice = 0, AxFee = 0\<rparr>"

text \<open>\<open>n\<close> polls are left after the first \<open>i\<close>.\<close>

primrec poll :: "bitget_env \<Rightarrow> string \<Rightarrow> string \<Rightarrow> nat \<Rightarrow> nat \<Rightarrow> net \<Rightarrow> (go_error + AgentExecution) \<times> net" where
  "poll env clientOid orderID 0 i lg = (Inr (no_fill clientOid), lg)"
| "poll env clientOid orderID (Suc n) i lg =
     (if 0 < i \<and> bx_cancelled env (length lg) then (Inl (Errorf ''context canceled''), lg)
      else case fetchOrderInfo env orderID lg of
        (Inl e, lg) \<Rightarrow> poll env clientOid orderID n (i + 1) lg
      | (Inr (ex, filled), lg) \<Rightarrow> if filled then (Inr (ex\<lparr>AxClientOrderID := clientOid\<rparr>), lg)
          else poll env clientOid orderID n (i + 1) lg)"

definition waitForFill :: "bitget_env \<Rightarrow> string \<Rightarrow> string \<Rightarrow> net \<Rightarrow> (go_error + AgentExecution) \<times> net" where
  "waitForFill env clientOid orderID = poll env clientOid orderID 6 0"

definition PlaceOrder :: "bitget_env \<Rightarrow> AgentCommand \<Rightarrow> net \<Rightarrow> (go_error + AgentExecution) \<times> net" where
  "PlaceOrder env cmd lg = (case order_body cmd of
     None \<Rightarrow> (Inl (Errorf (''PlaceOrder: unknown action '' @ CHR 0x22 # AcAction cmd @ [CHR 0x22])), lg)
   | Some body \<Rightarrow> (case post env ''/api/v2/spot/trade/place-order'' (bx_body env body) lg of
       (Inl e, lg) \<Rightarrow> (Inl (Wrapf ''PlaceOrder'' e), lg)
     | (Inr raw, lg) \<Rightarrow> (case bx_place env raw of
         None \<Rightarrow> (Inl (Wrapf ''PlaceOrder'' (Errorf ''unmarshal'')), lg)
       | Some resp \<Rightarrow> if PrCode resp \<noteq> ''00000'' then (Inl (Errorf (''PlaceOrder: '' @ PrCode resp @ '' '' @ PrMsg resp)), lg)
           else waitForFill env (AcClientOrderID cmd) (PrOrderId resp) lg)))"

section \<open>Balances\<close>

definition balance_of :: "bitget_env \<Rightarrow> assetRow \<Rightarrow> AgentBalance list" where
  "balance_of env d = (let avail = bx_float env (AsAvailable d); frozen = bx_float env (AsFrozen d) in
     if 0 < avail \<or> 0 < frozen then [\<lparr>AbAsset = AsCoinName d, AbAvailable = avail, AbFrozen = frozen\<rparr>] else [])"

definition GetBalances :: "bitget_env \<Rightarrow> net \<Rightarrow> (go_error + AgentBalance list) \<times> net" where
  "GetBalances env lg = (case get env ''/api/v2/spot/account/assets'' [] lg of
     (Inl e, lg) \<Rightarrow> (Inl (Wrapf ''GetBalances'' e), lg)
   | (Inr raw, lg) \<Rightarrow> (case bx_assets env raw of
       None \<Rightarrow> (Inl (Wrapf ''GetBalances'' (Errorf ''unmarshal'')), lg)
     | Some resp \<Rightarrow> if ArCode resp \<noteq> ''00000'' then (Inl (Errorf (''GetBalances: '' @ ArCode resp @ '' '' @ ArMsg resp)), lg)
         else (Inr (concat (map (balance_of env) (ArData resp))), lg)))"

section \<open>What is sent\<close>

text \<open>A request carries a signature, under the secret key, of its time stamp, method, path with query
  and body.\<close>

definition signed :: "bitget_env \<Rightarrow> http_request \<Rightarrow> bool" where
  "signed env q \<longleftrightarrow> (\<exists>ts path. rq_url q = NewBitgetClient (bx_cfg env) @ path \<and>
     map_of (rq_headers q) ''ACCESS-TIMESTAMP'' = Some ts \<and>
     map_of (rq_headers q) ''ACCESS-SIGN'' =
       Some (bx_mac env (XcSecretKey (AgExchange (bx_cfg env))) (ts @ rq_method q @ path @ rq_body q)))"

lemma ToUpper_methods [simp]: "ToUpper ''POST'' = ''POST''" "ToUpper ''GET'' = ''GET''"
  by (simp_all add: ToUpper_def)

lemma do_request_log: "snd (do_request env req lg) = lg @ [req]"
  by (simp add: do_request_def split: option.split)

lemma post_log:
  assumes "post env path body lg = (r, lg')"
  shows "isl r \<and> lg' = lg \<or> (\<exists>q. lg' = lg @ [q] \<and> rq_method q = ''POST'' \<and> signed env q \<and>
    rq_url q = NewBitgetClient (bx_cfg env) @ path \<and> rq_body q = body)"
proof (cases "bx_url_ok env (NewBitgetClient (bx_cfg env) @ path)")
  case False
  then show ?thesis using assms by (auto simp: post_def Let_def)
next
  case True
  let ?q = "addAuth env (bx_now env (length lg)) path [] body
    \<lparr>rq_method = ''POST'', rq_url = NewBitgetClient (bx_cfg env) @ path, rq_headers = [], rq_body = body\<rparr>"
  have "lg' = lg @ [?q]" using assms True do_request_log [of env ?q lg] by (simp add: post_def Let_def)
  then show ?thesis by (simp add: addAuth_def Let_def signed_def)
qed

lemma get_log:
  assumes "get env path query lg = (r, lg')"
  shows "isl r \<and> lg' = lg \<or> (\<exists>q. lg' = lg @ [q] \<and> rq_method q = ''GET'' \<and> signed env q \<and>
    rq_url q = NewBitgetClient (bx_cfg env) @ path @ (if query \<noteq> [] then ''?'' @ query else []))"
proof -
  let ?u = "NewBitgetClient (bx_cfg env) @ path @ (if query \<noteq> [] then ''?'' @ query else [])"
  show ?thesis
  proof (cases "bx_url_ok env ?u")
    case False
    then show ?thesis using assms by (auto simp: get_def Let_def split: if_splits)
  next
    case True
    let ?q = "addAuth env (bx_now env (length lg)) path query []
      \<lparr>rq_method = ''GET'', rq_url = ?u, rq_headers = [], rq_body = []\<rparr>"
    have "lg' = lg @ [?q]" using assms True do_request_log [of env ?q lg]
      by (cases "query = []") (simp_all add: get_def Let_def)
    then show ?thesis by (simp add: addAuth_def Let_def signed_def)
  qed
qed

text \<open>The requests of one call: reads of the server's state.\<close>

definition reads :: "bitget_env \<Rightarrow> net \<Rightarrow> bool" where
  "reads env qs \<longleftrightarrow> (\<forall>q \<in> set qs. rq_method q = ''GET'' \<and> signed env q)"

lemma reads_append [simp]: "reads env [] " "reads env (qs @ rs) \<longleftrightarrow> reads env qs \<and> reads env rs"
  by (auto simp: reads_def)

lemma fetch_log:
  assumes "fetchOrderInfo env orderID lg = (r, lg')"
  shows "\<exists>qs. lg' = lg @ qs \<and> length qs \<le> 1 \<and> reads env qs"
proof -
  obtain q l where g: "get env ''/api/v2/spot/trade/orderInfo'' (''orderId='' @ orderID) lg = (q, l)" by fastforce
  have "lg' = l" using assms unfolding fetchOrderInfo_def g by (auto split: sum.splits option.splits if_splits)
  with get_log [OF g] show ?thesis by (auto simp: reads_def)
qed

lemma poll_log:
  "poll env clientOid orderID n i lg = (r, lg') \<Longrightarrow>
     (\<exists>qs. lg' = lg @ qs \<and> length qs \<le> n \<and> reads env qs) \<and> (\<forall>ex. r = Inr ex \<longrightarrow> AxClientOrderID ex = clientOid)"
proof (induction n arbitrary: i lg)
  case 0
  then show ?case by (auto simp: no_fill_def)
next
  case (Suc n)
  show ?case
  proof (cases "0 < i \<and> bx_cancelled env (length lg)")
    case True
    then have "lg' = lg @ []" "isl r" using Suc.prems by auto
    then show ?thesis by (intro conjI exI [of _ "[]"]) auto
  next
    case False
    obtain q l where f: "fetchOrderInfo env orderID lg = (q, l)" by fastforce
    obtain qs where qs: "l = lg @ qs" "length qs \<le> 1" "reads env qs" using fetch_log [OF f] by blast
    have step: "(\<exists>qs. lg' = lg @ qs \<and> length qs \<le> Suc n \<and> reads env qs) \<and>
        (\<forall>ex. r = Inr ex \<longrightarrow> AxClientOrderID ex = clientOid)" if "poll env clientOid orderID n (i + 1) l = (r, lg')"
    proof -
      from Suc.IH [OF that] obtain rs where "lg' = l @ rs" "length rs \<le> n" "reads env rs"
        "\<forall>ex. r = Inr ex \<longrightarrow> AxClientOrderID ex = clientOid" by blast
      then show ?thesis using qs by (intro conjI exI [of _ "qs @ rs"]) auto
    qed
    show ?thesis
    proof (cases q)
      case (Inl e)
      then show ?thesis using Suc.prems False step by (simp add: f)
    next
      case (Inr p)
      obtain ex filled where p: "p = (ex, filled)" by fastforce
      show ?thesis
      proof (cases filled)
        case True
        then have "r = Inr (ex\<lparr>AxClientOrderID := clientOid\<rparr>)" "lg' = l" using Suc.prems False by (simp_all add: f Inr p)
        then show ?thesis using qs by (intro conjI exI [of _ qs]) auto
      next
        case False2: False
        then show ?thesis using Suc.prems False step by (simp add: f Inr p)
      qed
    qed
  qed
qed

lemma PlaceOrder_log:
  assumes "PlaceOrder env cmd lg = (r, lg')"
  shows "(order_body cmd = None \<longrightarrow> isl r \<and> lg' = lg) \<and>
    (\<exists>ps qs. lg' = lg @ ps @ qs \<and> length ps \<le> 1 \<and> length qs \<le> 6 \<and> reads env qs \<and>
      (\<forall>q \<in> set ps. rq_method q = ''POST'' \<and> signed env q \<and> map_option (bx_body env) (order_body cmd) = Some (rq_body q)) \<and>
      (\<not> isl r \<longrightarrow> length ps = 1)) \<and>
    (\<forall>ex. r = Inr ex \<longrightarrow> AxClientOrderID ex = AcClientOrderID cmd)"
proof (cases "order_body cmd")
  case None
  then have "isl r" "lg' = lg" using assms by (auto simp: PlaceOrder_def)
  then show ?thesis by (intro conjI exI [of _ "[]"]) auto
next
  case (Some body)
  obtain q l where p: "post env ''/api/v2/spot/trade/place-order'' (bx_body env body) lg = (q, l)" by fastforce
  note pl = post_log [OF p]
  show ?thesis
  proof (cases "\<exists>raw resp. q = Inr raw \<and> bx_place env raw = Some resp \<and> PrCode resp = ''00000''")
    case True
    then obtain raw resp where t: "q = Inr raw" "bx_place env raw = Some resp" "PrCode resp = ''00000''" by blast
    have w: "poll env (AcClientOrderID cmd) (PrOrderId resp) 6 0 l = (r, lg')"
      using assms by (simp add: PlaceOrder_def Some p t waitForFill_def)
    from poll_log [OF w] obtain qs where qs: "lg' = l @ qs" "length qs \<le> 6" "reads env qs"
      "\<forall>ex. r = Inr ex \<longrightarrow> AxClientOrderID ex = AcClientOrderID cmd" by blast
    from pl t(1) obtain x where x: "l = lg @ [x]" "rq_method x = ''POST''" "signed env x" "rq_body x = bx_body env body" by auto
    show ?thesis using qs x Some by (intro conjI exI [of _ "[x]"] exI [of _ qs]) auto
  next
    case False
    then have "isl r" "lg' = l"
      using assms by (auto simp: PlaceOrder_def Some p split: sum.splits option.splits if_splits)
    then show ?thesis using pl Some by (elim disjE exE) (intro conjI exI [of _ "[]"], auto, force)
  qed
qed

lemma GetBalances_log:
  assumes "GetBalances env lg = (r, lg')"
  shows "\<exists>qs. lg' = lg @ qs \<and> length qs \<le> 1 \<and> reads env qs"
proof -
  obtain q l where g: "get env ''/api/v2/spot/account/assets'' [] lg = (q, l)" by fastforce
  have "lg' = l" using assms by (auto simp: GetBalances_def g split: sum.splits option.splits if_splits)
  with get_log [OF g] show ?thesis by (auto simp: reads_def)
qed

text \<open>The request that places the order of a command: its body has the command's identifier, and as the
  size the amount of a buy or the quantity of a sell.\<close>

definition places :: "bitget_env \<Rightarrow> AgentCommand \<Rightarrow> http_request \<Rightarrow> bool" where
  "places env cmd q \<longleftrightarrow> rq_method q = ''POST'' \<and> signed env q \<and> (\<exists>body. rq_body q = bx_body env body \<and>
    body ''clientOid'' = Some (AcClientOrderID cmd) \<and>
    body ''size'' = Some (if AcAction cmd = ''BUY'' then AcAmountUSDT cmd else AcQtyAsset cmd))"

lemma order_posted:
  assumes "rq_method q = ''POST''" "signed env q" "map_option (bx_body env) (order_body cmd) = Some (rq_body q)"
  shows "places env cmd q"
proof -
  obtain body where b: "order_body cmd = Some body" "rq_body q = bx_body env body" using assms(3) by (cases "order_body cmd") auto
  have "body ''clientOid'' = Some (AcClientOrderID cmd)"
    "body ''size'' = Some (if AcAction cmd = ''BUY'' then AcAmountUSDT cmd else AcQtyAsset cmd)"
    using b(1) by (auto simp: order_body_def Let_def split: if_splits)
  then show ?thesis using assms(1,2) b(2) unfolding places_def by blast
qed

section \<open>Properties\<close>

text \<open>C19. Placing an order sends at most one order. For an action that is neither a buy nor a sell nothing
  is sent; otherwise at most one POST, whose body is the order's with the amount of a buy or the
  quantity of a sell as its size, then at most six polls, which only read; an execution is returned
  only after the POST went out, and it carries the identifier of the command. Every request is
  signed over exactly the time stamp, method, path, query and body it is sent with.\<close>

theorem order_placed_once:
  assumes "PlaceOrder env cmd lg = (r, lg')"
  shows "(AcAction cmd \<notin> {''BUY'', ''SELL''} \<longrightarrow> isl r \<and> lg' = lg) \<and>
    (\<exists>ps qs. lg' = lg @ ps @ qs \<and> length ps \<le> 1 \<and> length qs \<le> 6 \<and>
      (\<forall>q \<in> set ps. places env cmd q) \<and> reads env qs \<and> (\<not> isl r \<longrightarrow> length ps = 1)) \<and>
    (\<forall>ex. r = Inr ex \<longrightarrow> AxClientOrderID ex = AcClientOrderID cmd)"
proof -
  have n: "order_body cmd = None \<longleftrightarrow> AcAction cmd \<notin> {''BUY'', ''SELL''}" by (simp add: order_body_def Let_def)
  note l = PlaceOrder_log [OF assms, unfolded n]
  from l [THEN conjunct2, THEN conjunct1] obtain ps qs where q: "lg' = lg @ ps @ qs" "length ps \<le> 1" "length qs \<le> 6"
    "reads env qs" "\<not> isl r \<longrightarrow> length ps = 1"
    and ps: "\<forall>q \<in> set ps. rq_method q = ''POST'' \<and> signed env q \<and> map_option (bx_body env) (order_body cmd) = Some (rq_body q)"
    by blast
  have "\<forall>q \<in> set ps. places env cmd q" using ps order_posted by blast
  then have "lg' = lg @ ps @ qs \<and> length ps \<le> 1 \<and> length qs \<le> 6 \<and> (\<forall>q \<in> set ps. places env cmd q) \<and> reads env qs \<and>
      (\<not> isl r \<longrightarrow> length ps = 1)"
    using q by (intro conjI)
  then show ?thesis by (intro conjI exI) (use l in \<open>blast+\<close>)
qed

definition demo_command :: AgentCommand where
  "demo_command = \<lparr>AcClientOrderID = ''7-1-MICRO-BUY'', AcAction = ''BUY'', AcEngine = ''MICRO'', AcSymbol = ''BTC/USDT'',
     AcAmountUSDT = ''25.00'', AcQtyAsset = [], AcLotType = ''FLOATING''\<rparr>"

text \<open>An exchange that fills an order at the second poll.\<close>

definition demo_exchange :: bitget_env where
  "demo_exchange = \<lparr>bx_cfg = \<lparr>AgSaaSURL = ''https://saas/'', AgEmail = ''a'', AgPassword = ''b'',
       AgExchange = \<lparr>XcName = ''bitget'', XcAPIKey = ''k'', XcSecretKey = ''s'', XcPassphrase = ''p'', XcSandbox = True\<rparr>\<rparr>,
     bx_now = (\<lambda>_. 5), bx_mac = (\<lambda>k d. k @ ''/'' @ d), bx_url_ok = (\<lambda>_. True),
     bx_http = (\<lambda>n _. Some (if n = 1 then ''live'' else ''full_fill'')), bx_cancelled = (\<lambda>_. False),
     bx_body = (\<lambda>b. the (b ''side'') @ ''@'' @ the (b ''size'')),
     bx_place = (\<lambda>_. Some \<lparr>PrCode = ''00000'', PrMsg = [], PrOrderId = ''77''\<rparr>),
     bx_info = (\<lambda>raw. Some \<lparr>OrCode = ''00000'', OrMsg = [], OrStatus = raw, OrBaseVolume = ''1'', OrFillPrice = ''2'',
       OrTotalDeductedFee = ''3''\<rparr>),
     bx_assets = (\<lambda>_. None), bx_float = (\<lambda>_. 1)\<rparr>"

theorem order_placed_once_witness:
  "length (snd (PlaceOrder demo_exchange demo_command [])) = 3 \<and>
   places demo_exchange demo_command (hd (snd (PlaceOrder demo_exchange demo_command [])))"
proof -
  obtain r l where r: "PlaceOrder demo_exchange demo_command [] = (r, l)" by fastforce
  have l: "\<not> isl (fst (PlaceOrder demo_exchange demo_command [])) \<and> length (snd (PlaceOrder demo_exchange demo_command [])) = 3"
    by code_simp
  from order_placed_once [OF r, THEN conjunct2, THEN conjunct1] obtain ps qs where q: "l = [] @ ps @ qs"
    "\<forall>q \<in> set ps. places demo_exchange demo_command q" "\<not> isl r \<longrightarrow> length ps = 1" by blast
  have "length ps = 1" using l q(3) by (simp add: r)
  then have "hd l \<in> set ps" using q(1) by (cases ps) simp_all
  then show ?thesis using l q(2) by (simp add: r)
qed

end
