(* ===== verification/AgentClient.thy ===== *)
theory AgentClient
  imports Bitget "HOL-Library.Multiset" "HOL-Library.Sublist"
begin

text \<open>
  \<open>internal/agent/ws/client.go\<close>: the agent's connection to the service. A session is a step
  relation whose steps interleave the reader, the goroutine that writes, the heartbeat and one
  goroutine per command; the reconnect loop around the sessions is a function of the points at which
  the context is cancelled. The exchange is known through its interface, the locale \<open>exchange\<close>, which
  is interpreted on the Bitget client. Calls of the exchange are single steps. Taken from outside:
  the answers of the service, the JSON codecs (those of the program are in \<open>Wire\<close>), and which writes fail.
\<close>

section \<open>Messages\<close>

datatype agent_message = Auth string | Heartbeat | CommandAck string
  | DeltaReportMsg "AgentExecution option" "AgentBalance list" | CloseFrame

definition buildDeltaReport :: "AgentExecution option \<Rightarrow> AgentBalance list \<Rightarrow> agent_message" where
  "buildDeltaReport exec balances = DeltaReportMsg exec balances"

record agent_env =
  ae_cfg :: AgentConfig
  ae_url_ok :: "string \<Rightarrow> bool"
  ae_login_body :: "string \<Rightarrow> string \<Rightarrow> string"
  ae_login :: "string \<Rightarrow> string \<Rightarrow> (int \<times> string) option"
  ae_token :: "string \<Rightarrow> string option"
  ae_dial :: "string \<Rightarrow> bool"
  ae_auth_result :: "string \<Rightarrow> (string \<times> bool) option"
  ae_inbound :: "string \<Rightarrow> (string \<times> string) option"
  ae_command :: "string \<Rightarrow> AgentCommand option"

section \<open>Connecting\<close>

definition TrimRight :: "string \<Rightarrow> char \<Rightarrow> string" where
  "TrimRight s c = rev (dropWhile (\<lambda>x. x = c) (rev s))"

text \<open>\<open>strings.Replace\<close> with the count 1: the first occurrence.\<close>

fun replace_first :: "string \<Rightarrow> string \<Rightarrow> string \<Rightarrow> string" where
  "replace_first old new [] = (if old = [] then new else [])"
| "replace_first old new (c # s) = (if take (length old) (c # s) = old then new @ drop (length old) (c # s)
     else c # replace_first old new s)"

definition toWSURL :: "string \<Rightarrow> string" where
  "toWSURL u = (let u = TrimRight u (CHR ''/''); u = replace_first ''https://'' ''wss://'' u
     in replace_first ''http://'' ''ws://'' u)"

definition login :: "agent_env \<Rightarrow> go_error + string" where
  "login env = (let cfg = ae_cfg env; url = AgSaaSURL cfg @ ''/api/v1/auth/login'' in
     if \<not> ae_url_ok env url then Inl (Errorf ''request'')
     else case ae_login env url (ae_login_body env (AgEmail cfg) (AgPassword cfg)) of
       None \<Rightarrow> Inl (Wrapf ''http'' (Errorf ''do''))
     | Some (status, body) \<Rightarrow> if status \<noteq> 200 then Inl (Errorf (''login '' @ show_int status @ '': '' @ body))
         else (case ae_token env body of
           None \<Rightarrow> Inl (Wrapf ''decode token'' (Errorf ''json''))
         | Some token \<Rightarrow> if token = [] then Inl (Errorf ''empty token'') else Inr token))"

text \<open>The reader's answer to the message it waits for after the authentication: \<open>None\<close> to go on.\<close>

definition auth_error :: "agent_env \<Rightarrow> string option \<Rightarrow> go_error option" where
  "auth_error env raw = (case raw of None \<Rightarrow> Some (Wrapf ''read auth_result'' (Errorf ''read''))
   | Some r \<Rightarrow> (case ae_auth_result env r of
       None \<Rightarrow> Some (Errorf ''unexpected message waiting for auth_result'')
     | Some (ty, ok) \<Rightarrow> if ty \<noteq> ''auth_result'' then Some (Errorf ''unexpected message waiting for auth_result'')
         else if \<not> ok then Some (Errorf ''SaaS rejected auth'') else None))"

text \<open>The command of an inbound message; the other messages, and those that do not parse, are skipped.\<close>

definition inbound_command :: "agent_env \<Rightarrow> string \<Rightarrow> AgentCommand option" where
  "inbound_command env raw = (case ae_inbound env raw of None \<Rightarrow> None
   | Some (ty, payload) \<Rightarrow> if ty = ''command'' then ae_command env payload else None)"

section \<open>A session\<close>

text \<open>The interface \<open>exchange.Client\<close> over a world \<open>'w\<close>.\<close>

record 'w exchange_client =
  xc_place :: "AgentCommand \<Rightarrow> 'w \<Rightarrow> (go_error + AgentExecution) \<times> 'w"
  xc_balances :: "'w \<Rightarrow> (go_error + AgentBalance list) \<times> 'w"

text \<open>The goroutine of a session that runs \<open>session\<close> and \<open>readLoop\<close>, and the goroutines that report.\<close>

datatype reader = Opening string | Authenticating | Reading | Acking AgentCommand | Returned "go_error option"

datatype job = Snapshot | Place AgentCommand | Placed "AgentExecution option" | Report agent_message

record 'w session =
  se_live :: bool
  se_reader :: reader
  se_writer :: bool
  se_queue :: "agent_message list"
  se_written :: "agent_message list"
  se_jobs :: "job list"
  se_received :: "AgentCommand list"
  se_world :: 'w

definition open_session :: "agent_env \<Rightarrow> 'w \<Rightarrow> go_error + 'w session" where
  "open_session env w = (case login env of Inl e \<Rightarrow> Inl (Wrapf ''login'' e)
   | Inr token \<Rightarrow> (let url = toWSURL (AgSaaSURL (ae_cfg env)) @ ''/ws/agent'' in
       if \<not> ae_dial env url then Inl (Wrapf (''dial '' @ url) (Errorf ''dial''))
       else Inr \<lparr>se_live = True, se_reader = Opening token, se_writer = True, se_queue = [], se_written = [],
         se_jobs = [], se_received = [], se_world = w\<rparr>))"

text \<open>A send waits for room in the channel of capacity 64; in a cancelled session it may also be dropped.\<close>

inductive safeSend :: "bool \<Rightarrow> agent_message list \<Rightarrow> agent_message \<Rightarrow> agent_message list \<Rightarrow> bool" where
  sent: "length q < 64 \<Longrightarrow> safeSend live q m (q @ [m])"
| dropped: "safeSend False q m q"

definition executeAndReport :: "'w exchange_client \<Rightarrow> job \<Rightarrow> 'w \<Rightarrow> job \<times> 'w" where
  "executeAndReport xc j w = (let report = (\<lambda>exec w. case xc_balances xc w of
       (Inl e, w) \<Rightarrow> (Report (buildDeltaReport exec []), w) | (Inr balances, w) \<Rightarrow> (Report (buildDeltaReport exec balances), w))
     in case j of
       Snapshot \<Rightarrow> report None w
     | Place cmd \<Rightarrow> (case xc_place xc cmd w of (Inl e, w) \<Rightarrow> (Placed None, w) | (Inr ex, w) \<Rightarrow> (Placed (Some ex), w))
     | Placed exec \<Rightarrow> report exec w
     | Report m \<Rightarrow> (Report m, w))"

inductive session_step :: "'w exchange_client \<Rightarrow> agent_env \<Rightarrow> 'w session \<Rightarrow> 'w session \<Rightarrow> bool" for xc env where
  auth_sent: "se_reader s = Opening token \<Longrightarrow> safeSend (se_live s) (se_queue s) (Auth token) q \<Longrightarrow>
     session_step xc env s (s\<lparr>se_reader := Authenticating, se_queue := q\<rparr>)"
| auth_failed: "se_reader s = Authenticating \<Longrightarrow> auth_error env raw = Some e \<Longrightarrow>
     session_step xc env s (s\<lparr>se_reader := Returned (Some e), se_live := False\<rparr>)"
| authenticated: "se_reader s = Authenticating \<Longrightarrow> auth_error env raw = None \<Longrightarrow>
     session_step xc env s (s\<lparr>se_reader := Reading, se_jobs := se_jobs s @ [Snapshot]\<rparr>)"
| read_failed: "se_reader s = Reading \<Longrightarrow>
     session_step xc env s (s\<lparr>se_reader := Returned (if se_live s then Some (Wrapf ''read'' (Errorf ''read'')) else None), se_live := False\<rparr>)"
| skipped: "se_reader s = Reading \<Longrightarrow> inbound_command env raw = None \<Longrightarrow> session_step xc env s s"
| command: "se_reader s = Reading \<Longrightarrow> inbound_command env raw = Some cmd \<Longrightarrow>
     session_step xc env s (s\<lparr>se_reader := Acking cmd, se_received := se_received s @ [cmd]\<rparr>)"
| acked: "se_reader s = Acking cmd \<Longrightarrow> safeSend (se_live s) (se_queue s) (CommandAck (AcClientOrderID cmd)) q \<Longrightarrow>
     session_step xc env s (s\<lparr>se_reader := Reading, se_queue := q, se_jobs := se_jobs s @ [Place cmd]\<rparr>)"
| worked: "se_jobs s = js @ j # ks \<Longrightarrow> executeAndReport xc j (se_world s) = (j', w) \<Longrightarrow>
     session_step xc env s (s\<lparr>se_jobs := js @ j' # ks, se_world := w\<rparr>)"
| reported: "se_jobs s = js @ Report m # ks \<Longrightarrow> safeSend (se_live s) (se_queue s) m q \<Longrightarrow>
     session_step xc env s (s\<lparr>se_jobs := js @ ks, se_queue := q\<rparr>)"
| beat: "\<forall>token. se_reader s \<noteq> Opening token \<Longrightarrow> se_reader s \<noteq> Authenticating \<Longrightarrow>
     safeSend (se_live s) (se_queue s) Heartbeat q \<Longrightarrow> session_step xc env s (s\<lparr>se_queue := q\<rparr>)"
| written: "se_writer s \<Longrightarrow> se_queue s = m # q \<Longrightarrow>
     session_step xc env s (s\<lparr>se_queue := q, se_written := se_written s @ [m]\<rparr>)"
| write_failed: "se_writer s \<Longrightarrow> se_queue s = m # q \<Longrightarrow>
     session_step xc env s (s\<lparr>se_queue := q, se_writer := False, se_live := False\<rparr>)"
| closed: "se_writer s \<Longrightarrow> \<not> se_live s \<Longrightarrow> c \<in> {[], [CloseFrame]} \<Longrightarrow>
     session_step xc env s (s\<lparr>se_writer := False, se_written := se_written s @ c\<rparr>)"
| cancelled: "session_step xc env s (s\<lparr>se_live := False\<rparr>)"

section \<open>The reconnect loop\<close>

text \<open>Durations are in nanoseconds. The context is looked at three times per round; \<open>n\<close> bounds the
  rounds. The result: the pauses, the state after the last session, and whether the loop has returned.\<close>

definition second :: i64 where "second = 1000000000"
definition maxBackoff :: i64 where "maxBackoff = 5 * (60 * second)"

primrec Run_loop :: "(nat \<Rightarrow> bool) \<Rightarrow> (nat \<Rightarrow> 'w \<Rightarrow> 'w) \<Rightarrow> nat \<Rightarrow> nat \<Rightarrow> i64 \<Rightarrow> 'w \<Rightarrow> i64 list \<times> 'w \<times> bool" where
  "Run_loop ctx session 0 i backoff w = ([], w, False)"
| "Run_loop ctx session (Suc n) i backoff w =
     (if ctx (3 * i) then ([], w, True)
      else let w = session i w in
        if ctx (3 * i + 1) then ([], w, True)
        else if ctx (3 * i + 2) then ([backoff], w, True)
        else let doubled = backoff * 2; next_backoff = (if maxBackoff <s doubled then maxBackoff else doubled)
          in case Run_loop ctx session n (i + 1) next_backoff w of (ws, w, stopped) \<Rightarrow> (backoff # ws, w, stopped))"

definition Run_agent :: "(nat \<Rightarrow> bool) \<Rightarrow> (nat \<Rightarrow> 'w \<Rightarrow> 'w) \<Rightarrow> nat \<Rightarrow> 'w \<Rightarrow> i64 list \<times> 'w \<times> bool" where
  "Run_agent ctx session n w = Run_loop ctx session n 0 second w"

section \<open>What a session keeps\<close>

text \<open>The identifiers a message or a goroutine carries.\<close>

fun acks :: "agent_message \<Rightarrow> string list" where
  "acks (CommandAck k) = [k]"
| "acks _ = []"

fun executed :: "agent_message \<Rightarrow> string list" where
  "executed (DeltaReportMsg (Some ex) _) = [AxClientOrderID ex]"
| "executed _ = []"

fun job_ids :: "job \<Rightarrow> string list" where
  "job_ids (Place cmd) = [AcClientOrderID cmd]"
| "job_ids (Placed (Some ex)) = [AxClientOrderID ex]"
| "job_ids (Report m) = executed m"
| "job_ids _ = []"

fun to_place :: "job \<Rightarrow> nat" where
  "to_place (Place _) = 1"
| "to_place _ = 0"

text \<open>The messages a goroutine will report carry no acknowledgement.\<close>

fun quiet :: "job \<Rightarrow> bool" where
  "quiet (Report m) \<longleftrightarrow> acks m = []"
| "quiet _ \<longleftrightarrow> True"

definition acking :: "reader \<Rightarrow> AgentCommand list" where
  "acking r = (case r of Acking cmd \<Rightarrow> [cmd] | _ \<Rightarrow> [])"

lemma acking_simps [simp]: "acking (Opening t) = []" "acking Authenticating = []" "acking Reading = []"
  "acking (Acking cmd) = [cmd]" "acking (Returned e) = []"
  by (simp_all add: acking_def)

definition ids :: "AgentCommand list \<Rightarrow> string list" where
  "ids cmds = map AcClientOrderID cmds"

definition outbound :: "'w session \<Rightarrow> agent_message list" where
  "outbound s = se_written s @ se_queue s"

definition pending_ids :: "'w session \<Rightarrow> string multiset" where
  "pending_ids s = mset (concat (map executed (outbound s))) + mset (concat (map job_ids (se_jobs s))) +
     mset (ids (acking (se_reader s)))"

text \<open>The commands the reader has answered, and the message a connection opens with.\<close>

definition answered :: "'w session \<Rightarrow> AgentCommand list \<Rightarrow> bool" where
  "answered s cmds \<longleftrightarrow> se_received s = cmds @ acking (se_reader s)"

definition opens :: "reader \<Rightarrow> agent_message list \<Rightarrow> bool" where
  "opens r ms \<longleftrightarrow> (case r of Opening t \<Rightarrow> ms = [] | _ \<Rightarrow> ms \<noteq> [] \<and> (\<exists>t. hd ms = Auth t))"

lemma opens_append: "opens r ms \<Longrightarrow> \<nexists>t. r = Opening t \<Longrightarrow> opens r (ms @ [m])"
  by (cases r) (auto simp: opens_def)

lemma opens_other: "opens r ms \<Longrightarrow> \<nexists>t. r = Opening t \<Longrightarrow> \<nexists>t. r' = Opening t \<Longrightarrow> opens r' ms"
  by (cases r; cases r') (auto simp: opens_def)

definition session_ok :: "('w \<Rightarrow> nat) \<Rightarrow> nat \<Rightarrow> 'w session \<Rightarrow> bool" where
  "session_ok orders n0 s \<longleftrightarrow>
     orders (se_world s) + (\<Sum>j\<leftarrow>se_jobs s. to_place j) + length (acking (se_reader s)) \<le> n0 + length (se_received s) \<and>
     pending_ids s \<subseteq># mset (ids (se_received s)) \<and>
     (\<exists>cmds. answered s cmds \<and> subseq (concat (map acks (outbound s))) (ids cmds) \<and>
       (se_live s \<longrightarrow> concat (map acks (outbound s)) = ids cmds)) \<and>
     (\<forall>j \<in> set (se_jobs s). quiet j) \<and>
     ((\<exists>t. se_reader s = Opening t) \<longrightarrow> se_jobs s = []) \<and> (se_live s \<longrightarrow> opens (se_reader s) (outbound s))"

locale exchange =
  fixes xc :: "'w exchange_client" and orders :: "'w \<Rightarrow> nat"
  assumes place_at_most_one: "xc_place xc cmd w = (r, w') \<Longrightarrow> orders w' \<le> orders w + 1"
    and place_keeps_id: "xc_place xc cmd w = (Inr ex, w') \<Longrightarrow> AxClientOrderID ex = AcClientOrderID cmd"
    and balances_place_none: "xc_balances xc w = (b, w') \<Longrightarrow> orders w' = orders w"
begin

lemma job_keeps:
  assumes "executeAndReport xc j w = (j', w')"
  shows "orders w' + to_place j' \<le> orders w + to_place j \<and> mset (job_ids j') \<subseteq># mset (job_ids j) \<and> (quiet j \<longrightarrow> quiet j')"
proof (cases j)
  case (Place cmd)
  obtain r v where p: "xc_place xc cmd w = (r, v)" by fastforce
  have v: "v = w'" using assms by (cases r) (simp_all add: executeAndReport_def Place p)
  have o: "orders w' \<le> orders w + 1" using place_at_most_one [OF p] v by simp
  show ?thesis
  proof (cases r)
    case (Inl e)
    then show ?thesis using assms o by (simp add: executeAndReport_def Place p) auto
  next
    case (Inr ex)
    then have "j' = Placed (Some ex)" using assms by (simp add: executeAndReport_def Place p)
    moreover have "AxClientOrderID ex = AcClientOrderID cmd" by (rule place_keeps_id [OF p [unfolded Inr]])
    ultimately show ?thesis using o by (simp add: Place)
  qed
next
  case Snapshot
  obtain b v where b: "xc_balances xc w = (b, v)" by fastforce
  show ?thesis using assms balances_place_none [OF b]
    by (cases b) (auto simp: executeAndReport_def Snapshot b buildDeltaReport_def)
next
  case (Placed ex)
  obtain b v where b: "xc_balances xc w = (b, v)" by fastforce
  show ?thesis using assms balances_place_none [OF b]
    by (cases b; cases ex) (auto simp: executeAndReport_def Placed b buildDeltaReport_def)
next
  case (Report m)
  then show ?thesis using assms by (simp add: executeAndReport_def)
qed

text \<open>One goroutine's work, and a message leaving or entering the channel.\<close>

lemma worked_ok:
  assumes "session_ok orders n0 s" "se_jobs s = js @ j # ks" "executeAndReport xc j (se_world s) = (j', w)"
  shows "session_ok orders n0 (s\<lparr>se_jobs := js @ j' # ks, se_world := w\<rparr>)"
proof -
  note k = job_keeps [OF assms(3)]
  have "mset (concat (map job_ids (js @ j' # ks))) \<subseteq># mset (concat (map job_ids (js @ j # ks)))"
    using k by (simp add: subset_mset.add_mono)
  then have p: "pending_ids (s\<lparr>se_jobs := js @ j' # ks, se_world := w\<rparr>) \<subseteq># pending_ids s"
    by (simp add: pending_ids_def outbound_def assms(2))
  have "pending_ids s \<subseteq># mset (ids (se_received s))" using assms(1) by (simp add: session_ok_def)
  with p have "pending_ids (s\<lparr>se_jobs := js @ j' # ks, se_world := w\<rparr>) \<subseteq># mset (ids (se_received s))" by (rule subset_mset.trans)
  moreover have "outbound (s\<lparr>se_jobs := js @ j' # ks, se_world := w\<rparr>) = outbound s" by (simp add: outbound_def)
  ultimately show ?thesis using assms(1,2) k by (auto simp: session_ok_def answered_def)
qed

end

lemma safeSend_cases2:
  assumes "safeSend live q m q'"
  obtains (queued) "q' = q @ [m]" | (gone) "\<not> live" "q' = q"
  using assms by (cases rule: safeSend.cases) auto

lemma quiet_acks: "quiet (Report m) \<Longrightarrow> acks m = []"
  by simp

lemma reported_ok:
  assumes "session_ok orders n0 s" "se_jobs s = js @ Report m # ks" "safeSend (se_live s) (se_queue s) m q"
  shows "session_ok orders n0 (s\<lparr>se_jobs := js @ ks, se_queue := q\<rparr>)"
proof -
  have m: "acks m = []" using assms(1,2) by (auto simp: session_ok_def)
  have n: "\<nexists>t. se_reader s = Opening t" using assms(1,2) by (auto simp: session_ok_def)
  from assms(3) show ?thesis
  proof (cases rule: safeSend_cases2)
    case queued
    have "pending_ids (s\<lparr>se_jobs := js @ ks, se_queue := q\<rparr>) = pending_ids s"
      by (simp add: pending_ids_def outbound_def assms(2) queued)
    moreover have "outbound (s\<lparr>se_jobs := js @ ks, se_queue := q\<rparr>) = outbound s @ [m]" by (simp add: outbound_def queued)
    ultimately show ?thesis using assms(1,2) m n opens_append [of "se_reader s" "outbound s" m]
      by (auto simp: session_ok_def answered_def)
  next
    case gone
    have "pending_ids (s\<lparr>se_jobs := js @ ks, se_queue := q\<rparr>) \<subseteq># pending_ids s"
      by (simp add: pending_ids_def outbound_def assms(2) gone)
    moreover have "pending_ids s \<subseteq># mset (ids (se_received s))" using assms(1) by (simp add: session_ok_def)
    ultimately have "pending_ids (s\<lparr>se_jobs := js @ ks, se_queue := q\<rparr>) \<subseteq># mset (ids (se_received s))"
      by (rule subset_mset.trans)
    moreover have "outbound (s\<lparr>se_jobs := js @ ks, se_queue := q\<rparr>) = outbound s" by (simp add: outbound_def gone)
    ultimately show ?thesis using assms(1,2) gone by (auto simp: session_ok_def answered_def)
  qed
qed

lemma acked_ok:
  assumes "session_ok orders n0 s" "se_reader s = Acking cmd" "safeSend (se_live s) (se_queue s) (CommandAck (AcClientOrderID cmd)) q"
  shows "session_ok orders n0 (s\<lparr>se_reader := Reading, se_queue := q, se_jobs := se_jobs s @ [Place cmd]\<rparr>)"
proof -
  let ?s = "s\<lparr>se_reader := Reading, se_queue := q, se_jobs := se_jobs s @ [Place cmd]\<rparr>"
  obtain cmds where c: "se_received s = cmds @ [cmd]" "subseq (concat (map acks (outbound s))) (ids cmds)"
    "se_live s \<longrightarrow> concat (map acks (outbound s)) = ids cmds"
    using assms(1,2) by (auto simp: session_ok_def answered_def)
  have a: "answered ?s (cmds @ [cmd])" using c by (simp add: answered_def)
  from assms(3) have p: "pending_ids ?s = pending_ids s"
    by (cases rule: safeSend_cases2) (simp_all add: pending_ids_def outbound_def assms(2) ids_def)
  have q: "subseq (concat (map acks (outbound ?s))) (ids (cmds @ [cmd])) \<and>
      (se_live ?s \<longrightarrow> concat (map acks (outbound ?s)) = ids (cmds @ [cmd]) \<and> opens (se_reader ?s) (outbound ?s))"
    using assms(3)
  proof (cases rule: safeSend_cases2)
    case queued
    have o: "outbound ?s = outbound s @ [CommandAck (AcClientOrderID cmd)]" by (simp add: outbound_def queued)
    have "se_live s \<longrightarrow> opens Reading (outbound s @ [CommandAck (AcClientOrderID cmd)])"
      using assms(1,2) by (auto simp: session_ok_def intro!: opens_append opens_other [of "Acking cmd"])
    then show ?thesis unfolding o using c by (simp add: ids_def list_emb_append_mono)
  next
    case gone
    have o: "outbound ?s = outbound s" by (simp add: outbound_def gone)
    show ?thesis unfolding o using c gone(1) by (simp add: ids_def subseq_rev_drop_many)
  qed
  from assms(1) have "orders (se_world ?s) + (\<Sum>j\<leftarrow>se_jobs ?s. to_place j) + length (acking (se_reader ?s)) \<le> n0 + length (se_received ?s)"
    by (simp add: session_ok_def assms(2))
  moreover have "pending_ids ?s \<subseteq># mset (ids (se_received ?s))" using assms(1) p by (simp add: session_ok_def)
  moreover have "\<forall>j \<in> set (se_jobs ?s). quiet j" using assms(1) by (auto simp: session_ok_def)
  ultimately show ?thesis using a q unfolding session_ok_def by (intro conjI exI [of _ "cmds @ [cmd]"]) simp_all
qed

lemma write_failed_ok:
  assumes "session_ok orders n0 s" "se_queue s = m # q"
  shows "session_ok orders n0 (s\<lparr>se_queue := q, se_writer := False, se_live := False\<rparr>)"
proof -
  let ?s = "s\<lparr>se_queue := q, se_writer := False, se_live := False\<rparr>"
  obtain cmds where c: "answered s cmds" "subseq (concat (map acks (outbound s))) (ids cmds)"
    using assms(1) by (auto simp: session_ok_def)
  have "subseq (concat (map acks (outbound ?s))) (concat (map acks (outbound s)))"
    by (simp add: outbound_def assms(2)) (intro list_emb_append_mono subseq_drop_many subseq_order.refl)
  then have "subseq (concat (map acks (outbound ?s))) (ids cmds)" using c(2) by (rule subseq_order.trans)
  moreover have "pending_ids ?s \<subseteq># mset (ids (se_received s))"
  proof -
    have "pending_ids ?s \<subseteq># pending_ids s" by (simp add: pending_ids_def outbound_def assms(2))
    moreover have "pending_ids s \<subseteq># mset (ids (se_received s))" using assms(1) by (simp add: session_ok_def)
    ultimately show ?thesis by (rule subset_mset.trans)
  qed
  ultimately show ?thesis using assms(1) c(1) unfolding session_ok_def by (auto simp: answered_def)
qed

lemma session_ok_dead: "session_ok orders n0 s \<Longrightarrow> session_ok orders n0 (s\<lparr>se_live := False\<rparr>)"
  by (auto simp: session_ok_def answered_def pending_ids_def outbound_def)

context exchange begin

lemma session_step_ok:
  assumes "session_step xc env s t" "session_ok orders n0 s"
  shows "session_ok orders n0 t"
  using assms(1)
proof (cases rule: session_step.cases)
  case (auth_sent token q)
  then show ?thesis using assms(2)
    by (auto simp: session_ok_def answered_def pending_ids_def outbound_def opens_def elim!: safeSend_cases2)
next
  case (auth_failed raw e)
  then show ?thesis using assms(2) by (simp add: session_ok_def answered_def pending_ids_def outbound_def)
next
  case (authenticated raw)
  then show ?thesis using assms(2) by (simp add: session_ok_def answered_def pending_ids_def outbound_def opens_def)
next
  case read_failed
  then show ?thesis using assms(2) by (simp add: session_ok_def answered_def pending_ids_def outbound_def)
next
  case (skipped raw)
  then show ?thesis using assms(2) by simp
next
  case (command raw cmd)
  let ?t = "s\<lparr>se_reader := Acking cmd, se_received := se_received s @ [cmd]\<rparr>"
  have "pending_ids ?t = pending_ids s + {#AcClientOrderID cmd#}"
    by (simp add: pending_ids_def outbound_def command(2) ids_def)
  moreover have "outbound ?t = outbound s" by (simp add: outbound_def)
  ultimately show ?thesis using assms(2) command opens_other [of "se_reader s" "outbound s" "Acking cmd"]
    by (auto simp: session_ok_def answered_def ids_def)
next
  case (acked cmd q)
  then show ?thesis using acked_ok [OF assms(2)] by simp
next
  case (worked js j ks j' w)
  then show ?thesis using worked_ok [OF assms(2)] by simp
next
  case (reported js m ks q)
  then show ?thesis using reported_ok [OF assms(2)] by simp
next
  case (beat q)
  have o: "outbound t = outbound s \<and> \<not> se_live s \<or> outbound t = outbound s @ [Heartbeat]"
    using beat(4) by (cases rule: safeSend_cases2) (simp_all add: beat(1) outbound_def)
  then have "pending_ids t = pending_ids s \<and> concat (map acks (outbound t)) = concat (map acks (outbound s))"
    by (auto simp: pending_ids_def beat(1))
  then show ?thesis using assms(2) o opens_append [of "se_reader s" "outbound s" Heartbeat] beat
    by (auto simp: session_ok_def answered_def)
next
  case (written m q)
  have "outbound t = outbound s" by (simp add: outbound_def written)
  then show ?thesis using assms(2) by (simp add: session_ok_def answered_def pending_ids_def written(1))
next
  case (write_failed m q)
  then show ?thesis using write_failed_ok [OF assms(2)] by simp
next
  case (closed c)
  then have c: "concat (map acks c) = []" "concat (map executed c) = []" by auto
  then have "pending_ids t = pending_ids s \<and> concat (map acks (outbound t)) = concat (map acks (outbound s))"
    by (simp add: pending_ids_def closed(1) outbound_def)
  then show ?thesis using assms(2) closed by (simp add: session_ok_def answered_def)
next
  case cancelled
  then show ?thesis using session_ok_dead [OF assms(2)] by simp
qed

lemma session_steps_ok: "(session_step xc env)\<^sup>*\<^sup>* s t \<Longrightarrow> session_ok orders n0 s \<Longrightarrow> session_ok orders n0 t"
  by (induction rule: rtranclp_induct) (auto intro: session_step_ok)

end

lemma open_session_ok: "open_session env w = Inr s \<Longrightarrow> session_ok orders (orders w) s"
  by (auto simp: open_session_def session_ok_def answered_def pending_ids_def outbound_def opens_def ids_def Let_def
      split: sum.splits if_splits)

section \<open>The exchange of the program\<close>

definition BitgetClient :: "bitget_env \<Rightarrow> net exchange_client" where
  "BitgetClient env = \<lparr>xc_place = PlaceOrder env, xc_balances = GetBalances env\<rparr>"

definition posted :: "net \<Rightarrow> nat" where
  "posted lg = length (filter (\<lambda>q. rq_method q = ''POST'') lg)"

lemma posted_simps [simp]: "posted [] = 0" "posted (xs @ ys) = posted xs + posted ys"
  by (simp_all add: posted_def)

lemma posted_reads: "reads env qs \<Longrightarrow> posted qs = 0"
  by (auto simp: posted_def reads_def filter_empty_conv)

lemma posted_PlaceOrder:
  assumes "PlaceOrder env cmd lg = (r, lg')"
  shows "posted lg' \<le> posted lg + 1"
proof -
  from PlaceOrder_log [OF assms, THEN conjunct2, THEN conjunct1] obtain ps qs
    where q: "lg' = lg @ ps @ qs" "length ps \<le> 1" "reads env qs" by blast
  have "posted ps \<le> length ps" by (simp add: posted_def)
  then show ?thesis using q posted_reads [OF q(3)] by simp
qed

lemma posted_GetBalances: "GetBalances env lg = (r, lg') \<Longrightarrow> posted lg' = posted lg"
  using GetBalances_log posted_reads by fastforce

interpretation bitget: exchange "BitgetClient env" posted for env
  by unfold_locales
    (auto simp: BitgetClient_def posted_GetBalances intro: posted_PlaceOrder [simplified] dest: PlaceOrder_log)

section \<open>The pauses\<close>

lemma next_backoff:
  assumes "sint b = min (2 ^ k * 1000000000) 300000000000"
  shows "sint (if maxBackoff <s b * 2 then maxBackoff else b * 2) = min (2 ^ Suc k * 1000000000) 300000000000"
proof -
  have m: "sint maxBackoff = 300000000000" by (simp add: maxBackoff_def second_def)
  have b: "0 \<le> sint b \<and> sint b \<le> 300000000000" using assms by simp
  have w: "b * 2 = word_of_int (sint b * 2)" by (simp only: of_int_mult of_int_sint) simp
  have "sint (word_of_int (sint b * 2) :: i64) = sint b * 2" by (rule sint64_of_int) (use b in simp_all)
  then have "sint (b * 2) = sint b * 2" by (simp only: w)
  then show ?thesis using assms by (simp add: word_sless_alt m min_def)
qed

lemma Run_loop_waits:
  "sint b = min (2 ^ i * 1000000000) 300000000000 \<Longrightarrow> Run_loop ctx session n i b w = (ws, w', stopped) \<Longrightarrow>
     (\<forall>k < length ws. sint (ws ! k) = min (2 ^ (i + k) * 1000000000) 300000000000) \<and>
     (stopped \<longleftrightarrow> (\<exists>j. 3 * i \<le> j \<and> j < 3 * (i + n) \<and> ctx j)) \<and> (\<not> stopped \<longrightarrow> length ws = n)"
proof (induction n arbitrary: i b w ws w' stopped)
  case 0
  then show ?case by auto
next
  case (Suc n)
  have later: "(\<exists>j. 3 * i \<le> j \<and> j < 3 * (i + Suc n) \<and> ctx j) \<longleftrightarrow> (\<exists>j. 3 * (i + 1) \<le> j \<and> j < 3 * (i + 1 + n) \<and> ctx j)"
    if "\<not> ctx (3 * i)" "\<not> ctx (3 * i + 1)" "\<not> ctx (3 * i + 2)"
  proof -
    have "3 * (i + 1) \<le> j" if "3 * i \<le> j" "ctx j" for j
    proof -
      have "j \<noteq> 3 * i" "j \<noteq> 3 * i + 1" "j \<noteq> 3 * i + 2" using that \<open>\<not> ctx (3 * i)\<close> \<open>\<not> ctx (3 * i + 1)\<close> \<open>\<not> ctx (3 * i + 2)\<close> by auto
      then show ?thesis using that(1) by arith
    qed
    then show ?thesis by (intro iff_exI) auto
  qed
  consider (before) "ctx (3 * i)" | (after) "\<not> ctx (3 * i)" "ctx (3 * i + 1)"
    | (pause) "\<not> ctx (3 * i)" "\<not> ctx (3 * i + 1)" "ctx (3 * i + 2)"
    | (round) "\<not> ctx (3 * i)" "\<not> ctx (3 * i + 1)" "\<not> ctx (3 * i + 2)" by blast
  then show ?case
  proof cases
    case before
    then have "ws = []" "stopped" using Suc.prems(2) by simp_all
    then show ?thesis using before by (auto intro!: exI [of _ "3 * i"])
  next
    case after
    then have "ws = []" "stopped" using Suc.prems(2) by (simp_all add: Let_def)
    then show ?thesis using after by (auto intro!: exI [of _ "3 * i + 1"])
  next
    case pause
    then have "ws = [b]" "stopped" using Suc.prems(2) by (simp_all add: Let_def)
    then show ?thesis using pause Suc.prems(1) by (auto intro!: exI [of _ "3 * i + 2"])
  next
    case round
    let ?b = "if maxBackoff <s b * 2 then maxBackoff else b * 2"
    obtain us v st where r: "Run_loop ctx session n (i + 1) ?b (session i w) = (us, v, st)" by (metis prod.exhaust)
    then have e: "ws = b # us" "stopped = st" using Suc.prems(2) round by (simp_all add: Let_def)
    from next_backoff [OF Suc.prems(1)] have nb: "sint ?b = min (2 ^ (i + 1) * 1000000000) 300000000000" by simp
    from Suc.IH [OF nb r] have h: "\<forall>k < length us. sint (us ! k) = min (2 ^ (i + 1 + k) * 1000000000) 300000000000"
      "st \<longleftrightarrow> (\<exists>j. 3 * (i + 1) \<le> j \<and> j < 3 * (i + 1 + n) \<and> ctx j)" "\<not> st \<longrightarrow> length us = n" by blast+
    have "\<forall>k < length ws. sint (ws ! k) = min (2 ^ (i + k) * 1000000000) 300000000000"
      using h(1) Suc.prems(1) e(1) by (auto simp: nth_Cons split: nat.split)
    then show ?thesis using h(2,3) e later [OF round] by simp
  qed
qed

section \<open>Properties\<close>

text \<open>C8. The agent acknowledges before it trades and trades at most once per command. In a session on
  Bitget, under every interleaving of its goroutines, lost writes and cancellations included: the
  orders posted are at most the commands read; every report of an execution stems from a command of
  its own, since the identifiers reported (counted with their multiplicity) are among those read;
  the acknowledgements queued are, in the order read, among the commands the reader has dealt with, and
  while the session lives they are exactly these, so that no order is posted whose command has not
  been acknowledged first; and the connection opens with the authentication.\<close>

theorem agent_acks_and_executes:
  assumes "open_session env lg = Inr s0" "(session_step (BitgetClient xenv) env)\<^sup>*\<^sup>* s0 s"
  shows "posted (se_world s) \<le> posted lg + length (se_received s) \<and>
    mset (concat (map executed (outbound s))) \<subseteq># mset (ids (se_received s)) \<and>
    subseq (concat (map acks (outbound s))) (ids (se_received s)) \<and>
    (se_live s \<longrightarrow> ids (se_received s) = concat (map acks (outbound s)) @ ids (acking (se_reader s)) \<and>
      posted (se_world s) \<le> posted lg + length (concat (map acks (outbound s))) \<and>
      (outbound s \<noteq> [] \<longrightarrow> (\<exists>token. hd (outbound s) = Auth token)))"
proof -
  have ok: "session_ok posted (posted lg) s"
    by (rule bitget.session_steps_ok [OF assms(2) open_session_ok [OF assms(1)]])
  have p: "posted (se_world s) + length (acking (se_reader s)) \<le> posted lg + length (se_received s)"
    and m: "pending_ids s \<subseteq># mset (ids (se_received s))"
    and o: "se_live s \<longrightarrow> opens (se_reader s) (outbound s)"
    using ok by (auto simp: session_ok_def)
  obtain cmds where c: "se_received s = cmds @ acking (se_reader s)" "subseq (concat (map acks (outbound s))) (ids cmds)"
    "se_live s \<longrightarrow> concat (map acks (outbound s)) = ids cmds"
    using ok by (auto simp: session_ok_def answered_def)
  have "mset (concat (map executed (outbound s))) \<subseteq># pending_ids s"
    unfolding pending_ids_def add.assoc by (rule mset_subset_eq_add_left)
  then have e: "mset (concat (map executed (outbound s))) \<subseteq># mset (ids (se_received s))" using m by (rule subset_mset.trans)
  have q: "subseq (concat (map acks (outbound s))) (ids (se_received s))"
    using c(2) by (simp add: c(1) ids_def subseq_rev_drop_many)
  have t: "outbound s \<noteq> [] \<longrightarrow> (\<exists>token. hd (outbound s) = Auth token)" if "se_live s"
    using o that by (auto simp: opens_def split: reader.splits)
  have l: "length (ids cmds) = length cmds" by (simp add: ids_def)
  have "ids (se_received s) = concat (map acks (outbound s)) @ ids (acking (se_reader s))" if "se_live s"
    using c(1,3) that by (simp add: ids_def)
  moreover have "posted (se_world s) \<le> posted lg + length (concat (map acks (outbound s)))" if "se_live s"
    using p c(1,3) that l by simp
  ultimately show ?thesis using p e q t by simp
qed

text \<open>A service that accepts the agent and sends one command.\<close>

definition demo_agent :: agent_env where
  "demo_agent = \<lparr>ae_cfg = bx_cfg demo_exchange, ae_url_ok = (\<lambda>_. True), ae_login_body = (@),
     ae_login = (\<lambda>_ _. Some (200, ''{}'')), ae_token = (\<lambda>_. Some ''jwt''), ae_dial = (\<lambda>url. url = ''wss://saas/ws/agent''),
     ae_auth_result = (\<lambda>_. Some (''auth_result'', True)), ae_inbound = (\<lambda>raw. Some (''command'', raw)),
     ae_command = (\<lambda>_. Some demo_command)\<rparr>"

definition demo_start :: "net session" where
  "demo_start = \<lparr>se_live = True, se_reader = Opening ''jwt'', se_writer = True, se_queue = [], se_written = [],
     se_jobs = [], se_received = [], se_world = []\<rparr>"

lemma demo_login: "login demo_agent = Inr ''jwt'' \<and> ae_dial demo_agent (toWSURL (AgSaaSURL (ae_cfg demo_agent)) @ ''/ws/agent'')"
  by code_simp

lemma demo_open: "open_session demo_agent [] = Inr demo_start"
  using demo_login by (simp add: open_session_def demo_start_def Let_def)

lemma demo_trade:
  assumes "PlaceOrder demo_exchange demo_command [] = (Inr ex, l)"
  shows "(session_step (BitgetClient demo_exchange) demo_agent)\<^sup>*\<^sup>* demo_start
    (demo_start\<lparr>se_reader := Reading, se_queue := [Auth ''jwt'', CommandAck (AcClientOrderID demo_command)],
      se_jobs := [Snapshot, Placed (Some ex)], se_received := [demo_command], se_world := l\<rparr>)"
proof -
  let ?step = "session_step (BitgetClient demo_exchange) demo_agent"
  let ?s1 = "demo_start\<lparr>se_reader := Authenticating, se_queue := [Auth ''jwt'']\<rparr>"
  let ?s2 = "?s1\<lparr>se_reader := Reading, se_jobs := [Snapshot]\<rparr>"
  let ?s3 = "?s2\<lparr>se_reader := Acking demo_command, se_received := [demo_command]\<rparr>"
  let ?s4 = "?s3\<lparr>se_reader := Reading, se_queue := [Auth ''jwt'', CommandAck (AcClientOrderID demo_command)],
    se_jobs := [Snapshot, Place demo_command]\<rparr>"
  have 1: "?step demo_start ?s1" using session_step.auth_sent [of demo_start "''jwt''" "[Auth ''jwt'']"] safeSend.sent [of "[]"] by (simp add: demo_start_def)
  have 2: "?step ?s1 ?s2" using session_step.authenticated [of ?s1 demo_agent "Some []"]
    by (simp add: demo_start_def auth_error_def demo_agent_def)
  have 3: "?step ?s2 ?s3" using session_step.command [of ?s2 demo_agent "[]" demo_command]
    by (simp add: demo_start_def inbound_command_def demo_agent_def)
  have 4: "?step ?s3 ?s4"
    using session_step.acked [of ?s3 demo_command "[Auth ''jwt'', CommandAck (AcClientOrderID demo_command)]"]
      safeSend.sent [of "[Auth ''jwt'']"] by (simp add: demo_start_def)
  have e: "executeAndReport (BitgetClient demo_exchange) (Place demo_command) [] = (Placed (Some ex), l)"
    by (simp add: executeAndReport_def BitgetClient_def assms)
  have 5: "?step ?s4 (?s4\<lparr>se_jobs := [Snapshot, Placed (Some ex)], se_world := l\<rparr>)"
    using session_step.worked [of ?s4 "[Snapshot]" "Place demo_command" "[]" "BitgetClient demo_exchange" "Placed (Some ex)" l] e
    by (simp add: demo_start_def)
  have "?step\<^sup>*\<^sup>* demo_start (?s4\<lparr>se_jobs := [Snapshot, Placed (Some ex)], se_world := l\<rparr>)"
    using 1 2 3 4 5 by (meson converse_rtranclp_into_rtranclp rtranclp.rtrancl_refl)
  then show ?thesis by (simp add: demo_start_def)
qed

lemma demo_fill: "\<not> isl (fst (PlaceOrder demo_exchange demo_command [])) \<and> posted (snd (PlaceOrder demo_exchange demo_command [])) = 1"
  by code_simp

theorem agent_acks_and_executes_witness:
  "\<exists>s0 s. open_session demo_agent [] = Inr s0 \<and> (session_step (BitgetClient demo_exchange) demo_agent)\<^sup>*\<^sup>* s0 s \<and>
     posted (se_world s) = 1 \<and> concat (map acks (outbound s)) = [''7-1-MICRO-BUY'']"
proof -
  obtain r l where p: "PlaceOrder demo_exchange demo_command [] = (r, l)" by fastforce
  with demo_fill obtain ex where r: "r = Inr ex" by (cases r) simp_all
  let ?s = "demo_start\<lparr>se_reader := Reading, se_queue := [Auth ''jwt'', CommandAck (AcClientOrderID demo_command)],
      se_jobs := [Snapshot, Placed (Some ex)], se_received := [demo_command], se_world := l\<rparr>"
  have d: "(session_step (BitgetClient demo_exchange) demo_agent)\<^sup>*\<^sup>* demo_start ?s" by (rule demo_trade [OF p [unfolded r]])
  have "posted (se_world ?s) = 1" using demo_fill p by simp
  moreover have "concat (map acks (outbound ?s)) = ids (se_received ?s)"
    using agent_acks_and_executes [OF demo_open d] by (simp add: demo_start_def ids_def [of "[]"])
  then have "concat (map acks (outbound ?s)) = [''7-1-MICRO-BUY'']" by (simp add: ids_def demo_command_def)
  ultimately show ?thesis using demo_open d by blast
qed

text \<open>The pauses between the attempts to connect double from one second to five minutes, in 64-bit
  arithmetic that never overflows, and the loop returns exactly when it meets a cancelled context.\<close>

theorem reconnect_backoff:
  assumes "Run_agent ctx session n w = (ws, w', stopped)"
  shows "(\<forall>k < length ws. sint (ws ! k) = min (2 ^ k * 1000000000) 300000000000) \<and>
    (stopped \<longleftrightarrow> (\<exists>j < 3 * n. ctx j)) \<and> (\<not> stopped \<longrightarrow> length ws = n)"
  using Run_loop_waits [of second 0 ctx session n w ws w' stopped] assms by (simp add: Run_agent_def second_def)

theorem reconnect_backoff_witness:
  "map sint (fst (Run_agent (\<lambda>j. j = 32) (\<lambda>_. Suc) 100 (0 :: nat))) = [1000000000, 2000000000, 4000000000, 8000000000,
     16000000000, 32000000000, 64000000000, 128000000000, 256000000000, 300000000000, 300000000000] \<and>
   snd (snd (Run_agent (\<lambda>j. j = 32) (\<lambda>_. Suc) 100 (0 :: nat)))"
proof -
  obtain ws w st where r: "Run_agent (\<lambda>j. j = 32) (\<lambda>_. Suc) 100 (0 :: nat) = (ws, w, st)" by (metis prod.exhaust)
  have l: "length (fst (Run_agent (\<lambda>j. j = 32) (\<lambda>_. Suc) 100 (0 :: nat))) = 11" by code_simp
  have "map sint ws = map (\<lambda>k. min (2 ^ k * 1000000000) 300000000000) [0..<11]"
    using reconnect_backoff [OF r] l by (intro nth_equalityI) (simp_all add: r)
  then have "map sint ws = [1000000000, 2000000000, 4000000000, 8000000000, 16000000000, 32000000000, 64000000000,
     128000000000, 256000000000, 300000000000, 300000000000]" by (simp add: upt_rec)
  moreover have st using reconnect_backoff [OF r] by (auto intro: exI [of _ 32])
  ultimately show ?thesis by (simp add: r)
qed

end
