(* ===== verification/Json.thy ===== *)
theory Json
  imports GoLib "HOL-Library.Monad_Syntax"
begin

text \<open>
  What the program uses of \<open>encoding/json\<close>: a text is scanned as a sequence of bytes, the members of
  an object and the elements of an array come out as the texts of their values (a \<open>json.RawMessage\<close>),
  and strings are unquoted and quoted with the escapes of the package, which replaces bytes that are not
  UTF-8 by the replacement character. Objects are written compactly. The limit of the package on the
  nesting depth, 10000, is not modelled.
\<close>

section \<open>Scanning\<close>

definition code :: "char \<Rightarrow> nat" where
  "code c = of_char c"

definition is_ws :: "char \<Rightarrow> bool" where
  "is_ws c \<longleftrightarrow> c \<in> set [CHR '' '', CHR 0x09, CHR 0x0A, CHR 0x0D]"

definition ws :: "string \<Rightarrow> string" where
  "ws s = dropWhile is_ws s"

text \<open>The next byte after white space, when it is \<open>x\<close>.\<close>

definition eat :: "char \<Rightarrow> string \<Rightarrow> string option" where
  "eat x s = (case ws s of [] \<Rightarrow> None | c # r \<Rightarrow> if c = x then Some r else None)"

definition hex :: "char \<Rightarrow> nat option" where
  "hex c = (let n = code c in if 48 \<le> n \<and> n \<le> 57 then Some (n - 48)
     else if 97 \<le> n \<and> n \<le> 102 then Some (n - 87) else if 65 \<le> n \<and> n \<le> 70 then Some (n - 55) else None)"

definition hex4 :: "string \<Rightarrow> nat option" where
  "hex4 s = (case s of a # b # c # d # _ \<Rightarrow> do { a \<leftarrow> hex a; b \<leftarrow> hex b; c \<leftarrow> hex c; d \<leftarrow> hex d;
     Some (((a * 16 + b) * 16 + c) * 16 + d) } | _ \<Rightarrow> None)"

definition escapes :: "(char \<times> char) list" where
  "escapes = [(CHR 0x22, CHR 0x22), (CHR 0x5C, CHR 0x5C), (CHR ''/'', CHR ''/''), (CHR ''b'', CHR 0x08),
     (CHR ''f'', CHR 0x0C), (CHR ''n'', CHR 0x0A), (CHR ''r'', CHR 0x0D), (CHR ''t'', CHR 0x09)]"

text \<open>After an opening quote: the text after the closing one.\<close>

function str_end :: "string \<Rightarrow> string option" where
  "str_end [] = None"
| "str_end (c # s) = (if c = CHR 0x22 then Some s
     else if c = CHR 0x5C then (case s of [] \<Rightarrow> None
       | e # t \<Rightarrow> if e = CHR ''u'' then (if hex4 t = None then None else str_end (drop 4 t))
           else if e \<in> fst ` set escapes then str_end t else None)
     else if code c < 32 then None else str_end s)"
  by pat_completeness auto
termination
  by (relation "measure length") auto

definition is_digit :: "char \<Rightarrow> bool" where
  "is_digit c \<longleftrightarrow> 48 \<le> code c \<and> code c \<le> 57"

definition digits :: "string \<Rightarrow> string \<times> string" where
  "digits s = (takeWhile is_digit s, dropWhile is_digit s)"

text \<open>The parts of a number, and the text after it: the sign, the digits before and after the point, the
  exponent.\<close>

record number =
  nm_neg :: bool
  nm_whole :: string
  nm_frac :: string
  nm_exp :: int

definition opt_char :: "char \<Rightarrow> string \<Rightarrow> bool \<times> string" where
  "opt_char c s = (case s of [] \<Rightarrow> (False, s) | x # r \<Rightarrow> if x = c then (True, r) else (False, s))"

definition scan_whole :: "string \<Rightarrow> (string \<times> string) option" where
  "scan_whole s = (case opt_char (CHR ''0'') s of (True, r) \<Rightarrow> Some (''0'', r)
   | (False, _) \<Rightarrow> (case digits s of (ds, r) \<Rightarrow> if ds = [] then None else Some (ds, r)))"

definition scan_frac :: "string \<Rightarrow> (string \<times> string) option" where
  "scan_frac s = (case opt_char (CHR ''.'') s of (False, _) \<Rightarrow> Some ([], s)
   | (True, r) \<Rightarrow> (case digits r of (ds, r) \<Rightarrow> if ds = [] then None else Some (ds, r)))"

definition scan_exp :: "string \<Rightarrow> (int \<times> string) option" where
  "scan_exp s = (case s of [] \<Rightarrow> Some (0, s) | c # r \<Rightarrow> if c \<notin> set ''eE'' then Some (0, s)
     else (case opt_char (CHR ''-'') r of (neg, r') \<Rightarrow> (case opt_char (CHR ''+'') r of (pos, r'') \<Rightarrow>
       (case digits (if neg then r' else r'') of (ds, t) \<Rightarrow>
          if ds = [] then None else Some (if neg then - read_nat ds else read_nat ds, t)))))"

definition scan_number :: "string \<Rightarrow> (number \<times> string) option" where
  "scan_number s = (case opt_char (CHR ''-'') s of (neg, s) \<Rightarrow> do {
     (w, s) \<leftarrow> scan_whole s; (f, s) \<leftarrow> scan_frac s; (e, s) \<leftarrow> scan_exp s;
     Some (\<lparr>nm_neg = neg, nm_whole = w, nm_frac = f, nm_exp = e\<rparr>, s) })"

definition literal :: "string \<Rightarrow> string \<Rightarrow> string option" where
  "literal l s = (if take (length l) s = l then Some (drop (length l) s) else None)"

text \<open>A string's value from the bytes between its quotes.\<close>

definition utf8 :: "nat \<Rightarrow> string" where
  "utf8 r = (if r < 128 then [char_of r]
     else if r < 2048 then [char_of (192 + r div 64), char_of (128 + r mod 64)]
     else if r < 65536 then [char_of (224 + r div 4096), char_of (128 + r div 64 mod 64), char_of (128 + r mod 64)]
     else [char_of (240 + r div 262144), char_of (128 + r div 4096 mod 64), char_of (128 + r div 64 mod 64),
       char_of (128 + r mod 64)])"

definition replacement :: string where
  "replacement = [CHR 0xEF, CHR 0xBF, CHR 0xBD]"

text \<open>The length of the UTF-8 sequence a text starts with; 0 when it starts with none.\<close>

definition sequence_length :: "nat \<Rightarrow> nat" where
  "sequence_length n = (if n < 128 then 1 else if 194 \<le> n \<and> n \<le> 223 then 2 else if 224 \<le> n \<and> n \<le> 239 then 3
     else if 240 \<le> n \<and> n \<le> 244 then 4 else 0)"

definition second_ok :: "nat \<Rightarrow> nat \<Rightarrow> bool" where
  "second_ok n m \<longleftrightarrow> (n = 224 \<longrightarrow> 160 \<le> m) \<and> (n = 237 \<longrightarrow> m \<le> 159) \<and> (n = 240 \<longrightarrow> 144 \<le> m) \<and> (n = 244 \<longrightarrow> m \<le> 143)"

definition rune_size :: "string \<Rightarrow> nat" where
  "rune_size s = (case s of [] \<Rightarrow> 0 | c # r \<Rightarrow> let k = sequence_length (code c); t = take (k - 1) r in
     if length t = k - 1 \<and> list_all (\<lambda>b. 128 \<le> code b \<and> code b \<le> 191) t \<and> (t = [] \<or> second_ok (code c) (code (hd t)))
     then k else 0)"

definition is_surrogate :: "nat \<Rightarrow> bool" where
  "is_surrogate r \<longleftrightarrow> 0xD800 \<le> r \<and> r < 0xE000"

text \<open>The rune of an escape with four hexadecimal digits, given the text after them, and the rest: two
  escapes may form a surrogate pair, half a pair stands for the replacement character.\<close>

definition escaped_rune :: "nat \<Rightarrow> string \<Rightarrow> string \<times> string" where
  "escaped_rune r s = (if \<not> is_surrogate r then (utf8 r, s)
     else case (if take 2 s = [CHR 0x5C, CHR ''u''] then hex4 (drop 2 s) else None) of
       None \<Rightarrow> (replacement, s)
     | Some q \<Rightarrow> if r < 0xDC00 \<and> 0xDC00 \<le> q \<and> q < 0xE000
         then (utf8 (0x10000 + (r - 0xD800) * 1024 + (q - 0xDC00)), drop 6 s) else (replacement, s))"

lemma escaped_rune_length: "length (snd (escaped_rune r s)) \<le> length s"
  by (simp add: escaped_rune_def split: option.split)

lemma escaped_rune_shorter: "length (snd (escaped_rune r (drop k s))) < Suc (Suc (length s))"
  using escaped_rune_length [of r "drop k s"] by simp

function unquote :: "string \<Rightarrow> string option" where
  "unquote [] = Some []"
| "unquote (c # s) = (if c = CHR 0x5C then (case s of [] \<Rightarrow> None
       | e # t \<Rightarrow> if e = CHR ''u'' then (case hex4 t of None \<Rightarrow> None
             | Some r \<Rightarrow> map_option ((@) (fst (escaped_rune r (drop 4 t)))) (unquote (snd (escaped_rune r (drop 4 t)))))
           else (case map_of escapes e of None \<Rightarrow> None | Some x \<Rightarrow> map_option ((#) x) (unquote t)))
     else if c = CHR 0x22 \<or> code c < 32 then None
     else if rune_size (c # s) = 0 then map_option ((@) replacement) (unquote s)
     else map_option ((@) (take (rune_size (c # s)) (c # s))) (unquote (drop (rune_size (c # s) - 1) s)))"
  by pat_completeness auto
termination
  by (relation "measure length") (auto simp: escaped_rune_shorter)

text \<open>The bytes of \<open>a\<close> before its suffix \<open>b\<close>.\<close>

definition before :: "string \<Rightarrow> string \<Rightarrow> string" where
  "before b a = take (length a - length b) a"

text \<open>One value, after which the rest of the text is returned; the members of an object and the elements of an
  array, after their opening bracket. Every call consumes a byte, so that the length of the text is
  enough fuel.\<close>

fun "value" :: "nat \<Rightarrow> string \<Rightarrow> string option"
  and members :: "nat \<Rightarrow> string \<Rightarrow> ((string \<times> string) list \<times> string) option"
  and elements :: "nat \<Rightarrow> string \<Rightarrow> (string list \<times> string) option" where
  "value 0 s = None"
| "value (Suc n) s = (case ws s of [] \<Rightarrow> None | c # r \<Rightarrow>
     if c = CHR 0x22 then str_end r
     else if c = CHR ''{'' then (case eat (CHR ''}'') r of Some t \<Rightarrow> Some t | None \<Rightarrow> map_option snd (members n r))
     else if c = CHR ''['' then (case eat (CHR '']'') r of Some t \<Rightarrow> Some t | None \<Rightarrow> map_option snd (elements n r))
     else if c = CHR ''t'' then literal ''true'' (c # r)
     else if c = CHR ''f'' then literal ''false'' (c # r)
     else if c = CHR ''n'' then literal ''null'' (c # r)
     else map_option snd (scan_number (c # r)))"
| "members 0 s = None"
| "members (Suc n) s = do { r \<leftarrow> eat (CHR 0x22) s; t \<leftarrow> str_end r; k \<leftarrow> unquote (butlast (before t r)); u \<leftarrow> eat (CHR '':'') t;
     v \<leftarrow> value n u;
     case eat (CHR ''}'') v of Some w \<Rightarrow> Some ([(k, before v (ws u))], w)
     | None \<Rightarrow> do { w \<leftarrow> eat (CHR '','') v; (ms, z) \<leftarrow> members n w; Some ((k, before v (ws u)) # ms, z) } }"
| "elements 0 s = None"
| "elements (Suc n) s = do { v \<leftarrow> value n s;
     case eat (CHR '']'') v of Some w \<Rightarrow> Some ([before v (ws s)], w)
     | None \<Rightarrow> do { w \<leftarrow> eat (CHR '','') v; (es, z) \<leftarrow> elements n w; Some (before v (ws s) # es, z) } }"

section \<open>Decoding\<close>

text \<open>The members of an object: \<open>null\<close> counts as an object without members, which sets nothing.\<close>

definition at_end :: "('a \<times> string) option \<Rightarrow> 'a option" where
  "at_end r = (case r of None \<Rightarrow> None | Some (x, s) \<Rightarrow> if ws s = [] then Some x else None)"

definition is_null :: "string \<Rightarrow> bool" where
  "is_null s \<longleftrightarrow> at_end (map_option (Pair ()) (literal ''null'' (ws s))) \<noteq> None"

definition object_of :: "string \<Rightarrow> (string \<times> string) list option" where
  "object_of s = (if is_null s then Some [] else do { r \<leftarrow> eat (CHR ''{'') s;
     at_end (case eat (CHR ''}'') r of Some t \<Rightarrow> Some ([], t) | None \<Rightarrow> members (length s) r) })"

definition array_of :: "string \<Rightarrow> string list option" where
  "array_of s = (if is_null s then Some [] else do { r \<leftarrow> eat (CHR ''['') s;
     at_end (case eat (CHR '']'') r of Some t \<Rightarrow> Some ([], t) | None \<Rightarrow> elements (length s) r) })"

text \<open>The fields of a struct keep what they hold where a member is \<open>null\<close>.\<close>

definition get_string :: "string \<Rightarrow> string \<Rightarrow> string option" where
  "get_string raw old = (if is_null raw then Some old else do { r \<leftarrow> eat (CHR 0x22) raw; t \<leftarrow> str_end r;
     if ws t = [] then unquote (butlast (before t r)) else None })"

definition get_bool :: "string \<Rightarrow> bool \<Rightarrow> bool option" where
  "get_bool raw old = (if is_null raw then Some old
     else if at_end (map_option (Pair ()) (literal ''true'' (ws raw))) \<noteq> None then Some True
     else if at_end (map_option (Pair ()) (literal ''false'' (ws raw))) \<noteq> None then Some False else None)"

text \<open>A member belongs to the field whose name it has up to case; besides the letters of ASCII, the long s and
  the Kelvin sign fold to letters.\<close>

definition lower :: "char \<Rightarrow> char" where
  "lower c = (if 65 \<le> code c \<and> code c \<le> 90 then char_of (code c + 32) else c)"

fun fold_name :: "string \<Rightarrow> string" where
  "fold_name [] = []"
| "fold_name (c # s) = (if take 2 (c # s) = [CHR 0xC5, CHR 0xBF] then CHR ''s'' # fold_name (drop 1 s)
     else if take 3 (c # s) = [CHR 0xE2, CHR 0x84, CHR 0xAA] then CHR ''k'' # fold_name (drop 2 s)
     else lower c # fold_name s)"

text \<open>A value of the wrong type leaves its field alone and the decoding goes on, to fail at the end: the flag tells
  whether there was an error.\<close>

definition store :: "'r \<Rightarrow> ('a \<Rightarrow> 'r) \<Rightarrow> 'a option \<Rightarrow> 'r \<times> bool" where
  "store r f x = (case x of None \<Rightarrow> (r, False) | Some a \<Rightarrow> (f a, True))"

primrec fields_of :: "('r \<Rightarrow> string \<Rightarrow> string \<Rightarrow> 'r \<times> bool) \<Rightarrow> (string \<times> string) list \<Rightarrow> 'r \<Rightarrow> 'r \<times> bool" where
  "fields_of set_field [] r = (r, True)"
| "fields_of set_field (m # ms) r = (case set_field r (fold_name (fst m)) (snd m) of (r, ok) \<Rightarrow>
     (case fields_of set_field ms r of (r, ok') \<Rightarrow> (r, ok \<and> ok')))"

definition struct_of :: "('r \<Rightarrow> string \<Rightarrow> string \<Rightarrow> 'r \<times> bool) \<Rightarrow> 'r \<Rightarrow> string \<Rightarrow> 'r \<times> bool" where
  "struct_of set_field r s = (case object_of s of None \<Rightarrow> (r, False) | Some ms \<Rightarrow> fields_of set_field ms r)"

definition checked :: "'r \<times> bool \<Rightarrow> 'r option" where
  "checked p = (if snd p then Some (fst p) else None)"

definition list_of :: "(string \<Rightarrow> 'a option) \<Rightarrow> string \<Rightarrow> 'a list option" where
  "list_of get s = do { ts \<leftarrow> array_of s; those (map get ts) }"

section \<open>Encoding\<close>

definition hex_digit :: "nat \<Rightarrow> char" where
  "hex_digit n = ''0123456789abcdef'' ! n"

definition json_safe :: "char \<Rightarrow> bool" where
  "json_safe c \<longleftrightarrow> 32 \<le> code c \<and> code c < 128 \<and> c \<notin> set [CHR 0x22, CHR 0x5C, CHR ''<'', CHR ''>'', CHR ''&'']"

definition escape :: "char \<Rightarrow> string" where
  "escape c = (case map_of (map prod.swap escapes) c of
     Some e \<Rightarrow> [CHR 0x5C, e]
   | None \<Rightarrow> [CHR 0x5C, CHR ''u'', CHR ''0'', CHR ''0'', hex_digit (code c div 16), hex_digit (code c mod 16)])"

definition line_separator :: "string \<Rightarrow> bool" where
  "line_separator s \<longleftrightarrow> take 3 s \<in> set [[CHR 0xE2, CHR 0x80, CHR 0xA8], [CHR 0xE2, CHR 0x80, CHR 0xA9]]"

function quoted :: "string \<Rightarrow> string" where
  "quoted [] = []"
| "quoted (c # s) = (if code c < 128 then (if json_safe c then [c] else escape c) @ quoted s
     else if rune_size (c # s) = 0 then [CHR 0x5C] @ ''ufffd'' @ quoted s
     else if line_separator (c # s) then [CHR 0x5C] @ ''u202'' @ [hex_digit (code (s ! 1) mod 16)] @ quoted (drop 2 s)
     else take (rune_size (c # s)) (c # s) @ quoted (drop (rune_size (c # s) - 1) s))"
  by pat_completeness auto
termination
  by (relation "measure length") auto

definition put_string :: "string \<Rightarrow> string" where
  "put_string s = [CHR 0x22] @ quoted s @ [CHR 0x22]"

definition put_bool :: "bool \<Rightarrow> string" where
  "put_bool b = (if b then ''true'' else ''false'')"

fun commas :: "string list \<Rightarrow> string" where
  "commas [] = []"
| "commas [t] = t"
| "commas (t # ts) = t @ CHR '','' # commas ts"

definition put_member :: "string \<times> string \<Rightarrow> string" where
  "put_member m = put_string (fst m) @ CHR '':'' # snd m"

definition put_object :: "(string \<times> string) list \<Rightarrow> string" where
  "put_object ms = CHR ''{'' # commas (map put_member ms) @ [CHR ''}'']"

definition put_array :: "string list \<Rightarrow> string" where
  "put_array ts = CHR ''['' # commas ts @ [CHR '']'']"

text \<open>Where a field has no text, because a number is not finite, the whole value has none.\<close>

definition put_fields :: "(string \<times> string option) list \<Rightarrow> string option" where
  "put_fields fs = map_option put_object (those (map (\<lambda>(k, t). map_option (Pair k) t) fs))"

definition put_list :: "('a \<Rightarrow> string option) \<Rightarrow> 'a list \<Rightarrow> string option" where
  "put_list put xs = map_option put_array (those (map put xs))"

section \<open>Strings survive\<close>

declare fold_name.simps(2) [simp del] quoted.simps(2) [simp del] unquote.simps(2) [simp del] str_end.simps(2) [simp del]

lemma code_lt: "code c < 256"
  unfolding code_def by (metis of_char_mod_256 mod_less_divisor zero_less_numeral)

lemma code_inject: "code c = code d \<longleftrightarrow> c = d"
  unfolding code_def by simp

lemma code_char_of [simp]: "n < 256 \<Longrightarrow> code (char_of n) = n"
  by (simp add: code_def)

lemma char_ofI: "n = code c \<Longrightarrow> char_of n = c"
  by (simp add: code_def)

text \<open>Facts on single bytes, by going through all of them.\<close>

lemma hex_hex_digit: "n < 16 \<Longrightarrow> hex (hex_digit n) = Some n"
proof -
  have "list_all (\<lambda>n. hex (hex_digit n) = Some n) [0..<16]" by code_simp
  then show "n < 16 \<Longrightarrow> hex (hex_digit n) = Some n" by (simp add: list_all_iff)
qed

lemma codes [simp]: "code (CHR 0x22) = 34" "code (CHR 0x5C) = 92" "code (CHR ''u'') = 117"
  by (simp_all add: code_def)

lemma hex4_hex_digit: "a < 16 \<Longrightarrow> b < 16 \<Longrightarrow> c < 16 \<Longrightarrow> d < 16 \<Longrightarrow>
   hex4 (hex_digit a # hex_digit b # hex_digit c # hex_digit d # s) = Some (((a * 16 + b) * 16 + c) * 16 + d)"
  by (simp add: hex4_def hex_hex_digit)

lemma hex4_consts: "hex4 (CHR ''f'' # CHR ''f'' # CHR ''f'' # CHR ''d'' # s) = Some 65533"
  "d < 16 \<Longrightarrow> hex4 (CHR ''2'' # CHR ''0'' # CHR ''2'' # hex_digit d # s) = Some (8224 + d)"
  "n < 256 \<Longrightarrow> hex4 (CHR ''0'' # CHR ''0'' # hex_digit (n div 16) # hex_digit (n mod 16) # s) = Some n"
  by (simp_all add: hex4_def hex_hex_digit) (simp_all add: hex_def code_def)

text \<open>The two forms of an escape.\<close>

lemma escape_cases:
  obtains (short) e where "escape c = [CHR 0x5C, e]" "e \<noteq> CHR ''u''" "map_of escapes e = Some c"
  | (long) "escape c = CHR 0x5C # CHR ''u'' # CHR ''0'' # CHR ''0'' # hex_digit (code c div 16) # hex_digit (code c mod 16) # []"
proof (cases "map_of (map prod.swap escapes) c")
  case None
  then show ?thesis by (intro long) (simp add: escape_def)
next
  case (Some e)
  then have "(e, c) \<in> set escapes" by (auto dest!: map_of_SomeD)
  then have "map_of escapes e = Some c" "e \<noteq> CHR ''u''" by (auto simp: escapes_def)
  then show ?thesis using Some by (intro short [of e]) (simp_all add: escape_def)
qed

lemma escapes_dom: "map_of escapes e = Some c \<Longrightarrow> e \<in> fst ` set escapes"
  by (force dest: map_of_SomeD)

lemma str_end_escape: "str_end (escape c @ s) = str_end s"
  by (rule escape_cases [of c]) (use code_lt [of c] in \<open>simp_all add: str_end.simps escapes_dom hex4_consts\<close>)

lemma cons_append: "(@) [c] = (#) c"
  by (simp add: fun_eq_iff)

lemma unquote_escape: "code c < 128 \<Longrightarrow> unquote (escape c @ s) = map_option ((#) c) (unquote s)"
  by (rule escape_cases [of c])
    (simp_all add: unquote.simps hex4_consts escaped_rune_def is_surrogate_def utf8_def code_def option.map_comp comp_def cons_append)

lemma safe_not: "json_safe c \<Longrightarrow> c \<noteq> CHR 0x22 \<and> c \<noteq> CHR 0x5C \<and> 32 \<le> code c"
  by (auto simp: json_safe_def)

text \<open>Sequences of UTF-8.\<close>

lemma rune_size_le: "rune_size s \<le> length s"
  by (cases s) (auto simp: rune_size_def Let_def)

lemma rune_size_ascii [simp]: "code c < 128 \<Longrightarrow> rune_size (c # s) = 1"
  by (simp add: rune_size_def sequence_length_def)

lemma rune_sizeD:
  assumes "rune_size (c # s) \<noteq> 0"
  shows "rune_size (c # s) = sequence_length (code c)" "rune_size (c # take (rune_size (c # s) - 1) s @ t) = rune_size (c # s)"
    "list_all (\<lambda>b. 128 \<le> code b \<and> code b \<le> 191) (take (rune_size (c # s) - 1) s)"
proof -
  show k: "rune_size (c # s) = sequence_length (code c)" using assms by (auto simp: rune_size_def Let_def split: if_splits)
  have l: "length (take (sequence_length (code c) - 1) s) = sequence_length (code c) - 1"
    and a: "list_all (\<lambda>b. 128 \<le> code b \<and> code b \<le> 191) (take (sequence_length (code c) - 1) s)"
    using assms by (auto simp: rune_size_def Let_def split: if_splits)
  show "list_all (\<lambda>b. 128 \<le> code b \<and> code b \<le> 191) (take (rune_size (c # s) - 1) s)" using a by (simp only: k)
  have "take (sequence_length (code c) - 1) (take (sequence_length (code c) - 1) s @ t) = take (sequence_length (code c) - 1) s"
    using l by simp
  then have "rune_size (c # take (sequence_length (code c) - 1) s @ t) = rune_size (c # s)"
    unfolding rune_size_def list.case Let_def by (simp only:)
  then show "rune_size (c # take (rune_size (c # s) - 1) s @ t) = rune_size (c # s)" by (simp only: k)
qed

text \<open>Bytes beyond ASCII do not end a string.\<close>

lemma str_end_high: "list_all (\<lambda>b. 128 \<le> code b) xs \<Longrightarrow> str_end (xs @ s) = str_end s"
  by (induction xs) (auto simp: str_end.simps)

text \<open>The five cases of a quoted text.\<close>

lemma take_rune: "rune_size (c # s) \<noteq> 0 \<Longrightarrow> take (rune_size (c # s)) (c # s) = c # take (rune_size (c # s) - 1) s"
  by (cases "rune_size (c # s)") simp_all

lemma take_3: "take 3 (c # s) = [x, y, z] \<Longrightarrow> \<exists>r. c = x \<and> s = y # z # r"
  by (cases s rule: remdups_adj.cases) (auto simp: numeral_3_eq_3)

lemma line_separatorD:
  assumes "line_separator (c # s)"
  obtains d where "d < 16" "utf8 (8224 + d) @ drop 2 s = c # s" "code (s ! 1) mod 16 = d"
proof -
  have u: "utf8 (8224 + 8) = [CHR 0xE2, CHR 0x80, CHR 0xA8]" "utf8 (8224 + 9) = [CHR 0xE2, CHR 0x80, CHR 0xA9]"
    "code (CHR 0xA8) mod 16 = 8" "code (CHR 0xA9) mod 16 = 9" by (simp_all add: utf8_def char_ofI code_def)
  from assms consider "take 3 (c # s) = [CHR 0xE2, CHR 0x80, CHR 0xA8]" | "take 3 (c # s) = [CHR 0xE2, CHR 0x80, CHR 0xA9]"
    unfolding line_separator_def by auto
  then show ?thesis
  proof cases
    case 1
    obtain r where r: "c = CHR 0xE2" "s = CHR 0x80 # CHR 0xA8 # r" using take_3 [OF 1] by (elim exE conjE)
    have "utf8 (8224 + 8) @ drop 2 s = c # s" by (simp only: u(1) r) simp
    moreover have "code (s ! 1) mod 16 = 8" by (simp add: r u)
    ultimately show ?thesis by (intro that [of 8]) simp
  next
    case 2
    obtain r where r: "c = CHR 0xE2" "s = CHR 0x80 # CHR 0xA9 # r" using take_3 [OF 2] by (elim exE conjE)
    have "utf8 (8224 + 9) @ drop 2 s = c # s" by (simp only: u(2) r) simp
    moreover have "code (s ! 1) mod 16 = 9" by (simp add: r u)
    ultimately show ?thesis by (intro that [of 9]) simp
  qed
qed

lemma quoted_cases:
  obtains (safe) "json_safe c" "quoted (c # s) = c # quoted s"
  | (escaped) "code c < 128" "quoted (c # s) = escape c @ quoted s"
  | (invalid) "rune_size (c # s) = 0" "128 \<le> code c"
      "quoted (c # s) = CHR 0x5C # CHR ''u'' # CHR ''f'' # CHR ''f'' # CHR ''f'' # CHR ''d'' # quoted s"
  | (separator) d where "128 \<le> code c" "rune_size (c # s) \<noteq> 0" "line_separator (c # s)" "d < 16" "utf8 (8224 + d) @ drop 2 s = c # s"
      "quoted (c # s) = CHR 0x5C # CHR ''u'' # CHR ''2'' # CHR ''0'' # CHR ''2'' # hex_digit d # quoted (drop 2 s)"
  | (rune) "128 \<le> code c" "rune_size (c # s) \<noteq> 0" "\<not> line_separator (c # s)"
      "quoted (c # s) = c # take (rune_size (c # s) - 1) s @ quoted (drop (rune_size (c # s) - 1) s)"
proof (cases "code c < 128")
  case True
  then show ?thesis using safe escaped by (cases "json_safe c") (simp_all add: quoted.simps(2))
next
  case False
  show ?thesis
  proof (cases "rune_size (c # s) \<noteq> 0 \<and> line_separator (c # s)")
    case True
    then have "line_separator (c # s)" by blast
    then show ?thesis by (rule line_separatorD) (use True False in \<open>auto intro!: separator simp: quoted.simps(2)\<close>)
  next
    case other: False
    then show ?thesis
      using invalid rune take_rune [of c s] False by (cases "rune_size (c # s) = 0") (simp_all add: quoted.simps(2))
  qed
qed

lemma str_end_u: "hex4 (a # b # c # d # s) = Some n \<Longrightarrow> str_end (CHR 0x5C # CHR ''u'' # a # b # c # d # s) = str_end s"
  by (simp add: str_end.simps)

lemma high_bytes: "list_all (\<lambda>b. 128 \<le> code b \<and> code b \<le> 191) xs \<Longrightarrow> list_all (\<lambda>b. 128 \<le> code b) xs"
  by (simp add: list_all_iff)

lemma str_end_quoted: "str_end (quoted s @ CHR 0x22 # t) = Some t"
proof (induction s rule: quoted.induct)
  case (2 c s)
  show ?case
  proof (cases rule: quoted_cases [of c s])
    case safe
    then have "code c < 128" by (simp add: json_safe_def)
    then show ?thesis using 2(1) safe safe_not [of c] by (simp add: str_end.simps)
  next
    case escaped
    then show ?thesis using 2(1) by (simp add: str_end_escape)
  next
    case invalid
    then show ?thesis using 2(2) by (simp add: str_end_u [OF hex4_consts(1)])
  next
    case separator
    then show ?thesis using 2(3) by (simp add: str_end_u [OF hex4_consts(2)])
  next
    case rune
    have "str_end (quoted (drop (rune_size (c # s) - 1) s) @ CHR 0x22 # t) = Some t" using 2(4) rune by simp
    then show ?thesis using rune str_end_high [of "c # take (rune_size (c # s) - 1) s"] high_bytes [OF rune_sizeD(3) [OF rune(2)]]
      by simp
  qed
qed (simp add: str_end.simps)

text \<open>What is valid UTF-8 comes back as it was.\<close>

function utf8_ok :: "string \<Rightarrow> bool" where
  "utf8_ok [] \<longleftrightarrow> True"
| "utf8_ok (c # s) \<longleftrightarrow> rune_size (c # s) \<noteq> 0 \<and> utf8_ok (drop (rune_size (c # s) - 1) s)"
  by pat_completeness auto
termination
  by (relation "measure length") auto

declare utf8_ok.simps(2) [simp del]

lemma utf8_ascii: "list_all (\<lambda>c. code c < 128) s \<Longrightarrow> utf8_ok s"
  by (induction s) (simp_all add: utf8_ok.simps)

lemma unquote_u: "hex4 (a # b # c # d # s) = Some r \<Longrightarrow> \<not> is_surrogate r \<Longrightarrow>
   unquote (CHR 0x5C # CHR ''u'' # a # b # c # d # s) = map_option ((@) (utf8 r)) (unquote s)"
  by (simp add: unquote.simps escaped_rune_def)

lemma separator_size: "rune_size (c # s) \<noteq> 0 \<Longrightarrow> line_separator (c # s) \<Longrightarrow> rune_size (c # s) = 3"
  using rune_sizeD(1) [of c s] by (auto simp: line_separator_def sequence_length_def code_def)

lemma unquote_quoted: "utf8_ok s \<Longrightarrow> unquote (quoted s) = Some s"
proof (induction s rule: quoted.induct)
  case (2 c s)
  show ?case
  proof (cases rule: quoted_cases [of c s])
    case safe
    then have "code c < 128" by (simp add: json_safe_def)
    then show ?thesis using 2(1,5) safe safe_not [of c] by (simp add: unquote.simps utf8_ok.simps)
  next
    case escaped
    then show ?thesis using 2(1,5) by (simp add: unquote_escape utf8_ok.simps)
  next
    case invalid
    then show ?thesis using 2(5) by (simp add: utf8_ok.simps)
  next
    case (separator d)
    have n: "rune_size (c # s) = 3" using separator_size [OF separator(2,3)] .
    have "\<not> is_surrogate (8224 + d)" using separator(4) by (simp add: is_surrogate_def)
    then show ?thesis using 2(3,5) separator n by (simp add: unquote_u [OF hex4_consts(2)] utf8_ok.simps)
  next
    case rune
    then obtain j where j: "rune_size (c # s) = Suc j" by (cases "rune_size (c # s)") simp_all
    have c: "c \<noteq> CHR 0x5C" "\<not> (c = CHR 0x22 \<or> code c < 32)" using rune(1) by auto
    have "unquote (quoted (drop j s)) = Some (drop j s)" using 2(4,5) rune by (simp add: utf8_ok.simps j)
    moreover have "rune_size (c # take j s @ quoted (drop j s)) = Suc j" using rune_sizeD(2) [OF rune(2), of "quoted (drop j s)"] by (simp add: j)
    moreover have "j \<le> length s" using rune_size_le [of "c # s"] by (simp add: j)
    ultimately show ?thesis using rune(4) c by (simp add: unquote.simps j)
  qed
qed simp

text \<open>Any text comes back as some text.\<close>

lemma unquote_quoted_total: "\<exists>t. unquote (quoted s) = Some t"
proof (induction s rule: quoted.induct)
  case (2 c s)
  show ?case
  proof (cases rule: quoted_cases [of c s])
    case safe
    then have "code c < 128" by (simp add: json_safe_def)
    then show ?thesis using 2(1) safe safe_not [of c] by (auto simp: unquote.simps)
  next
    case escaped
    then show ?thesis using 2(1) by (auto simp: unquote_escape)
  next
    case invalid
    have "\<not> is_surrogate 65533" by (simp add: is_surrogate_def)
    then show ?thesis using 2(2) invalid by (auto simp: unquote_u [OF hex4_consts(1)])
  next
    case (separator d)
    have "\<not> is_surrogate (8224 + d)" using separator(4) by (simp add: is_surrogate_def)
    then show ?thesis using 2(3) separator by (auto simp: unquote_u [OF hex4_consts(2)])
  next
    case rune
    then obtain j where j: "rune_size (c # s) = Suc j" by (cases "rune_size (c # s)") simp_all
    have c: "c \<noteq> CHR 0x5C" "\<not> (c = CHR 0x22 \<or> code c < 32)" using rune(1) by auto
    have "\<exists>t. unquote (quoted (drop j s)) = Some t" using 2(4) rune by (simp add: j)
    moreover have "rune_size (c # take j s @ quoted (drop j s)) = Suc j" using rune_sizeD(2) [OF rune(2), of "quoted (drop j s)"] by (simp add: j)
    moreover have "j \<le> length s" using rune_size_le [of "c # s"] by (simp add: j)
    ultimately show ?thesis using rune(4) c by (auto simp: unquote.simps j)
  qed
qed simp

section \<open>Texts of values survive\<close>

text \<open>A text is that of one value where it is scanned whole before whatever may follow a value.\<close>

definition ends :: "string \<Rightarrow> bool" where
  "ends r \<longleftrightarrow> r = [] \<or> hd r \<in> set [CHR '','', CHR ''}'', CHR '']'']"

definition json_text :: "string \<Rightarrow> bool" where
  "json_text t \<longleftrightarrow> t \<noteq> [] \<and> \<not> is_ws (hd t) \<and> hd t \<notin> set [CHR ''}'', CHR '']''] \<and>
     (\<forall>n r. length t \<le> n \<longrightarrow> ends r \<longrightarrow> value n (t @ r) = Some r)"

lemma ends_simps [simp]: "ends []" "ends (CHR '','' # r)" "ends (CHR ''}'' # r)" "ends (CHR '']'' # r)"
  by (simp_all add: ends_def)

lemma not_ws [simp]: "\<not> is_ws CHR 0x22" "\<not> is_ws CHR '':''" "\<not> is_ws CHR '',''" "\<not> is_ws CHR ''{''" "\<not> is_ws CHR ''}''"
  "\<not> is_ws CHR ''[''" "\<not> is_ws CHR '']''" "\<not> is_ws CHR ''t''" "\<not> is_ws CHR ''f''" "\<not> is_ws CHR ''n''"
  by (simp_all add: is_ws_def)

lemma ws_simps [simp]: "ws [] = []" "\<not> is_ws c \<Longrightarrow> ws (c # s) = c # s"
  by (simp_all add: ws_def)

lemma eat_simps [simp]: "eat c [] = None" "\<not> is_ws c \<Longrightarrow> eat x (c # r) = (if c = x then Some r else None)"
  by (simp_all add: eat_def)

lemma before_append [simp]: "before r (t @ r) = t" "before (c # r) (t @ c # r) = t" "before r (t @ c # r) = t @ [c]" "before [] t = t"
  by (simp_all add: before_def)

lemma json_textD:
  assumes "json_text t"
  shows "ws (t @ r) = t @ r" "length t \<le> n \<Longrightarrow> ends r \<Longrightarrow> value n (t @ r) = Some r" "c \<in> set [CHR ''}'', CHR '']''] \<Longrightarrow> eat c (t @ r) = None"
  using assms by (cases t; auto simp: json_text_def)+

lemma json_text_string: "json_text (put_string s)"
  unfolding json_text_def
proof (intro conjI allI impI)
  fix n r
  assume "length (put_string s) \<le> n"
  then show "value n (put_string s @ r) = Some r" by (cases n) (simp_all add: put_string_def str_end_quoted)
qed (simp_all add: put_string_def)

lemma json_text_literal: "t \<in> set [''null'', ''true'', ''false''] \<Longrightarrow> json_text t"
  unfolding json_text_def
proof (intro conjI allI impI)
  fix n r
  assume "t \<in> set [''null'', ''true'', ''false'']" "length t \<le> n"
  then show "value n (t @ r) = Some r" by (cases n) (auto simp: literal_def)
qed auto

lemma json_text_literals: "json_text ''null''" "json_text (put_bool b)"
  by (simp_all add: json_text_literal put_bool_def)

lemma commas_Cons: "ts \<noteq> [] \<Longrightarrow> commas (t # ts) = t @ CHR '','' # commas ts"
  by (cases ts) simp_all

definition members_ok :: "(string \<times> string) list \<Rightarrow> bool" where
  "members_ok ms \<longleftrightarrow> (\<forall>m \<in> set ms. utf8_ok (fst m) \<and> json_text (snd m))"

lemma members_Cons:
  assumes "utf8_ok k" "json_text t" "length t \<le> n" "ends (c # r)" "\<not> is_ws c"
  shows "members (Suc n) (put_member (k, t) @ c # r) = (if c = CHR ''}'' then Some ([(k, t)], r)
     else if c = CHR '','' then map_option (\<lambda>(ms, z). ((k, t) # ms, z)) (members n r) else None)"
  using json_textD [OF assms(2)] assms(1,3-5) unquote_quoted [OF assms(1)]
  by (cases "members n r") (simp_all add: put_member_def put_string_def str_end_quoted split: prod.split)

lemma members_put:
  "members_ok ms \<Longrightarrow> ms \<noteq> [] \<Longrightarrow> length (commas (map put_member ms)) < n \<Longrightarrow>
     members n (commas (map put_member ms) @ CHR ''}'' # r) = Some (ms, r)"
proof (induction ms arbitrary: n)
  case (Cons m ms)
  obtain j where n: "n = Suc j" using Cons.prems(3) by (cases n) simp_all
  have m: "utf8_ok (fst m)" "json_text (snd m)" "members_ok ms" using Cons.prems(1) by (simp_all add: members_ok_def)
  have l: "length (snd m) < length (put_member m)" by (simp add: put_member_def)
  show ?case
  proof (cases "ms = []")
    case True
    then show ?thesis using members_Cons [OF m(1,2), of j "CHR ''}''" r] Cons.prems(3) l by (simp add: n)
  next
    case False
    then show ?thesis using members_Cons [OF m(1,2), of j "CHR '',''"] Cons.IH [OF m(3) False, of j] Cons.prems(3) l
      by (simp add: n commas_Cons)
  qed
qed simp

lemma elements_put:
  "\<forall>t \<in> set ts. json_text t \<Longrightarrow> ts \<noteq> [] \<Longrightarrow> length (commas ts) < n \<Longrightarrow>
     elements n (commas ts @ CHR '']'' # r) = Some (ts, r)"
proof (induction ts arbitrary: n)
  case (Cons t ts)
  obtain j where n: "n = Suc j" using Cons.prems(3) by (cases n) simp_all
  have t: "json_text t" using Cons.prems(1) by simp
  show ?case
  proof (cases "ts = []")
    case True
    then show ?thesis using json_textD [OF t] Cons.prems(3) by (simp add: n)
  next
    case False
    then show ?thesis using json_textD [OF t] Cons.IH [of j] Cons.prems by (simp add: n commas_Cons)
  qed
qed simp

lemma commas_hd:
  assumes "\<forall>t \<in> set ts. t \<noteq> [] \<and> \<not> is_ws (hd t) \<and> hd t \<noteq> c" "ts \<noteq> []"
  shows "eat c (commas ts @ r) = None"
proof -
  obtain t us where ts: "ts = t # us" using assms(2) by (cases ts) simp_all
  then obtain x y where "t = x # y" "\<not> is_ws x" "x \<noteq> c" using assms(1) by (cases t) simp_all
  then show ?thesis using ts by (cases us) simp_all
qed

lemma put_member_hd: "put_member m \<noteq> []" "hd (put_member m) = CHR 0x22"
  by (simp_all add: put_member_def put_string_def)

lemma eat_members: "ms \<noteq> [] \<Longrightarrow> eat (CHR ''}'') (commas (map put_member ms) @ r) = None"
  by (rule commas_hd) (auto simp: put_member_hd)

lemma eat_elements: "\<forall>t \<in> set ts. json_text t \<Longrightarrow> ts \<noteq> [] \<Longrightarrow> eat (CHR '']'') (commas ts @ r) = None"
  by (rule commas_hd) (auto simp: json_text_def)

lemma json_text_object:
  assumes "members_ok ms"
  shows "json_text (put_object ms)"
  unfolding json_text_def
proof (intro conjI allI impI)
  fix n r
  assume n: "length (put_object ms) \<le> n"
  then obtain j where j: "n = Suc j" by (cases n) (simp_all add: put_object_def)
  show "value n (put_object ms @ r) = Some r"
  proof (cases "ms = []")
    case False
    have "members j (commas (map put_member ms) @ CHR ''}'' # r) = Some (ms, r)"
      by (rule members_put [OF assms False]) (use n in \<open>simp add: put_object_def j\<close>)
    then show ?thesis using eat_members [OF False] by (simp add: put_object_def j)
  qed (simp add: put_object_def j)
qed (simp_all add: put_object_def)

lemma json_text_array:
  assumes "\<forall>t \<in> set ts. json_text t"
  shows "json_text (put_array ts)"
  unfolding json_text_def
proof (intro conjI allI impI)
  fix n r
  assume n: "length (put_array ts) \<le> n"
  then obtain j where j: "n = Suc j" by (cases n) (simp_all add: put_array_def)
  show "value n (put_array ts @ r) = Some r"
  proof (cases "ts = []")
    case False
    have "elements j (commas ts @ CHR '']'' # r) = Some (ts, r)"
      by (rule elements_put [OF assms False]) (use n in \<open>simp add: put_array_def j\<close>)
    then show ?thesis using eat_elements [OF assms False] by (simp add: put_array_def j)
  qed (simp add: put_array_def j)
qed (simp_all add: put_array_def)

lemma not_null: "t \<noteq> [] \<Longrightarrow> \<not> is_ws (hd t) \<Longrightarrow> hd t \<noteq> CHR ''n'' \<Longrightarrow> \<not> is_null t"
  by (cases t) (simp_all add: is_null_def literal_def at_end_def)

lemma object_of_put:
  assumes "members_ok ms"
  shows "object_of (put_object ms) = Some ms"
proof (cases "ms = []")
  case False
  have "members (length (put_object ms)) (commas (map put_member ms) @ [CHR ''}'']) = Some (ms, [])"
    by (rule members_put [OF assms False]) (simp add: put_object_def)
  then show ?thesis
    using eat_members [OF False] not_null [of "put_object ms"] by (simp add: object_of_def put_object_def at_end_def)
qed (simp add: object_of_def put_object_def at_end_def not_null)

lemma array_of_put:
  assumes "\<forall>t \<in> set ts. json_text t"
  shows "array_of (put_array ts) = Some ts"
proof (cases "ts = []")
  case False
  have "elements (length (put_array ts)) (commas ts @ [CHR '']'']) = Some (ts, [])"
    by (rule elements_put [OF assms False]) (simp add: put_array_def)
  then show ?thesis
    using eat_elements [OF assms False] not_null [of "put_array ts"] by (simp add: array_of_def put_array_def at_end_def)
qed (simp add: array_of_def put_array_def at_end_def not_null)

lemma get_string_put: "get_string (put_string s) old = unquote (quoted s)"
  by (simp add: get_string_def put_string_def not_null str_end_quoted)

lemma get_put_string: "utf8_ok s \<Longrightarrow> get_string (put_string s) old = Some s"
  by (simp add: get_string_put unquote_quoted)

lemma null_consts [simp]: "is_null ''null''" "object_of ''null'' = Some []" "array_of ''null'' = Some []"
  by (simp_all add: object_of_def array_of_def is_null_def literal_def at_end_def)

lemma get_put_bool: "get_bool (put_bool b) old = Some b"
  by (simp add: get_bool_def put_bool_def not_null literal_def at_end_def)

section \<open>Structs and lists survive\<close>

lemma store_simps [simp]: "store r f None = (r, False)" "store r f (Some a) = (f a, True)"
  by (simp_all add: store_def)

lemma checked_simps [simp]: "checked (r, True) = Some r" "checked (r, False) = None"
  by (simp_all add: checked_def)

lemma members_ok_simps [simp]: "members_ok []" "members_ok (m # ms) \<longleftrightarrow> utf8_ok (fst m) \<and> json_text (snd m) \<and> members_ok ms"
  "members_ok (ms @ ns) \<longleftrightarrow> members_ok ms \<and> members_ok ns"
  by (auto simp: members_ok_def)

lemma struct_of_put: "members_ok ms \<Longrightarrow> struct_of set_field r (put_object ms) = fields_of set_field ms r"
  by (simp add: struct_of_def object_of_put)

lemma those_map_Some: "those (map f xs) = Some ys \<longleftrightarrow> list_all2 (\<lambda>x y. f x = Some y) xs ys"
proof (induction xs arbitrary: ys)
  case (Cons x xs)
  then show ?case by (cases "f x"; cases ys; cases "those (map f xs)") auto
qed auto

lemma put_list_text:
  assumes "put_list put xs = Some t" "\<And>x t. x \<in> set xs \<Longrightarrow> put x = Some t \<Longrightarrow> json_text t"
  shows "json_text t"
proof -
  obtain ts where ts: "list_all2 (\<lambda>x t. put x = Some t) xs ts" "t = put_array ts"
    using assms(1) by (auto simp: put_list_def those_map_Some)
  have "\<forall>t \<in> set ts. json_text t" using ts(1) assms(2) by (fastforce simp: list_all2_conv_all_nth in_set_conv_nth)
  then show ?thesis by (simp add: ts(2) json_text_array)
qed

lemma list_of_put_list:
  assumes "put_list put xs = Some t" "\<And>x t. x \<in> set xs \<Longrightarrow> put x = Some t \<Longrightarrow> json_text t \<and> get t = Some x"
  shows "list_of get t = Some xs"
proof -
  obtain ts where ts: "list_all2 (\<lambda>x t. put x = Some t) xs ts" "t = put_array ts"
    using assms(1) by (auto simp: put_list_def those_map_Some)
  have j: "\<forall>t \<in> set ts. json_text t" using ts(1) assms(2) by (fastforce simp: list_all2_conv_all_nth in_set_conv_nth)
  have "list_all2 (\<lambda>t x. get t = Some x) ts xs" using ts(1) assms(2) by (auto simp: list_all2_conv_all_nth)
  then have "those (map get ts) = Some xs" by (simp add: those_map_Some)
  then show ?thesis by (simp add: list_of_def ts(2) array_of_put [OF j])
qed

lemma list_of_null [simp]: "list_of get ''null'' = Some []"
  by (simp add: list_of_def)

lemma put_list_None: "put_list put xs = None \<longleftrightarrow> (\<exists>x \<in> set xs. put x = None)"
  unfolding put_list_def by (induction xs) (auto split: option.split)

lemma put_fields_Some:
  "put_fields [] = Some (put_object [])"
  "put_fields fs = Some t \<Longrightarrow> \<exists>ms. list_all2 (\<lambda>f m. fst m = fst f \<and> snd f = Some (snd m)) fs ms \<and> t = put_object ms"
proof -
  assume "put_fields fs = Some t"
  then obtain ms where m: "list_all2 (\<lambda>f m. (case f of (k, t) \<Rightarrow> map_option (Pair k) t) = Some m) fs ms" "t = put_object ms"
    by (auto simp: put_fields_def those_map_Some)
  have "list_all2 (\<lambda>f m. fst m = fst f \<and> snd f = Some (snd m)) fs ms"
    by (rule list_all2_mono [OF m(1)]) auto
  then show "\<exists>ms. list_all2 (\<lambda>f m. fst m = fst f \<and> snd f = Some (snd m)) fs ms \<and> t = put_object ms" using m(2) by blast
qed (simp add: put_fields_def)

lemma put_fields_None: "put_fields fs = None \<longleftrightarrow> (\<exists>f \<in> set fs. snd f = None)"
  unfolding put_fields_def by (induction fs) (auto split: option.split prod.split)

end
