(* ===== verification/AgentLink.thy ===== *)
theory AgentLink
  imports AgentClient TickProps Json
begin

text \<open>
  The back end and one agent together: commands travel as the texts the hub writes to connections of the
  agent's user, and reports of executions travel back. The relation \<open>link_step\<close> interleaves the
  manager's calls, the ticks, the handlers of the hub and the steps of the agent's session; texts may
  be lost, reports may be repeated or lost, and any statement may fail.
\<close>

section \<open>What the handlers of the hub write\<close>

definition frames_ok :: "Hub \<Rightarrow> bool" where
  "frames_ok h \<longleftrightarrow> (\<forall>x \<in> set (hb_sent h). fst x < length (hb_all h))"

text \<open>The envelopes the handlers of connections write.\<close>

definition hub_envelopes :: "envelope set" where
  "hub_envelopes = {\<lparr>EvType = ''auth_result'', EvPayload = Some True\<rparr>, \<lparr>EvType = ''auth_result'', EvPayload = Some False\<rparr>,
     \<lparr>EvType = ''heartbeat_ack'', EvPayload = None\<rparr>, \<lparr>EvType = ''report_ack'', EvPayload = None\<rparr>}"

lemma hub_envelopes [simp]: "\<lparr>EvType = ''auth_result'', EvPayload = Some b\<rparr> \<in> hub_envelopes"
  "\<lparr>EvType = ''heartbeat_ack'', EvPayload = None\<rparr> \<in> hub_envelopes" "\<lparr>EvType = ''report_ack'', EvPayload = None\<rparr> \<in> hub_envelopes"
  by (cases b) (simp_all add: hub_envelopes_def)

text \<open>From \<open>h\<close> to \<open>g\<close> every user gets envelopes only.\<close>

definition adds :: "hub_env \<Rightarrow> Hub \<Rightarrow> Hub \<Rightarrow> bool" where
  "adds env h g \<longleftrightarrow> frames_ok g \<and> length (hb_all h) \<le> length (hb_all g) \<and>
     (\<forall>u. \<exists>xs. set xs \<subseteq> he_json env ` hub_envelopes \<and> delivered_to g u = delivered_to h u @ xs)"

lemma adds_refl: "frames_ok h \<Longrightarrow> adds env h h"
  unfolding adds_def by (auto intro: exI [of _ "[]"])

lemma adds_trans:
  assumes "adds env h g" "adds env g k"
  shows "adds env h k"
proof -
  have "\<exists>xs. set xs \<subseteq> he_json env ` hub_envelopes \<and> delivered_to k u = delivered_to h u @ xs" for u
  proof -
    obtain xs where xs: "set xs \<subseteq> he_json env ` hub_envelopes" "delivered_to g u = delivered_to h u @ xs"
      using assms(1) unfolding adds_def by blast
    obtain ys where ys: "set ys \<subseteq> he_json env ` hub_envelopes" "delivered_to k u = delivered_to g u @ ys"
      using assms(2) unfolding adds_def by blast
    show ?thesis using xs ys by (intro exI [of _ "xs @ ys"]) auto
  qed
  then show ?thesis using assms by (auto simp: adds_def)
qed

text \<open>A change of the connections that keeps the user of every connection written to.\<close>

lemma adds_same:
  assumes "frames_ok h" "hb_sent g = hb_sent h" "length (hb_all h) \<le> length (hb_all g)"
    "\<And>x. x \<in> set (hb_sent h) \<Longrightarrow> ac_userID (hb_all g ! fst x) = ac_userID (hb_all h ! fst x)"
  shows "adds env h g"
proof -
  have "delivered_to g u = delivered_to h u" for u
    using assms(2,4) unfolding delivered_to_def
    by (intro arg_cong [of _ _ concat] map_cong) (auto simp: text_to_def split: frame.split)
  moreover have "frames_ok g" using assms(1-3) by (fastforce simp: frames_ok_def)
  ultimately show ?thesis using assms(3) by (auto simp: adds_def intro: exI [of _ "[]"])
qed

lemma adds_write:
  assumes "frames_ok h" "case f of TextFrame s \<Rightarrow> s \<in> he_json env ` hub_envelopes | frame.CloseFrame _ \<Rightarrow> True"
  shows "adds env h (snd (write_frame c f h))"
proof (cases "c < length (hb_all h) \<and> ac_open (hb_all h ! c) \<and> \<not> hb_wfails h (hb_writes h)")
  case True
  let ?g = "snd (write_frame c f h)"
  have g: "hb_sent ?g = hb_sent h @ [(c, f)]" "hb_all ?g = hb_all h" using True by (simp_all add: write_frame_def Let_def)
  have t: "text_to ?g u = text_to h u" for u by (simp add: text_to_def g fun_eq_iff)
  then have "delivered_to ?g u = delivered_to h u @ text_to h u (c, f)" for u by (simp add: delivered_to_def g)
  moreover have "set (text_to h u (c, f)) \<subseteq> he_json env ` hub_envelopes" for u
    using assms(2) by (auto simp: text_to_def split: frame.splits)
  ultimately show ?thesis using assms(1) True by (auto simp: adds_def frames_ok_def g)
next
  case False
  then show ?thesis using adds_same [OF assms(1)] by (simp add: write_frame_def Let_def)
qed

lemma user_update [simp]:
  assumes "a < length cs" "ac_userID y = ac_userID (cs ! c)"
  shows "ac_userID (cs[c := y] ! a) = ac_userID (cs ! a)"
  using assms by (cases "a = c") simp_all

lemma adds_close: "frames_ok h \<Longrightarrow> adds env h (close_conn c h)"
  by (rule adds_same) (auto simp: frames_ok_def close_conn_def)

lemma adds_leave: "frames_ok h \<Longrightarrow> adds env h (leave c h)"
  by (rule adds_same) (auto simp: frames_ok_def leave_def Let_def)

lemma adds_frames: "adds env h g \<Longrightarrow> frames_ok g"
  by (simp add: adds_def)

lemma adds_reply:
  assumes "frames_ok h" "e \<in> hub_envelopes"
  shows "adds env h (reply env c e h)"
proof -
  have a: "adds env h (snd (writeRaw c (he_json env e) h))" unfolding writeRaw_def by (rule adds_write [OF assms(1)]) (simp add: assms(2))
  from adds_trans [OF a adds_leave [OF adds_frames [OF a]]] a show ?thesis by (simp add: reply_def split_beta)
qed

lemma adds_evict: "frames_ok h \<Longrightarrow> adds env h (evict c h)"
  unfolding evict_def by (rule adds_trans [OF adds_write adds_close [OF adds_frames [OF adds_write]]]) simp_all

lemma adds_refuse: "frames_ok h \<Longrightarrow> adds env h (refuse env c h)"
  unfolding refuse_def writeRaw_def by (rule adds_trans [OF adds_write adds_close [OF adds_frames [OF adds_write [where env = env]]]]) simp_all

lemma adds_register:
  assumes "frames_ok h" "\<forall>x \<in> set (hb_sent h). fst x \<noteq> c"
  shows "adds env h (register env c userID h)"
proof -
  let ?h = "h\<lparr>hb_all := (hb_all h)[c := \<lparr>ac_userID = userID, ac_open = True, ac_serving = True\<rparr>],
    hb_conns := (hb_conns h)(userID \<mapsto> c)\<rparr>"
  let ?k = "case hb_conns h userID of None \<Rightarrow> ?h | Some old \<Rightarrow> evict old ?h"
  have 1: "adds env h ?h" by (rule adds_same) (use assms in \<open>auto simp: nth_list_update\<close>)
  have 2: "adds env ?h ?k" using adds_refl [OF adds_frames [OF 1]] adds_evict [OF adds_frames [OF 1]] by (simp split: option.split)
  have "adds env ?k (reply env c \<lparr>EvType = ''auth_result'', EvPayload = Some True\<rparr> ?k)" by (rule adds_reply [OF adds_frames [OF 2]]) simp
  then show ?thesis unfolding register_def Let_def by (rule adds_trans [OF adds_trans [OF 1 2]])
qed

lemma adds_handshake:
  assumes "frames_ok h"
  shows "adds env h (handshake env first h)"
proof -
  let ?h = "h\<lparr>hb_all := hb_all h @ [\<lparr>ac_userID = 0, ac_open = True, ac_serving = False\<rparr>]\<rparr>"
  have 1: "adds env h ?h" by (rule adds_same) (use assms in \<open>auto simp: frames_ok_def nth_append\<close>)
  note ok = adds_frames [OF 1]
  have f: "\<forall>x \<in> set (hb_sent ?h). fst x \<noteq> length (hb_all h)" using assms by (auto simp: frames_ok_def)
  have "adds env ?h (handshake env first h)"
    using adds_close [OF ok] adds_refuse [OF ok] adds_register [OF ok f] by (simp add: handshake_def Let_def split: option.split)
  then show ?thesis by (rule adds_trans [OF 1])
qed

lemma adds_message:
  assumes "frames_ok h" "on_message env c raw (h, w) = (g, u)"
  shows "adds env h g"
  using assms adds_refl [OF assms(1)] adds_reply [OF assms(1)]
  by (auto simp: on_message_def Let_def split: option.splits if_splits)

lemma adds_send:
  assumes "frames_ok h"
  shows "frames_ok (snd (SendToAgent u p h))"
proof (cases "hb_conns h u")
  case None
  then show ?thesis using assms by (simp add: SendToAgent_def)
next
  case (Some c)
  then show ?thesis using assms by (auto simp: SendToAgent_def writeRaw_def write_frame_def Let_def frames_ok_def)
qed

lemma dispatchCommand_frames:
  assumes "dispatchCommand env inst cmd (w, h) = (r, u, g)" "frames_ok h"
  shows "frames_ok g"
  using assms adds_send by (auto simp: dispatchCommand_def split: option.splits prod.splits sum.splits)

lemma dispatch_loop_frames:
  "dispatch_loop env inst is (w, h) = (u, g) \<Longrightarrow> frames_ok h \<Longrightarrow> frames_ok g"
proof (induction "is" arbitrary: w h)
  case (Cons i "is")
  obtain r v k where d: "dispatchCommand env inst (intentToCommand inst i (im_now env)) (w, h) = (r, v, k)"
    by (metis prod.exhaust)
  show ?case
    using Cons.IH [of w h] Cons.IH [of v k] Cons.prems dispatchCommand_frames [OF d] by (simp add: d split: if_splits)
qed simp

lemma tick_run_frames:
  assumes "tick_run env inst bars ps row chromosome spawn (w, h) = (r, u, g)" "frames_ok h"
  shows "frames_ok g"
proof -
  let ?out = "im_step env (tick_input env bars ps row chromosome spawn)"
  obtain q v where q: "upsertRuntime env (SiID inst) (OutRuntime ?out) row w = (q, v)" by fastforce
  obtain x k where x: "dispatch_loop env inst (Intents ?out) (release_loop env (SiID inst) (Intents ?out) v, h) = (x, k)" by fastforce
  have "g = h \<or> g = k" using assms(1) by (auto simp: tick_run_def Let_def q x split: sum.splits prod.splits)
  then show ?thesis using assms(2) dispatch_loop_frames [OF x assms(2)] by blast
qed

lemma tick_load_frames:
  assumes "tick_load env inst bars (w, h) = (r, u, g)" "frames_ok h"
  shows "frames_ok g"
proof -
  obtain q1 w1 where s1: "loadOrCreatePortfolio (SiID inst) w = (q1, w1)" by fastforce
  obtain q2 w2 where s2: "load_runtime (SiID inst) w1 = (q2, w2)" by fastforce
  obtain q3 w3 where s3: "loadChampionParams env inst w2 = (q3, w3)" by fastforce
  show ?thesis
    using assms tick_run_frames [OF _ assms(2)] unfolding tick_load_def Let_def
    by (auto simp: s1 s2 s3 split: sum.splits if_splits)
qed

lemma Tick_frames:
  assumes "Tick env inst (w, h) = (r, u, g)" "frames_ok h"
  shows "frames_ok g"
proof (cases "fetchLatestBars env (SiSymbol inst) (SiInterval inst) 300")
  case (Inl e)
  then show ?thesis using assms by (simp add: Tick_def)
next
  case (Inr bars)
  obtain q v k where t: "tick_load env inst bars (w, h) = (q, v, k)" by (metis prod.exhaust)
  show ?thesis using assms tick_load_frames [OF t assms(2)] by (auto simp: Tick_def Inr t split: if_splits option.splits)
qed

section \<open>The joint system\<close>

record link =
  lk_world :: world
  lk_hub :: Hub
  lk_read :: nat
  lk_agent :: "net session"

text \<open>What stays fixed: the agent's user, the JSON form of a command, and the environments.\<close>

record link_env =
  le_user :: nat
  le_envelope :: "TradeCommand \<Rightarrow> string"
  le_hub :: hub_env
  le_agent :: agent_env
  le_exchange :: bitget_env

text \<open>The two ends have the same JSON tags: a fill arrives as it was sent.\<close>

definition fill_of :: "AgentExecution \<Rightarrow> executionMsg" where
  "fill_of ex = \<lparr>EmClientOrderID = AxClientOrderID ex, EmFilledQty = AxFilledQty ex, EmFilledPrice = AxFilledPrice ex, EmFee = AxFee ex\<rparr>"

text \<open>A message to the hub that reports an execution is one the agent has written.\<close>

definition from_agent :: "link_env \<Rightarrow> net session \<Rightarrow> string \<Rightarrow> bool" where
  "from_agent L s raw \<longleftrightarrow> (\<forall>msg p m. he_msg (le_hub L) raw = Some msg \<longrightarrow> he_report (le_hub L) (ImPayload msg) = Some p \<longrightarrow>
     DrExecution p = Some m \<longrightarrow> (\<exists>ex bs. DeltaReportMsg (Some ex) bs \<in> set (se_written s) \<and> m = fill_of ex))"

definition texts :: "link_env \<Rightarrow> link \<Rightarrow> string list" where
  "texts L l = delivered_to (lk_hub l) (le_user L)"

text \<open>The database holds texts in UTF-8 and refuses others.\<close>

definition stored_utf8 :: "db \<Rightarrow> bool" where
  "stored_utf8 d \<longleftrightarrow> list_all (\<lambda>x. utf8_ok (SxClientOrderID x)) (tb_execs d)"

text \<open>The reader of the agent takes the texts in their order; it may miss some, of earlier connections or
  with a connection that broke.\<close>

inductive link_step :: "link_env \<Rightarrow> link \<Rightarrow> link \<Rightarrow> bool" for L where
  manage: "Start k (lk_world l) = (r, u) \<or> Stop k (lk_world l) = (r, u) \<or> Delete k (lk_world l) = (r, u) \<Longrightarrow>
     link_step L l (l\<lparr>lk_world := u\<rparr>)"
| tick: "im_envelope env = le_envelope L \<Longrightarrow> Tick env inst (lk_world l, lk_hub l) = (e, u, g) \<Longrightarrow>
     stored_utf8 (w_db u) \<Longrightarrow> link_step L l (l\<lparr>lk_world := u, lk_hub := g\<rparr>)"
| connect: "link_step L l (l\<lparr>lk_hub := handshake (le_hub L) first (lk_hub l)\<rparr>)"
| disconnect: "c < length (hb_all (lk_hub l)) \<Longrightarrow> ac_serving (hb_all (lk_hub l) ! c) \<Longrightarrow>
     link_step L l (l\<lparr>lk_hub := leave c (lk_hub l)\<rparr>)"
| receive: "c < length (hb_all (lk_hub l)) \<Longrightarrow> ac_serving (hb_all (lk_hub l) ! c) \<Longrightarrow> ac_open (hb_all (lk_hub l) ! c) \<Longrightarrow>
     from_agent L (lk_agent l) raw \<Longrightarrow> on_message (le_hub L) c raw (lk_hub l, lk_world l) = (g, u) \<Longrightarrow>
     link_step L l (l\<lparr>lk_world := u, lk_hub := g\<rparr>)"
| read: "lk_read l \<le> k \<Longrightarrow> k < length (texts L l) \<Longrightarrow> inbound_command (le_agent L) (texts L l ! k) = Some cmd \<Longrightarrow>
     session_step (BitgetClient (le_exchange L)) (le_agent L) (lk_agent l) s \<Longrightarrow>
     se_received s = se_received (lk_agent l) @ [cmd] \<Longrightarrow> link_step L l (l\<lparr>lk_read := Suc k, lk_agent := s\<rparr>)"
| agent: "session_step (BitgetClient (le_exchange L)) (le_agent L) (lk_agent l) s \<Longrightarrow>
     se_received s = se_received (lk_agent l) \<Longrightarrow> link_step L l (l\<lparr>lk_agent := s\<rparr>)"

section \<open>The invariant\<close>

text \<open>The text of a command whose identifier is valid UTF-8 decodes to a command with that identifier, and no
  other text of the hub decodes to a command.\<close>

definition codecs_ok :: "link_env \<Rightarrow> bool" where
  "codecs_ok L \<longleftrightarrow> (\<forall>c. utf8_ok (TcClientOrderID c) \<longrightarrow>
       map_option AcClientOrderID (inbound_command (le_agent L) (le_envelope L c)) = Some (TcClientOrderID c)) \<and>
     (\<forall>e \<in> hub_envelopes. inbound_command (le_agent L) (he_json (le_hub L) e) = None)"

definition commands :: "link_env \<Rightarrow> string list \<Rightarrow> AgentCommand list" where
  "commands L ts = List.map_filter (inbound_command (le_agent L)) ts"

lemma commands_simps [simp]: "commands L [] = []" "commands L (xs @ ys) = commands L xs @ commands L ys"
  by (simp_all add: commands_def map_filter_def)

lemma commands_envelopes: "codecs_ok L \<Longrightarrow> set xs \<subseteq> he_json (le_hub L) ` hub_envelopes \<Longrightarrow> commands L xs = []"
  by (induction xs) (auto simp: codecs_ok_def commands_def map_filter_def)

lemma commands_sent: "codecs_ok L \<Longrightarrow> \<forall>c \<in> set cs. utf8_ok (TcClientOrderID c) \<Longrightarrow> ids (commands L (map (le_envelope L) cs)) = map TcClientOrderID cs"
proof (induction cs)
  case Nil
  then show ?case by (simp add: ids_def)
next
  case (Cons c cs)
  obtain a where "inbound_command (le_agent L) (le_envelope L c) = Some a" "AcClientOrderID a = TcClientOrderID c"
    using Cons.prems by (auto simp: codecs_ok_def map_option_eq_Some)
  then show ?case using Cons by (simp add: commands_def map_filter_def ids_def)
qed

definition exec_ids :: "db \<Rightarrow> string set" where
  "exec_ids d = SxClientOrderID ` set (tb_execs d)"

lemma order_moves_ids: "order_moves d e \<Longrightarrow> exec_ids d \<subseteq> exec_ids e"
proof -
  assume "order_moves d e"
  then obtain ys zs where e: "tb_execs e = ys @ zs" "list_all2 (\<lambda>x y. y = x\<lparr>SxStatus := SxStatus y\<rparr> \<and>
     (SxStatus y = SxStatus x \<or> SxStatus x = ''pending'' \<and> SxStatus y = ''filled'')) (tb_execs d) ys"
    unfolding order_moves_def by blast
  from e(2) have "list_all2 (\<lambda>x y. SxClientOrderID y = SxClientOrderID x) (tb_execs d) ys"
  proof (rule list_all2_mono)
    fix x y :: SpotExecution
    assume "y = x\<lparr>SxStatus := SxStatus y\<rparr> \<and> (SxStatus y = SxStatus x \<or> SxStatus x = ''pending'' \<and> SxStatus y = ''filled'')"
    then have "y = x\<lparr>SxStatus := SxStatus y\<rparr>" by (rule conjunct1)
    then have "SxClientOrderID y = SxClientOrderID (x\<lparr>SxStatus := SxStatus y\<rparr>)" by (rule arg_cong)
    then show "SxClientOrderID y = SxClientOrderID x" by simp
  qed
  then have "map SxClientOrderID ys = map SxClientOrderID (tb_execs d)"
    by (simp add: list_all2_conv_all_nth list_eq_iff_nth_eq)
  then have "SxClientOrderID ` set ys = SxClientOrderID ` set (tb_execs d)" by (metis list.set_map)
  then show ?thesis by (auto simp: exec_ids_def e(1))
qed

text \<open>The identifiers in transit name rows, once each; the agent has read some of the commands in transit,
  in their order; and the trades beyond \<open>d0\<close> are fills the agent has written.\<close>

definition link_ok :: "link_env \<Rightarrow> db \<Rightarrow> nat \<Rightarrow> link \<Rightarrow> bool" where
  "link_ok L d0 n0 l \<longleftrightarrow> registry_ok (lk_hub l) \<and> frames_ok (lk_hub l) \<and> ledger_ok (w_db (lk_world l)) \<and>
     distinct (ids (commands L (texts L l))) \<and> set (ids (commands L (texts L l))) \<subseteq> exec_ids (w_db (lk_world l)) \<and>
     lk_read l \<le> length (texts L l) \<and> subseq (se_received (lk_agent l)) (commands L (take (lk_read l) (texts L l))) \<and>
     session_ok posted n0 (lk_agent l) \<and>
     TrClientOrderID ` set (tb_trades (w_db (lk_world l))) \<subseteq>
       TrClientOrderID ` set (tb_trades d0) \<union> set (concat (map executed (se_written (lk_agent l))))"

lemma session_written:
  assumes "session_step xc env s t"
  shows "\<exists>ms. se_written t = se_written s @ ms"
  using assms by (cases rule: session_step.cases) auto

text \<open>A step of the back end that is one of \<open>saas_step\<close> and gives the user the texts \<open>xs\<close>.\<close>

lemma link_backend:
  assumes "link_ok L d0 n0 l" "saas_step (le_hub L) (lk_world l, lk_hub l) (u, g)" "frames_ok g"
    "texts L (l\<lparr>lk_hub := g\<rparr>) = texts L l @ xs" "distinct (ids (commands L xs))"
    "set (ids (commands L xs)) \<subseteq> exec_ids (w_db u)" "set (ids (commands L xs)) \<inter> exec_ids (w_db (lk_world l)) = {}"
    "TrClientOrderID ` set (tb_trades (w_db u)) \<subseteq>
       TrClientOrderID ` set (tb_trades (w_db (lk_world l))) \<union> set (concat (map executed (se_written (lk_agent l))))"
  shows "link_ok L d0 n0 (l\<lparr>lk_world := u, lk_hub := g\<rparr>)"
proof -
  let ?l = "l\<lparr>lk_world := u, lk_hub := g\<rparr>"
  note ok = assms(1) [unfolded link_ok_def]
  have t: "texts L ?l = texts L l @ xs" using assms(4) by (simp add: texts_def)
  have led: "ledger_ok (w_db (lk_world l))" using ok by blast
  have ids: "exec_ids (w_db (lk_world l)) \<subseteq> exec_ids (w_db u)"
    by (rule order_moves_ids [OF saas_step_orders [OF assms(2) led]])
  have c: "ids (commands L (texts L ?l)) = ids (commands L (texts L l)) @ ids (commands L xs)" by (simp add: t ids_def)
  have "distinct (ids (commands L (texts L ?l)))" using ok assms(5,7) by (auto simp: c)
  moreover have "set (ids (commands L (texts L ?l))) \<subseteq> exec_ids (w_db u)" using ok assms(6) ids by (auto simp: c)
  moreover have "registry_ok g" using saas_step_registry [OF assms(2)] ok by blast
  moreover have "ledger_ok (w_db u)" by (rule saas_step_ledger [OF assms(2) led])
  moreover have "TrClientOrderID ` set (tb_trades (w_db u)) \<subseteq>
      TrClientOrderID ` set (tb_trades d0) \<union> set (concat (map executed (se_written (lk_agent l))))"
    using ok assms(8) by blast
  ultimately show ?thesis using ok assms(3) unfolding link_ok_def by (simp add: t)
qed

lemma texts_update [simp]:
  "texts L (l\<lparr>lk_world := u\<rparr>) = texts L l" "texts L (l\<lparr>lk_agent := s\<rparr>) = texts L l" "texts L (l\<lparr>lk_read := k\<rparr>) = texts L l"
  "texts L (l\<lparr>lk_hub := g\<rparr>) = delivered_to g (le_user L)"
  by (simp_all add: texts_def)

text \<open>The handlers of the hub: nothing but envelopes.\<close>

lemma link_hub:
  assumes "codecs_ok L" "link_ok L d0 n0 l" "hub_step (le_hub L) (lk_hub l, lk_world l) (g, u)" "adds (le_hub L) (lk_hub l) g"
    "TrClientOrderID ` set (tb_trades (w_db u)) \<subseteq>
       TrClientOrderID ` set (tb_trades (w_db (lk_world l))) \<union> set (concat (map executed (se_written (lk_agent l))))"
  shows "link_ok L d0 n0 (l\<lparr>lk_world := u, lk_hub := g\<rparr>)"
proof -
  obtain xs where xs: "set xs \<subseteq> he_json (le_hub L) ` hub_envelopes" "delivered_to g (le_user L) = texts L l @ xs"
    using assms(4) unfolding adds_def texts_def by blast
  have c: "commands L xs = []" by (rule commands_envelopes [OF assms(1) xs(1)])
  show ?thesis
    by (rule link_backend [OF assms(2) saas_step.hub [OF assms(3)] adds_frames [OF assms(4)], of xs])
      (use xs c assms(5) in \<open>simp_all add: ids_def\<close>)
qed

lemma message_trades:
  assumes "on_message env c raw (h, w) = (g, u)"
  shows "tb_trades (w_db u) = tb_trades (w_db w) \<or> (\<exists>msg p m t. he_msg env raw = Some msg \<and> he_report env (ImPayload msg) = Some p \<and>
    DrExecution p = Some m \<and> tb_trades (w_db u) = tb_trades (w_db w) @ [t] \<and> TrClientOrderID t = EmClientOrderID m)"
proof -
  consider "u = w" | msg p where "he_msg env raw = Some msg" "he_report env (ImPayload msg) = Some p"
      "u = snd (processDeltaReport (he_codec env) (ac_userID (hb_all h ! c)) p w)"
    using assms by (auto simp: on_message_def Let_def split: option.splits if_splits)
  then show ?thesis
  proof cases
    case 1
    then show ?thesis by simp
  next
    case 2
    obtain r v where r: "processDeltaReport (he_codec env) (ac_userID (hb_all h ! c)) p w = (r, v)" by fastforce
    then have v: "u = v" using 2(3) by simp
    from r show ?thesis
    proof (cases rule: report_cases)
      case (fill m exec cmd ps)
      have "tb_trades (w_db u) = tb_trades (w_db w) @ [(trade_of exec cmd m)\<lparr>TrID := next_id (map TrID (tb_trades (w_db w)))\<rparr>]"
        by (simp add: v fill(9) settled_frame)
      then show ?thesis using 2(1,2) fill(3) by (intro disjI2 exI conjI) (assumption+, simp add: trade_of_def)
    qed (simp_all add: v)
  qed
qed

lemma status_trades:
  assumes "Start k w = (r, u) \<or> Stop k w = (r, u) \<or> Delete k w = (r, u)"
  shows "tb_trades (w_db u) = tb_trades (w_db w) \<and> saas_step henv (w, h) (u, h)"
proof -
  have "\<exists>P st q. statement (set_status P st) w = (q, u)" using assms status_calls by blast
  then have "tb_trades (w_db u) = tb_trades (w_db w)" using set_status_tables by blast
  then show ?thesis using assms saas_step.start saas_step.stop saas_step.delete by blast
qed

lemma Tick_trades:
  assumes "Tick env inst (w, h) = (r, u, g)"
  shows "tb_trades (w_db u) = tb_trades (w_db w)"
proof -
  from Tick_changes [OF assms] obtain v where v: "tick_changes (SiID inst) (w_db w) (w_db v)"
    "u = v \<or> u = markError (SiID inst) v" by blast
  have "tb_trades (w_db u) = tb_trades (w_db v)" using v(2) set_status_tables [OF markError_statement] by auto
  then show ?thesis using tick_changes_frame(2) [OF v(1)] by simp
qed

lemma link_tick:
  assumes "codecs_ok L" "link_ok L d0 n0 l" "im_envelope env = le_envelope L" "Tick env inst (lk_world l, lk_hub l) = (e, u, g)"
    "stored_utf8 (w_db u)"
  shows "link_ok L d0 n0 (l\<lparr>lk_world := u, lk_hub := g\<rparr>)"
proof -
  have ok: "registry_ok (lk_hub l)" "frames_ok (lk_hub l)" using assms(2) by (simp_all add: link_ok_def)
  from Tick_sent [OF assms(4) ok(1), unfolded sent_recorded_def, THEN conjunct2] obtain cs
    where cs: "\<forall>c \<in> set cs. recorded inst (w_db u) c" "distinct (map TcClientOrderID cs)"
      "TcClientOrderID ` set cs \<inter> SxClientOrderID ` set (tb_execs (w_db (lk_world l))) = {}"
      "delivered_to g = (delivered_to (lk_hub l))(SiUserID inst := delivered_to (lk_hub l) (SiUserID inst) @ map (im_envelope env) cs)"
    by (elim exE conjE)
  have s: "saas_step (le_hub L) (lk_world l, lk_hub l) (u, g)" by (rule saas_step.tick [OF assms(4)])
  have tr: "tb_trades (w_db u) = tb_trades (w_db (lk_world l))" by (rule Tick_trades [OF assms(4)])
  note given = link_backend [OF assms(2) s Tick_frames [OF assms(4) ok(2)]]
  show ?thesis
  proof (cases "SiUserID inst = le_user L")
    case True
    have "\<forall>c \<in> set cs. utf8_ok (TcClientOrderID c)"
      using cs(1) recorded_id assms(5) by (fastforce simp: stored_utf8_def list_all_iff)
    then have i: "ids (commands L (map (le_envelope L) cs)) = map TcClientOrderID cs" by (rule commands_sent [OF assms(1)])
    have "set (map TcClientOrderID cs) \<subseteq> exec_ids (w_db u)" using cs(1) recorded_id unfolding exec_ids_def by auto
    then show ?thesis
      using cs(2,3) tr by (intro given [of "map (le_envelope L) cs"]) (simp_all add: i cs(4) True assms(3) texts_def exec_ids_def)
  next
    case False
    then have t: "delivered_to g (le_user L) = texts L l" using cs(4) by (simp add: texts_def)
    show ?thesis by (rule given [of "[]"]) (simp_all add: t tr ids_def)
  qed
qed

lemma link_agent:
  assumes "link_ok L d0 n0 l" "session_step (BitgetClient (le_exchange L)) (le_agent L) (lk_agent l) s"
    "lk_read l \<le> k" "k \<le> length (texts L l)" "subseq (se_received s) (commands L (take k (texts L l)))"
  shows "link_ok L d0 n0 (l\<lparr>lk_read := k, lk_agent := s\<rparr>)"
proof -
  obtain ms where ms: "se_written s = se_written (lk_agent l) @ ms" using session_written [OF assms(2)] by blast
  have "session_ok posted n0 s"
    by (rule bitget.session_step_ok [OF assms(2)]) (use assms(1) in \<open>simp add: link_ok_def\<close>)
  then show ?thesis using assms(1,4,5) by (auto simp: link_ok_def ms)
qed

lemma link_step_ok:
  assumes "codecs_ok L" "link_step L l m" "link_ok L d0 n0 l"
  shows "link_ok L d0 n0 m"
  using assms(2)
proof cases
  case (manage k r u)
  note st = status_trades [OF manage(2), of "le_hub L" "lk_hub l"]
  have "link_ok L d0 n0 (l\<lparr>lk_world := u, lk_hub := lk_hub l\<rparr>)"
    by (rule link_backend [OF assms(3) conjunct2 [OF st], of "[]"]) (use assms(3) st in \<open>simp_all add: link_ok_def ids_def texts_def\<close>)
  then show ?thesis by (simp add: manage(1))
next
  case (tick env inst e u g)
  then show ?thesis using link_tick [OF assms(1,3)] by simp
next
  case (connect first)
  have "link_ok L d0 n0 (l\<lparr>lk_world := lk_world l, lk_hub := handshake (le_hub L) first (lk_hub l)\<rparr>)"
    by (rule link_hub [OF assms(1,3) hub_step.connect adds_handshake]) (use assms(3) in \<open>simp_all add: link_ok_def\<close>)
  then show ?thesis by (simp add: connect)
next
  case (disconnect c)
  have "link_ok L d0 n0 (l\<lparr>lk_world := lk_world l, lk_hub := leave c (lk_hub l)\<rparr>)"
    by (rule link_hub [OF assms(1,3) hub_step.disconnect [OF disconnect(2,3)] adds_leave]) (use assms(3) in \<open>simp_all add: link_ok_def\<close>)
  then show ?thesis by (simp add: disconnect(1))
next
  case (receive c raw g u)
  have h: "hub_step (le_hub L) (lk_hub l, lk_world l) (g, u)"
    using hub_step.receive [OF receive(2-4), of "le_hub L" "lk_world l" raw] receive(6) by simp
  have f: "frames_ok (lk_hub l)" using assms(3) by (simp add: link_ok_def)
  have "TrClientOrderID ` set (tb_trades (w_db u)) \<subseteq>
      TrClientOrderID ` set (tb_trades (w_db (lk_world l))) \<union> set (concat (map executed (se_written (lk_agent l))))"
    using message_trades [OF receive(6)]
  proof
    assume "\<exists>msg p m t. he_msg (le_hub L) raw = Some msg \<and> he_report (le_hub L) (ImPayload msg) = Some p \<and> DrExecution p = Some m \<and>
      tb_trades (w_db u) = tb_trades (w_db (lk_world l)) @ [t] \<and> TrClientOrderID t = EmClientOrderID m"
    then obtain m t where t: "tb_trades (w_db u) = tb_trades (w_db (lk_world l)) @ [t]" "TrClientOrderID t = EmClientOrderID m"
      "\<exists>ex bs. DeltaReportMsg (Some ex) bs \<in> set (se_written (lk_agent l)) \<and> m = fill_of ex"
      using receive(5) unfolding from_agent_def by blast
    from t(3) obtain ex bs where ex: "DeltaReportMsg (Some ex) bs \<in> set (se_written (lk_agent l))" "m = fill_of ex" by blast
    have "AxClientOrderID ex \<in> set (concat (map executed (se_written (lk_agent l))))"
      using ex(1) by (auto intro!: bexI [of _ "DeltaReportMsg (Some ex) bs"])
    then show ?thesis using t(1,2) ex(2) by (auto simp: fill_of_def)
  qed auto
  then show ?thesis using link_hub [OF assms(1,3) h adds_message [OF f receive(6)]] receive(1) by simp
next
  case (read k cmd s)
  let ?ts = "texts L l"
  have sub: "subseq (se_received (lk_agent l)) (commands L (take (lk_read l) ?ts))" using assms(3) by (simp add: link_ok_def)
  have "take k ?ts = take (lk_read l) ?ts @ drop (lk_read l) (take k ?ts)" using read(2) by (metis append_take_drop_id min.absorb2 take_take min.commute)
  then have "take (Suc k) ?ts = take (lk_read l) ?ts @ drop (lk_read l) (take k ?ts) @ [?ts ! k]"
    using read(3) by (simp add: take_Suc_conv_app_nth)
  then have c: "commands L (take (Suc k) ?ts) = (commands L (take (lk_read l) ?ts) @ commands L (drop (lk_read l) (take k ?ts))) @ [cmd]"
    using read(4) by (simp add: commands_def map_filter_def)
  have "subseq (se_received s) (commands L (take (Suc k) ?ts))"
    unfolding c read(6) by (rule list_emb_append_mono [OF subseq_rev_drop_many [OF sub] subseq_order.refl])
  then show ?thesis using link_agent [OF assms(3) read(5), of "Suc k"] read(1-3) by simp
next
  case (agent s)
  have "link_ok L d0 n0 (l\<lparr>lk_read := lk_read l, lk_agent := s\<rparr>)"
    by (rule link_agent [OF assms(3) agent(2)]) (use assms(3) agent(3) in \<open>simp_all add: link_ok_def\<close>)
  then show ?thesis by (simp add: agent(1))
qed

section \<open>End to end\<close>

text \<open>However ticks, calls, connections, reports and the steps of the agent interleave, and whatever is lost,
  repeated or fails: the orders follow the ledger.\<close>

lemma link_orders:
  assumes "codecs_ok L" "open_session (le_agent L) lg = Inr s0" "ledger_ok (w_db w)"
    "(link_step L)\<^sup>*\<^sup>* \<lparr>lk_world = w, lk_hub = NewHub fails, lk_read = 0, lk_agent = s0\<rparr> l"
  shows "distinct (ids (se_received (lk_agent l))) \<and>
    set (ids (se_received (lk_agent l))) \<subseteq> SxClientOrderID ` set (tb_execs (w_db (lk_world l))) \<and>
    posted (se_world (lk_agent l)) \<le> posted lg + length (se_received (lk_agent l)) \<and>
    posted (se_world (lk_agent l)) \<le> posted lg + length (tb_execs (w_db (lk_world l))) \<and>
    TrClientOrderID ` set (tb_trades (w_db (lk_world l))) \<subseteq>
      TrClientOrderID ` set (tb_trades (w_db w)) \<union> set (ids (se_received (lk_agent l)))"
proof -
  let ?l0 = "\<lparr>lk_world = w, lk_hub = NewHub fails, lk_read = 0, lk_agent = s0\<rparr>"
  have "se_received s0 = []" using assms(2) by (auto simp: open_session_def Let_def split: sum.splits if_splits)
  then have "link_ok L (w_db w) (posted lg) ?l0"
    using assms(3) open_session_ok [OF assms(2)]
    by (simp add: link_ok_def texts_def delivered_to_def NewHub_def registry_ok_def frames_ok_def ids_def)
  with assms(4) have "link_ok L (w_db w) (posted lg) l"
    by (induction rule: rtranclp_induct) (use link_step_ok [OF assms(1)] in blast)+
  then have ok: "distinct (ids (commands L (texts L l)))" "set (ids (commands L (texts L l))) \<subseteq> exec_ids (w_db (lk_world l))"
    "subseq (se_received (lk_agent l)) (commands L (take (lk_read l) (texts L l)))" "session_ok posted (posted lg) (lk_agent l)"
    "TrClientOrderID ` set (tb_trades (w_db (lk_world l))) \<subseteq>
       TrClientOrderID ` set (tb_trades (w_db w)) \<union> set (concat (map executed (se_written (lk_agent l))))"
    by (simp_all add: link_ok_def)
  let ?r = "ids (se_received (lk_agent l))"
  have "commands L (texts L l) = commands L (take (lk_read l) (texts L l)) @ commands L (drop (lk_read l) (texts L l))"
    by (simp flip: commands_simps)
  then have "subseq (se_received (lk_agent l)) (commands L (texts L l))" using ok(3) by (simp add: subseq_rev_drop_many)
  then have sub: "subseq ?r (ids (commands L (texts L l)))" unfolding ids_def by (rule subseq_map)
  then obtain N where N: "?r = nths (ids (commands L (texts L l))) N" unfolding subseq_conv_nths by blast
  have d: "distinct ?r" unfolding N by (rule distinct_nthsI [OF ok(1)])
  have r: "set ?r \<subseteq> exec_ids (w_db (lk_world l))" using ok(2) set_nths_subset unfolding N by fastforce
  have "length (se_received (lk_agent l)) = card (set ?r)" using distinct_card [OF d] by (simp add: ids_def)
  also have "\<dots> \<le> card (exec_ids (w_db (lk_world l)))" by (rule card_mono [OF _ r]) (simp add: exec_ids_def)
  also have "\<dots> \<le> length (tb_execs (w_db (lk_world l)))" unfolding exec_ids_def
    by (rule order_trans [OF card_image_le card_length]) simp
  finally have n: "length (se_received (lk_agent l)) \<le> length (tb_execs (w_db (lk_world l)))" .
  have p: "posted (se_world (lk_agent l)) \<le> posted lg + length (se_received (lk_agent l))"
    "pending_ids (lk_agent l) \<subseteq># mset ?r" using ok(4) by (simp_all add: session_ok_def)
  have "set (concat (map executed (se_written (lk_agent l)))) \<subseteq> set_mset (pending_ids (lk_agent l))"
    by (auto simp: pending_ids_def outbound_def)
  also have "\<dots> \<subseteq> set ?r" using set_mset_mono [OF p(2)] by simp
  finally have "TrClientOrderID ` set (tb_trades (w_db (lk_world l))) \<subseteq> TrClientOrderID ` set (tb_trades (w_db w)) \<union> set ?r"
    using ok(5) by blast
  moreover have "posted (se_world (lk_agent l)) \<le> posted lg + length (tb_execs (w_db (lk_world l)))" using p(1) n by simp
  ultimately show ?thesis using d r [unfolded exec_ids_def] p(1) by (intro conjI)
qed

end
