(* ===== verification/JsonNumber.thy ===== *)
theory JsonNumber
  imports Json
begin

text \<open>
  Numbers in \<open>encoding/json\<close>: \<open>strconv.AppendFloat\<close> with the shortest decimal that reads back as the same
  float64, in the format the package picks, and \<open>strconv.ParseFloat\<close> on the numbers of the grammar.
  Seventeen digits are always enough, so that every finite float64 survives, with its sign.
\<close>

section \<open>Writing and reading\<close>

text \<open>The decimal exponent of a positive number, as \<open>ilog2\<close> is the binary one.\<close>

definition dec_exp :: "rat \<Rightarrow> int" where
  "dec_exp y = (if 1 \<le> y then int (length (show_nat \<lfloor>y\<rfloor>)) - 1 else - int (length (show_nat (\<lceil>1 / y\<rceil> - 1))))"

text \<open>The closest decimal with \<open>n\<close> digits that reads back as \<open>y\<close>; next to a power of two the closer neighbour may
  miss where the other one hits.\<close>

definition decimal_at :: "rat \<Rightarrow> nat \<Rightarrow> (int \<times> int) option" where
  "decimal_at y n = (let q = dec_exp y - (int n - 1); z = y * 10 powi (- q); near = round_even z;
       other = (if near = \<lfloor>z\<rfloor> then near + 1 else near - 1); fits = (\<lambda>d. rnd (of_int d * 10 powi q) = rnd y)
     in if fits near then Some (near, q) else if fits other then Some (other, q) else None)"

primrec first_some :: "('a \<Rightarrow> 'b option) \<Rightarrow> 'a list \<Rightarrow> 'b option" where
  "first_some f [] = None"
| "first_some f (x # xs) = (case f x of None \<Rightarrow> first_some f xs | Some y \<Rightarrow> Some y)"

definition shortest :: "rat \<Rightarrow> int \<times> int" where
  "shortest y = (case first_some (decimal_at y) [1..<18] of None \<Rightarrow> (0, 0)
     | Some (d, q) \<Rightarrow> if d = 10 then (1, q + 1) else (d, q))"

definition fixed_text :: "string \<Rightarrow> int \<Rightarrow> string" where
  "fixed_text ds q = (let dp = int (length ds) + q in
     if 0 \<le> q then ds @ replicate (nat q) (CHR ''0'')
     else if 0 < dp then take (nat dp) ds @ CHR ''.'' # drop (nat dp) ds
     else ''0.'' @ replicate (nat (- dp)) (CHR ''0'') @ ds)"

text \<open>The exponent has no leading zero: the package removes the one of \<open>strconv\<close>.\<close>

definition exp_text :: "string \<Rightarrow> int \<Rightarrow> string" where
  "exp_text ds q = (let e = int (length ds) + q - 1 in
     hd ds # (if tl ds = [] then [] else CHR ''.'' # tl ds) @ CHR ''e'' # (if e < 0 then CHR ''-'' else CHR ''+'') # show_nat \<bar>e\<bar>)"

definition f_abs :: "f64 \<Rightarrow> f64" where
  "f_abs x = pack False (f_bits x)"

definition put_float :: "f64 \<Rightarrow> string option" where
  "put_float x = (if f_nan x \<or> f_inf x then None
     else Some ((if f_sign x then ''-'' else []) @ (if f_bits x = 0 then ''0'' else case shortest \<bar>f_val x\<bar> of (d, q) \<Rightarrow>
       (if f_abs x < lit 1 (10 ^ 6) \<or> lit (10 ^ 21) 1 \<le> f_abs x then exp_text else fixed_text) (show_nat d) q)))"

definition num_val :: "number \<Rightarrow> rat" where
  "num_val nm = of_int (read_nat (nm_whole nm @ nm_frac nm)) * 10 powi (nm_exp nm - int (length (nm_frac nm)))"

definition parse_float :: "number \<Rightarrow> f64 option" where
  "parse_float nm = (let r = rnd (num_val nm)
     in if f_inf r then None else Some (if nm_neg nm then - r else r))"

definition get_float :: "string \<Rightarrow> f64 \<Rightarrow> f64 option" where
  "get_float raw old = (if is_null raw then Some old else do { nm \<leftarrow> at_end (scan_number (ws raw)); parse_float nm })"

text \<open>A 64-bit integer is read from digits alone.\<close>

definition put_int :: "i64 \<Rightarrow> string" where
  "put_int i = show_int (sint i)"

definition get_int :: "string \<Rightarrow> i64 \<Rightarrow> i64 option" where
  "get_int raw old = (if is_null raw then Some old else case opt_char (CHR ''-'') (ws raw) of (neg, s) \<Rightarrow>
     (case digits s of (ds, r) \<Rightarrow> let n = (if neg then - read_nat ds else read_nat ds) in
        if ds = [] \<or> ws r \<noteq> [] \<or> n < - (2 ^ 63) \<or> 2 ^ 63 \<le> n then None else Some (word_of_int n)))"

section \<open>Rounding back\<close>

lemma round_even_near: "\<bar>x - of_int j\<bar> < 1 / 2 \<Longrightarrow> round_even x = j"
  using round_even_err [of x] by linarith

text \<open>What is closer to a float64 than half the gap to its neighbours rounds to it.\<close>

lemma rmag_near:
  assumes v: "0 < v" "rmag v = v" and y: "\<bar>y - v\<bar> < v * 2 powi (- 54)"
  shows "rmag y = v"
proof -
  define e u k where "e = ulp_exp v" and "u = ulp_exp y" and "k = rmant v"
  have vk: "v = of_int k * 2 powi e" using v(2) by (simp add: rmag_def e_def k_def)
  have vlt: "v < 2 powi (e + 53)" unfolding e_def by (rule ulp_exp_upper [OF v(1)])
  have half: "v * 2 powi (- 54) < v / 2"
  proof -
    have "(2::rat) powi (- 54) < 2 powi (- 1)" by (subst p2_less_iff) simp
    then have "v * 2 powi (- 54) < v * 2 powi (- 1)" using v(1) by (rule mult_strict_left_mono)
    then show ?thesis by simp
  qed
  have ypos: "v / 2 < y" using y half by linarith
  then have y0: "0 < y" using v(1) by linarith
  have small: "v * 2 powi (- 54) < 2 powi (e - 1)"
  proof -
    have "v * 2 powi (- 54) < 2 powi (e + 53) * 2 powi (- 54)" using vlt by (intro mult_strict_right_mono) auto
    also have "\<dots> = 2 powi (e - 1)" by (simp only: p2_add [symmetric]) simp
    finally show ?thesis .
  qed
  have k53: "k + 1 \<le> 2 ^ 53"
  proof -
    have "of_int k * 2 powi e < (of_int (2 ^ 53) :: rat) * 2 powi e" using vlt unfolding vk by (simp add: p2_add p2_nat mult.commute)
    then have "(of_int k :: rat) < of_int (2 ^ 53)" by (rule mult_right_less_imp_less) simp
    then show ?thesis by (simp only: of_int_less_iff zless_imp_add1_zle)
  qed
  have ue: "u \<le> e"
  proof -
    have "y < v + 2 powi (e - 1)" using y small by linarith
    also have "\<dots> \<le> v + 2 powi e" by simp
    also have "\<dots> = of_int (k + 1) * 2 powi e" by (simp add: vk distrib_right)
    also have "\<dots> \<le> of_int (2 ^ 53) * 2 powi e" using k53 by (intro mult_right_mono) (simp_all only: of_int_le_iff p2_nonneg)
    also have "\<dots> = 2 powi ((e + 52) + 1)" by (simp only: p2_nat p2_add) (simp add: p2_add p2_nat)
    finally have "ilog2 y \<le> e + 52" by (rule ilog2_le [OF y0])
    then show ?thesis using ulp_exp_ge [of v] by (simp add: u_def ulp_exp_def e_def)
  qed
  have bound: "v \<le> 2 powi (u + 53)"
  proof (cases "u = e")
    case True
    then show ?thesis using vlt by simp
  next
    case False
    then have lt: "u + 53 \<le> e + 52" using ue by simp
    then have e1: "- 1074 < ulp_exp v" using ulp_exp_ge [of y] by (simp add: u_def e_def)
    have yu: "y < 2 powi (u + 53)" unfolding u_def by (rule ulp_exp_upper [OF y0])
    have "y < 2 powi (e + 52)" using yu lt p2_mono [OF lt] by linarith
    have "\<not> 2 ^ 52 + 1 \<le> k"
    proof
      assume "2 ^ 52 + 1 \<le> k"
      then have "of_int (2 ^ 52 + 1) * 2 powi e \<le> v" unfolding vk by (intro mult_right_mono) (simp_all only: of_int_le_iff p2_nonneg)
      moreover have "(of_int (2 ^ 52 + 1) :: rat) * 2 powi e = 2 powi (e + 52) + 2 powi e" by (simp add: p2_add p2_nat distrib_right mult.commute)
      moreover have "(2::rat) powi (e - 1) \<le> 2 powi e" by simp
      ultimately show False using \<open>y < 2 powi (e + 52)\<close> y small by linarith
    qed
    then have "k \<le> 2 ^ 52" by linarith
    then have "of_int k * 2 powi e \<le> (of_int (2 ^ 52) :: rat) * 2 powi e" by (intro mult_right_mono) (simp_all only: of_int_le_iff p2_nonneg)
    also have "\<dots> = 2 powi (e + 52)" by (simp add: p2_add p2_nat mult.commute)
    finally have vle: "v \<le> 2 powi (e + 52)" by (simp only: vk)
    have "2 powi (ulp_exp v + 52) \<le> v" by (rule ulp_exp_lower [OF v(1) e1])
    then have "2 powi ((e + 51) + 1) \<le> v" by (simp add: e_def add.commute)
    then have "2 powi (e + 51) \<le> v / 2" unfolding p2_add [of "e + 51" 1] by simp
    then have "e + 51 \<le> ilog2 y" using ypos y0 by (intro ilog2_ge) auto
    then have "e + 52 \<le> u + 53" by (simp add: u_def ulp_exp_def)
    then show ?thesis using vle p2_mono [of "e + 52" "u + 53"] by linarith
  qed
  define j where "j = k * 2 ^ nat (e - u)"
  have j: "v * 2 powi (- u) = of_int j"
  proof -
    have "v * 2 powi (- u) = of_int k * 2 powi (e - u)" by (simp add: vk mult.assoc flip: p2_add)
    then show ?thesis using ue by (simp add: j_def p2_nat)
  qed
  have "\<bar>y * 2 powi (- u) - of_int j\<bar> = \<bar>y - v\<bar> * 2 powi (- u)" 
    unfolding j [symmetric] by (simp add: abs_mult flip: left_diff_distrib)
  also have "\<dots> < v * 2 powi (- 54) * 2 powi (- u)" using y by (intro mult_strict_right_mono) auto
  also have "\<dots> \<le> 2 powi (u + 53) * 2 powi (- 54) * 2 powi (- u)" using bound by (intro mult_right_mono) auto
  also have "\<dots> = 2 powi (- 1)" by (simp only: p2_add [symmetric]) simp
  finally have "round_even (y * 2 powi (- u)) = j" by (intro round_even_near) simp
  then have "rmag y = of_int j * 2 powi u" by (simp add: rmag_def rmant_def u_def)
  also have "\<dots> = v" unfolding j [symmetric] by (simp add: mult.assoc)
  finally show ?thesis .
qed

lemma rnd_near:
  assumes "f_fin x" "0 < \<bar>f_val x\<bar>" "\<bar>y - \<bar>f_val x\<bar>\<bar> < \<bar>f_val x\<bar> * 2 powi (- 54)"
  shows "rnd y = rnd \<bar>f_val x\<bar>"
proof -
  let ?v = "\<bar>f_val x\<bar>"
  have nan: "\<not> f_nan x" "?v < f_lim" using assms(1) by (simp_all add: f_fin_iff)
  have Rv: "R ?v = ?v" using R_f_val [OF nan(1)] R_minus [of "f_val x"] by (cases "f_val x < 0") simp_all
  then have v: "rmag ?v = ?v" using R_pos [OF assms(2)] nan(2) by (simp add: min_def split: if_splits)
  have "(2::rat) powi (- 54) \<le> 1" using p2_mono [of "- 54" 0] by simp
  then have "?v * 2 powi (- 54) \<le> ?v * 1" by (rule mult_left_mono) simp
  then have y0: "0 < y" using assms(3) by linarith
  have "rmag y = ?v" by (rule rmag_near [OF assms(2) v assms(3)])
  then have "R y = ?v" using R_pos [OF y0] nan(2) by simp
  then have val: "f_val (rnd y) = f_val (rnd ?v)" using Rv by (simp add: f_val_rnd)
  have s: "\<not> f_sign (rnd y)" "\<not> f_sign (rnd ?v)" using y0 by (simp_all add: f_sign_rnd)
  then have "mag (f_bits (rnd y)) = mag (f_bits (rnd ?v))" using val by (simp add: f_val_def)
  then have "f_bits (rnd y) = f_bits (rnd ?v)" using mag_eq_iff f_bits_range by blast
  then show ?thesis using s by (intro f_eqI) simp_all
qed

text \<open>The rounding of the absolute value has the bits of the value, without the sign.\<close>

lemma rnd_abs:
  assumes "f_fin x"
  shows "rnd \<bar>f_val x\<bar> = f_abs x"
proof -
  have nan: "\<not> f_nan x" using assms by (simp add: f_fin_iff)
  have "R \<bar>f_val x\<bar> = \<bar>f_val x\<bar>" using R_f_val [OF nan] R_minus [of "f_val x"] by (cases "f_val x < 0") simp_all
  then have "f_val (rnd \<bar>f_val x\<bar>) = \<bar>f_val x\<bar>" by (simp add: f_val_rnd)
  also have "\<dots> = mag (f_bits x)" using mag_nonneg [of "f_bits x"] f_bits_range [of x] by (simp add: f_val_def)
  finally have "mag (f_bits (rnd \<bar>f_val x\<bar>)) = mag (f_bits x)" by (simp add: f_val_def f_sign_rnd)
  then have "f_bits (rnd \<bar>f_val x\<bar>) = f_bits x" using mag_eq_iff f_bits_range by blast
  then show ?thesis using f_bits_range [of x] by (intro f_eqI) (simp_all add: f_abs_def f_sign_rnd)
qed

lemma f_bits_uminus: "f_bits (- x) = f_bits x"
proof -
  have "mag (f_bits (- x)) = mag (f_bits x)" using f_val_uminus [of x] by (auto simp: f_val_def split: if_splits)
  then show ?thesis using mag_eq_iff f_bits_range by blast
qed

lemma f_abs_sign: "(if f_sign x then - f_abs x else f_abs x) = x"
  using f_bits_range [of x] by (intro f_eqI) (simp_all add: f_abs_def f_bits_uminus)

section \<open>Decimal exponents\<close>

lemma show_nat_length: "1 \<le> n \<Longrightarrow> 10 ^ (length (show_nat n) - 1) \<le> n \<and> n < 10 ^ length (show_nat n)"
proof (induction n rule: show_nat.induct)
  case (1 n)
  show ?case
  proof (cases "n < 10")
    case True
    then show ?thesis using 1(2) by (simp add: show_nat.simps [of n])
  next
    case False
    have l: "length (show_nat n) = Suc (length (show_nat (n div 10)))" using False by (simp add: show_nat.simps [of n])
    have "1 \<le> n div 10" using False by linarith
    from 1(1) [OF False this] have IH: "10 ^ (length (show_nat (n div 10)) - 1) \<le> n div 10" "n div 10 < 10 ^ length (show_nat (n div 10))" by auto
    have "length (show_nat (n div 10)) \<noteq> 0" using show_nat.simps [of "n div 10"] by (simp split: if_splits)
    then obtain j where j: "length (show_nat (n div 10)) = Suc j" by (cases "length (show_nat (n div 10))") simp_all
    show ?thesis using IH unfolding l j by simp linarith
  qed
qed

lemma p10_pos [simp]: "0 < (10::rat) powi i"
  by (rule zero_less_power_int) simp

lemma p10_add: "(10::rat) powi (i + j) = 10 powi i * 10 powi j"
  by (simp add: power_int_add)

lemma p10_cancel: "(10::rat) powi (- i) * 10 powi i = 1"
  by (simp flip: p10_add)

lemma p10_nat: "of_int (10 ^ n) = (10::rat) powi int n"
  by simp

lemma dec_exp_bounds:
  assumes "0 < y"
  shows "10 powi (dec_exp y) \<le> y \<and> y < 10 powi (dec_exp y + 1)"
proof (cases "1 \<le> y")
  case True
  let ?k = "length (show_nat \<lfloor>y\<rfloor>)"
  have n: "1 \<le> \<lfloor>y\<rfloor>" using True by simp
  note l = show_nat_length [OF n]
  have k: "?k \<noteq> 0" using l n by (cases ?k) auto
  have "(of_int (10 ^ (?k - 1)) :: rat) \<le> of_int \<lfloor>y\<rfloor>" using l by (simp only: of_int_le_iff)
  then have "10 powi (int (?k - 1)) \<le> y" using of_int_floor_le [of y] unfolding p10_nat by linarith
  moreover have "y < of_int (\<lfloor>y\<rfloor> + 1)" by linarith
  moreover have "(of_int (\<lfloor>y\<rfloor> + 1) :: rat) \<le> of_int (10 ^ ?k)" using l by (simp only: of_int_le_iff zless_imp_add1_zle)
  ultimately have "10 powi (int (?k - 1)) \<le> y" "y < 10 powi int ?k" unfolding p10_nat by linarith+
  moreover have "int (?k - 1) = int ?k - 1" using k by (cases ?k) auto
  ultimately show ?thesis using True by (simp add: dec_exp_def)
next
  case False
  let ?m = "\<lceil>1 / y\<rceil> - 1"
  let ?k = "length (show_nat ?m)"
  have "1 < 1 / y" using False assms by simp
  then have m: "1 \<le> ?m" by linarith
  note l = show_nat_length [OF m]
  have k: "?k \<noteq> 0" using l m by (cases ?k) auto
  have "(of_int (10 ^ (?k - 1)) :: rat) \<le> of_int ?m" using l by (simp only: of_int_le_iff)
  then have lo: "10 powi (int (?k - 1)) < 1 / y" unfolding p10_nat by linarith
  have "(of_int (?m + 1) :: rat) \<le> of_int (10 ^ ?k)" using l by (simp only: of_int_le_iff zless_imp_add1_zle)
  then have hi: "1 / y \<le> 10 powi int ?k" unfolding p10_nat by linarith
  have i: "int (?k - 1) = int ?k - 1" using k by (cases ?k) auto
  have "10 powi (- int ?k) \<le> y"
  proof -
    have "10 powi (- int ?k) * (1 / y) \<le> 10 powi (- int ?k) * 10 powi int ?k" using hi by (rule mult_left_mono) (simp add: less_imp_le)
    also have "\<dots> = 1" by (rule p10_cancel)
    finally show ?thesis using assms by (simp add: field_simps)
  qed
  moreover have "y < 10 powi (- int ?k + 1)"
  proof -
    let ?a = "(10::rat) powi (- (int ?k - 1))"
    have "y * 10 powi (int ?k - 1) < 1" using lo assms unfolding i by (simp add: field_simps)
    then have "?a * (y * 10 powi (int ?k - 1)) < ?a * 1" by (rule mult_strict_left_mono) simp
    moreover have "?a * (y * 10 powi (int ?k - 1)) = y"
      unfolding mult.left_commute [of ?a] p10_cancel by simp
    moreover have "- int ?k + 1 = - (int ?k - 1)" by simp
    ultimately show ?thesis by (simp only: mult_1_right)
  qed
  ultimately show ?thesis using False by (simp add: dec_exp_def)
qed

section \<open>Seventeen digits are enough\<close>

lemma first_some_hit: "first_some f xs = Some y \<Longrightarrow> \<exists>x \<in> set xs. f x = Some y"
  by (induction xs) (auto split: option.splits)

lemma first_some_ex: "x \<in> set xs \<Longrightarrow> f x \<noteq> None \<Longrightarrow> \<exists>d q. first_some f xs = Some (d, q)"
  by (induction xs) (auto split: option.split)

lemma decimal_at_fits: "decimal_at y n = Some (d, q) \<Longrightarrow> rnd (of_int d * 10 powi q) = rnd y"
  by (auto simp: decimal_at_def Let_def split: if_splits)

lemma decimal_at_hit:
  assumes "q = dec_exp y - (int n - 1)" "rnd (of_int (round_even (y * 10 powi (- q))) * 10 powi q) = rnd y"
  shows "decimal_at y n \<noteq> None"
  using assms(2) unfolding decimal_at_def Let_def assms(1) by (simp only: if_True) simp

lemma decimal_17:
  assumes "f_fin x" "0 < \<bar>f_val x\<bar>"
  shows "decimal_at \<bar>f_val x\<bar> 17 \<noteq> None"
proof -
  let ?y = "\<bar>f_val x\<bar>"
  define q where "q = dec_exp ?y - (int 17 - 1)"
  let ?d = "round_even (?y * 10 powi (- q))"
  have "of_int ?d * 10 powi q - ?y = (of_int ?d - ?y * 10 powi (- q)) * 10 powi q"
    by (simp only: left_diff_distrib mult.assoc p10_cancel mult_1_right)
  then have "\<bar>of_int ?d * 10 powi q - ?y\<bar> = \<bar>of_int ?d - ?y * 10 powi (- q)\<bar> * 10 powi q"
    by (simp only: abs_mult abs_of_pos p10_pos)
  also have "\<dots> \<le> 1 / 2 * 10 powi q" by (rule mult_right_mono [OF round_even_err]) (simp add: less_imp_le)
  also have "\<dots> = (1 / 2 / 10 ^ 16) * 10 powi dec_exp ?y"
    unfolding q_def by (simp add: power_int_diff)
  also have "\<dots> \<le> (1 / 2 / 10 ^ 16) * ?y" using dec_exp_bounds [OF assms(2)] by (intro mult_left_mono) auto
  also have "\<dots> < 2 powi (- 54) * ?y" using assms(2) by (intro mult_strict_right_mono) (simp_all add: power_int_minus)
  finally have "rnd (of_int ?d * 10 powi q) = rnd ?y" by (intro rnd_near assms) (simp add: mult.commute)
  then show ?thesis by (rule decimal_at_hit [OF q_def])
qed

lemma shortest_reads_back:
  assumes "f_fin x" "0 < \<bar>f_val x\<bar>" "shortest \<bar>f_val x\<bar> = (d, q)"
  shows "rnd (of_int d * 10 powi q) = f_abs x" "0 < d"
proof -
  let ?y = "\<bar>f_val x\<bar>"
  have "17 \<in> set [1..<18::nat]" by (simp del: upt_rec_numeral)
  from first_some_ex [of 17 "[1..<18]" "decimal_at ?y", OF this decimal_17 [OF assms(1,2)]] obtain d' q' where f: "first_some (decimal_at ?y) [1..<18] = Some (d', q')"
    by (elim exE) (rule that, assumption)
  from first_some_hit [OF f] obtain n where n: "decimal_at ?y n = Some (d', q')" by (elim bexE)
  have r: "rnd (of_int d' * 10 powi q') = rnd ?y" by (rule decimal_at_fits [OF n])
  have dq: "of_int d * 10 powi q = (of_int d' * 10 powi q' :: rat)"
    using assms(3) unfolding shortest_def f by (auto simp: p10_add split: if_splits)
  show rd: "rnd (of_int d * 10 powi q) = f_abs x" unfolding dq r by (rule rnd_abs [OF assms(1)])
  have "f_val (f_abs x) = ?y" using mag_nonneg [of "f_bits x"] f_bits_range [of x] by (simp add: f_abs_def f_val_def)
  then have "R (of_int d * 10 powi q) = ?y" using rd f_val_rnd by metis
  then have "0 < R (of_int d * 10 powi q)" using assms(2) by simp
  then have "\<not> of_int d * 10 powi q \<le> (0::rat)" using R_nonpos by force
  then have "0 < of_int d * (10::rat) powi q" by simp
  then show "0 < d" using p10_pos [of q] by (auto simp: zero_less_mult_iff simp del: p10_pos)
qed

section \<open>Scanning what was written\<close>

definition no_digit :: "string \<Rightarrow> bool" where
  "no_digit r \<longleftrightarrow> r = [] \<or> \<not> is_digit (hd r)"

lemma digits_append: "list_all is_digit ds \<Longrightarrow> no_digit r \<Longrightarrow> digits (ds @ r) = (ds, r)"
  by (cases r) (auto simp: digits_def no_digit_def list_all_iff takeWhile_append dropWhile_append)

lemma digit_is: "0 \<le> d \<Longrightarrow> d < 10 \<Longrightarrow> is_digit (digit d) \<and> (digit d = CHR ''0'' \<longleftrightarrow> d = 0)"
proof -
  assume "0 \<le> d" "d < 10"
  then have "d = 0 \<or> d = 1 \<or> d = 2 \<or> d = 3 \<or> d = 4 \<or> d = 5 \<or> d = 6 \<or> d = 7 \<or> d = 8 \<or> d = 9"
    by arith
  then show ?thesis by (auto simp: digit_def is_digit_def code_def)
qed

lemma show_nat_digits: "0 \<le> n \<Longrightarrow> list_all is_digit (show_nat n) \<and> show_nat n \<noteq> [] \<and> (0 < n \<longrightarrow> hd (show_nat n) \<noteq> CHR ''0'')"
proof (induction n rule: show_nat.induct)
  case (1 n)
  show ?case
  proof (cases "n < 10")
    case True
    then show ?thesis using 1(2) digit_is [of n] by (simp add: show_nat.simps [of n])
  next
    case False
    have "0 \<le> n div 10" "0 < n div 10" using False by linarith+
    then show ?thesis using 1(1) [OF False] digit_is [of "n mod 10"] False by (simp add: show_nat.simps [of n])
  qed
qed

lemma read_nat_append: "read_nat (xs @ ys) = read_nat xs * 10 ^ length ys + read_nat ys"
proof (induction ys rule: rev_induct)
  case (snoc y ys)
  have "read_nat ((xs @ ys) @ [y]) = 10 * read_nat (xs @ ys) + digit_val y" "read_nat (ys @ [y]) = 10 * read_nat ys + digit_val y"
    by (simp_all add: read_nat_def)
  then show ?case using snoc by (simp add: algebra_simps)
qed (simp add: read_nat_def)

lemma read_nat_zeros: "read_nat (replicate n (CHR ''0'')) = 0"
  by (induction n) (simp_all add: read_nat_def digit_val_def)

definition plain :: "char \<Rightarrow> bool" where
  "plain c \<longleftrightarrow> \<not> is_digit c \<and> c \<noteq> CHR ''.'' \<and> c \<noteq> CHR ''e'' \<and> c \<noteq> CHR ''E''"

lemma ends_plain: "ends r \<Longrightarrow> r = [] \<or> (\<exists>c s. r = c # s \<and> plain c)"
  by (cases r) (auto simp: ends_def plain_def is_digit_def code_def)

lemma ends_no_digit: "ends r \<Longrightarrow> no_digit r"
  using ends_plain [of r] by (auto simp: no_digit_def plain_def)

lemma not_digit: "\<not> is_digit CHR ''.''" "\<not> is_digit CHR ''e''" "\<not> is_digit CHR ''-''" "\<not> is_digit CHR ''+''" "is_digit CHR ''0''"
  by (simp_all add: is_digit_def code_def)

lemma scan_whole_digits:
  assumes "list_all is_digit ds" "ds \<noteq> []" "hd ds \<noteq> CHR ''0''" "no_digit r"
  shows "scan_whole (ds @ r) = Some (ds, r)"
  using assms digits_append [OF assms(1,4)] by (cases ds) (simp_all add: scan_whole_def opt_char_def)

lemma scan_frac_point: "list_all is_digit ds \<Longrightarrow> ds \<noteq> [] \<Longrightarrow> no_digit r \<Longrightarrow> scan_frac (CHR ''.'' # ds @ r) = Some (ds, r)"
  by (simp add: scan_frac_def opt_char_def digits_append)

lemma scan_exp_sign:
  assumes "list_all is_digit ds" "ds \<noteq> []" "no_digit r"
  shows "scan_exp (CHR ''e'' # (if neg then CHR ''-'' else CHR ''+'') # ds @ r) = Some (if neg then - read_nat ds else read_nat ds, r)"
  using assms by (simp add: scan_exp_def opt_char_def digits_append)

lemma scan_ends: "ends r \<Longrightarrow> scan_frac r = Some ([], r) \<and> scan_exp r = Some (0, r)"
  using ends_plain [of r] by (auto simp: scan_frac_def scan_exp_def opt_char_def plain_def)

text \<open>A text of digits that is scanned, with or without a sign, to a number of a given value.\<close>

definition reads :: "string \<Rightarrow> rat \<Rightarrow> bool" where
  "reads t v \<longleftrightarrow> t \<noteq> [] \<and> is_digit (hd t) \<and> (\<forall>r. ends r \<longrightarrow> (\<exists>w f e s1 s2. scan_whole (t @ r) = Some (w, s1) \<and>
     scan_frac s1 = Some (f, s2) \<and> scan_exp s2 = Some (e, r) \<and> of_int (read_nat (w @ f)) * 10 powi (e - int (length f)) = v))"

lemma readsI:
  assumes "t \<noteq> []" "is_digit (hd t)"
    "\<And>r. ends r \<Longrightarrow> scan_whole (t @ r) = Some (w, s1 r) \<and> scan_frac (s1 r) = Some (f, s2 r) \<and> scan_exp (s2 r) = Some (e, r)"
    "of_int (read_nat (w @ f)) * 10 powi (e - int (length f)) = v"
  shows "reads t v"
  unfolding reads_def using assms by fast

lemma reads_zero: "reads ''0'' 0"
  by (rule readsI [where w = "''0''" and f = "[]" and e = 0 and ?s1.0 = "\<lambda>r. r" and ?s2.0 = "\<lambda>r. r"])
    (simp_all add: scan_whole_def opt_char_def scan_ends not_digit read_nat_def digit_val_def)

lemma reads_fixed:
  assumes "list_all is_digit ds" "ds \<noteq> []" "hd ds \<noteq> CHR ''0''"
  shows "reads (fixed_text ds q) (of_int (read_nat ds) * 10 powi q)"
proof -
  let ?dp = "int (length ds) + q"
  have hd: "is_digit (hd ds)" using assms by (cases ds) simp_all
  consider "0 \<le> q" | "q < 0" "0 < ?dp" | "q < 0" "?dp \<le> 0" by linarith
  then show ?thesis
  proof cases
    case 1
    let ?z = "replicate (nat q) (CHR ''0'')"
    have "list_all is_digit (ds @ ?z)" using assms(1) by (auto simp: list_all_iff not_digit)
    then have w: "scan_whole ((ds @ ?z) @ r) = Some (ds @ ?z, r)" if "ends r" for r
      by (rule scan_whole_digits) (use assms ends_no_digit [OF that] in simp_all)
    show ?thesis
      by (rule readsI [where w = "ds @ ?z" and f = "[]" and e = 0 and ?s1.0 = "\<lambda>r. r" and ?s2.0 = "\<lambda>r. r"])
        (use 1 assms(2) hd w scan_ends in \<open>simp_all add: fixed_text_def read_nat_append read_nat_zeros power_int_def\<close>)
  next
    case 2
    let ?a = "take (nat ?dp) ds" and ?b = "drop (nat ?dp) ds"
    have l: "?a \<noteq> []" "?b \<noteq> []" "hd ?a = hd ds" using 2 assms(2) by (simp_all add: hd_take)
    have d: "list_all is_digit ?a" "list_all is_digit ?b" using assms(1) by (auto simp: list_all_iff dest: in_set_takeD in_set_dropD)
    have w: "scan_whole (?a @ CHR ''.'' # ?b @ r) = Some (?a, CHR ''.'' # ?b @ r)" for r
      by (rule scan_whole_digits [OF d(1) l(1)]) (use l assms(3) in \<open>simp_all add: no_digit_def not_digit\<close>)
    have e: "0 - int (length ?b) = q" using 2 by simp
    have v: "of_int (read_nat (?a @ ?b)) * 10 powi (0 - int (length ?b)) = of_int (read_nat ds) * (10::rat) powi q"
      unfolding e by simp
    show ?thesis
      by (rule readsI [where w = ?a and f = ?b and e = 0 and ?s1.0 = "\<lambda>r. CHR ''.'' # ?b @ r" and ?s2.0 = "\<lambda>r. r", OF _ _ _ v])
        (use 2 l hd w scan_ends scan_frac_point [OF d(2) l(2)] ends_no_digit in \<open>simp_all add: fixed_text_def Let_def\<close>)
  next
    case 3
    let ?f = "replicate (nat (- ?dp)) (CHR ''0'') @ ds"
    have d: "list_all is_digit ?f" using assms(1) by (auto simp: list_all_iff not_digit)
    have e: "0 - int (length ?f) = q" using 3 by simp
    have v: "of_int (read_nat (''0'' @ ?f)) * 10 powi (0 - int (length ?f)) = of_int (read_nat ds) * (10::rat) powi q"
      unfolding e read_nat_append read_nat_zeros by (simp add: read_nat_def digit_val_def)
    have w: "scan_whole (''0.'' @ ?f @ r) = Some (''0'', CHR ''.'' # ?f @ r)" for r by (simp add: scan_whole_def opt_char_def)
    show ?thesis
      by (rule readsI [where w = "''0''" and f = ?f and e = 0 and ?s1.0 = "\<lambda>r. CHR ''.'' # ?f @ r" and ?s2.0 = "\<lambda>r. r", OF _ _ _ v])
        (use 3 w scan_ends scan_frac_point [OF d] assms(2) ends_no_digit in \<open>simp_all add: fixed_text_def Let_def not_digit\<close>)
  qed
qed

lemma reads_exp:
  assumes "list_all is_digit ds" "ds \<noteq> []" "hd ds \<noteq> CHR ''0''"
  shows "reads (exp_text ds q) (of_int (read_nat ds) * 10 powi q)"
proof -
  obtain a b where ab: "ds = a # b" using assms(2) by (cases ds) simp_all
  let ?e = "int (length ds) + q - 1"
  let ?x = "show_nat \<bar>?e\<bar>"
  have a: "is_digit a" "a \<noteq> CHR ''0''" "list_all is_digit b" using assms by (simp_all add: ab)
  have x: "list_all is_digit ?x" "?x \<noteq> []" using show_nat_digits [of "\<bar>?e\<bar>"] by simp_all
  have rx: "(if ?e < 0 then - read_nat ?x else read_nat ?x) = ?e" by (cases "?e < 0") (simp_all add: read_show_nat)
  let ?t = "\<lambda>r. CHR ''e'' # (if ?e < 0 then CHR ''-'' else CHR ''+'') # ?x @ r"
  have n: "no_digit (?t r)" for r by (simp add: no_digit_def not_digit)
  have se: "scan_exp (?t r) = Some (?e, r)" if "ends r" for r
    using scan_exp_sign [OF x ends_no_digit [OF that], of "?e < 0"] unfolding rx .
  have v: "of_int (read_nat ([a] @ b)) * 10 powi (?e - int (length b)) = of_int (read_nat ds) * (10::rat) powi q" by (simp add: ab)
  have w: "scan_whole ([a] @ s) = Some ([a], s)" if "no_digit s" for s by (rule scan_whole_digits) (use a that in simp_all)
  show ?thesis
  proof (cases "b = []")
    case True
    have f: "scan_frac (?t r) = Some (b, ?t r)" for r by (simp add: scan_frac_def opt_char_def True)
    show ?thesis
      by (rule readsI [where w = "[a]" and f = b and e = ?e and ?s1.0 = ?t and ?s2.0 = ?t, OF _ _ _ v])
        (use a f se w [OF n] True in \<open>simp_all add: exp_text_def Let_def ab\<close>)
  next
    case False
    have f: "scan_frac (CHR ''.'' # b @ ?t r) = Some (b, ?t r)" for r by (rule scan_frac_point [OF a(3) False n])
    have w1: "scan_whole ([a] @ CHR ''.'' # b @ ?t r) = Some ([a], CHR ''.'' # b @ ?t r)" for r
      by (rule w) (simp add: no_digit_def not_digit)
    show ?thesis
      by (rule readsI [where w = "[a]" and f = b and e = ?e and ?s1.0 = "\<lambda>r. CHR ''.'' # b @ ?t r" and ?s2.0 = ?t, OF _ _ _ v])
        (use a f se w1 False in \<open>simp_all add: exp_text_def Let_def ab\<close>)
  qed
qed

section \<open>Every finite number survives\<close>

lemma put_float_reads:
  assumes "f_fin x"
  obtains t v where "put_float x = Some ((if f_sign x then ''-'' else []) @ t)" "reads t v" "rnd v = f_abs x"
proof (cases "f_bits x = 0")
  case True
  have "f_val x = 0" using True by (simp add: f_val_def)
  then have "rnd 0 = f_abs x" using rnd_abs [OF assms] by simp
  then show ?thesis using True f_fin_not [OF assms] by (intro that [OF _ reads_zero]) (simp_all add: put_float_def)
next
  case False
  then have "mag (f_bits x) \<noteq> mag 0" using mag_eq_iff [of "f_bits x" 0] f_bits_range [of x] by simp
  then have y: "0 < \<bar>f_val x\<bar>" by (simp add: f_val_def)
  obtain d q where s: "shortest \<bar>f_val x\<bar> = (d, q)" by fastforce
  note r = shortest_reads_back [OF assms y s]
  have d: "list_all is_digit (show_nat d)" "show_nat d \<noteq> []" "hd (show_nat d) \<noteq> CHR ''0''"
    using show_nat_digits [of d] r(2) by simp_all
  let ?v = "of_int (read_nat (show_nat d)) * (10::rat) powi q"
  have v: "rnd ?v = f_abs x" using r read_show_nat [of d] by simp
  let ?t = "(if f_abs x < lit 1 (10 ^ 6) \<or> lit (10 ^ 21) 1 \<le> f_abs x then exp_text else fixed_text) (show_nat d) q"
  have "reads ?t ?v" using reads_exp [OF d] reads_fixed [OF d] by simp
  moreover have "put_float x = Some ((if f_sign x then ''-'' else []) @ ?t)"
    using False f_fin_not [OF assms] by (simp add: put_float_def s)
  ultimately show ?thesis using v by (intro that)
qed

lemma reads_scan:
  assumes "reads t v" "ends r"
  obtains nm where "scan_number ((if neg then ''-'' else []) @ t @ r) = Some (nm, r)" "nm_neg nm = neg" "num_val nm = v"
proof -
  from assms obtain w f e s1 s2 where s: "scan_whole (t @ r) = Some (w, s1)" "scan_frac s1 = Some (f, s2)" "scan_exp s2 = Some (e, r)"
    "of_int (read_nat (w @ f)) * 10 powi (e - int (length f)) = v" unfolding reads_def by blast
  have t: "t \<noteq> []" "is_digit (hd t)" using assms(1) by (simp_all add: reads_def)
  have o: "opt_char CHR ''-'' ((if neg then ''-'' else []) @ t @ r) = (neg, t @ r)"
    using t not_digit by (cases t) (auto simp: opt_char_def)
  show ?thesis
    by (rule that [of "\<lparr>nm_neg = neg, nm_whole = w, nm_frac = f, nm_exp = e\<rparr>"]) (use s in \<open>simp_all add: scan_number_def o num_val_def\<close>)
qed

lemma number_hd:
  assumes "reads t v"
  obtains c s where "(if neg then ''-'' else []) @ t = c # s" "c = CHR ''-'' \<or> is_digit c"
proof -
  have "t \<noteq> []" "is_digit (hd t)" using assms by (simp_all add: reads_def)
  then show ?thesis by (cases t; cases neg) (auto intro: that)
qed

lemma number_first:
  assumes "c = CHR ''-'' \<or> is_digit c"
  shows "\<not> is_ws c" "c \<notin> set [CHR 0x22, CHR ''{'', CHR ''['', CHR ''t'', CHR ''f'', CHR ''n'', CHR ''}'', CHR '']'']"
  using assms by (auto simp: is_ws_def is_digit_def code_def)

lemma json_text_number:
  assumes "reads t v"
  shows "json_text ((if neg then ''-'' else []) @ t)"
proof -
  let ?t = "(if neg then ''-'' else []) @ t"
  obtain c s where c: "?t = c # s" "c = CHR ''-'' \<or> is_digit c" by (rule number_hd [OF assms])
  note h = number_first [OF c(2)]
  have "value n (?t @ r) = Some r" if "length ?t \<le> n" "ends r" for n r
  proof -
    obtain nm where "scan_number ((if neg then ''-'' else []) @ t @ r) = Some (nm, r)" by (rule reads_scan [OF assms \<open>ends r\<close>, of neg])
    then have "scan_number (?t @ r) = Some (nm, r)" by (simp only: append.assoc)
    then show ?thesis using \<open>length ?t \<le> n\<close> c(1) h by (cases n) simp_all
  qed
  then show ?thesis using c(1) h by (simp add: json_text_def)
qed

lemma json_text_float: "put_float x = Some t \<Longrightarrow> json_text t"
proof -
  assume t: "put_float x = Some t"
  then have "f_fin x" using f_nan_cases [of x] by (auto simp: put_float_def split: if_splits)
  then show "json_text t" using t json_text_number by (metis option.inject put_float_reads)
qed

lemma get_put_float:
  assumes "put_float x = Some t"
  shows "get_float t old = Some x"
proof -
  have x: "f_fin x" using assms f_nan_cases [of x] by (auto simp: put_float_def split: if_splits)
  then obtain t' v where t: "put_float x = Some ((if f_sign x then ''-'' else []) @ t')" "reads t' v" "rnd v = f_abs x"
    by (rule put_float_reads)
  then have tt: "t = (if f_sign x then ''-'' else []) @ t'" using assms by simp
  obtain c s where c: "t = c # s" "c = CHR ''-'' \<or> is_digit c" unfolding tt by (rule number_hd [OF t(2)])
  obtain nm where nm: "scan_number (t @ []) = Some (nm, [])" "nm_neg nm = f_sign x" "num_val nm = v"
    using reads_scan [OF t(2), of "[]" "f_sign x"] unfolding tt by (metis append.assoc ends_simps(1))
  have "f_bits (f_abs x) = f_bits x" using f_bits_range [of x] by (simp add: f_abs_def)
  then have "\<not> f_inf (f_abs x)" using f_fin_not(2) [OF x] by (simp add: f_inf_def)
  then have "parse_float nm = Some x" using nm(2,3) t(3) f_abs_sign [of x] by (simp add: parse_float_def)
  then show ?thesis using nm(1) c number_first [OF c(2)] by (simp add: get_float_def not_null at_end_def)
qed

text \<open>What has no JSON text: the values that are not finite.\<close>

lemma put_float_None: "put_float x = None \<longleftrightarrow> \<not> f_fin x"
  using f_nan_cases [of x] f_fin_not [of x] by (auto simp: put_float_def)

text \<open>Integers survive.\<close>

lemma reads_int:
  assumes "0 \<le> n"
  shows "reads (show_nat n) (of_int n)"
proof (cases "n = 0")
  case True
  then show ?thesis using reads_zero by (simp add: show_nat.simps [of 0] digit_def)
next
  case False
  then show ?thesis using reads_fixed [of "show_nat n" 0] show_nat_digits [OF assms] assms by (simp add: fixed_text_def read_show_nat)
qed

lemma json_text_int: "json_text (put_int i)"
  using json_text_number [OF reads_int, of "\<bar>sint i\<bar>" "sint i < 0"] by (simp add: put_int_def show_int_def split: if_splits)

lemma get_put_int: "get_int (put_int i) old = Some i"
proof -
  let ?n = "sint i"
  have d: "list_all is_digit (show_nat \<bar>?n\<bar>)" "show_nat \<bar>?n\<bar> \<noteq> []" using show_nat_digits [of "\<bar>?n\<bar>"] by simp_all
  have p: "put_int i = (if ?n < 0 then ''-'' else []) @ show_nat \<bar>?n\<bar>" by (simp add: put_int_def show_int_def)
  obtain c s where c: "put_int i = c # s" "c = CHR ''-'' \<or> is_digit c"
    unfolding p by (rule number_hd [OF reads_int, of "\<bar>?n\<bar>" "?n < 0"]) simp_all
  have o: "opt_char (CHR ''-'') (put_int i) = (?n < 0, show_nat \<bar>?n\<bar>)"
    unfolding p using d not_digit by (cases "show_nat \<bar>?n\<bar>") (auto simp: opt_char_def)
  have g: "digits (show_nat \<bar>?n\<bar>) = (show_nat \<bar>?n\<bar>, [])" using digits_append [OF d(1), of "[]"] by (simp add: no_digit_def)
  have w: "ws (put_int i) = put_int i" "\<not> is_null (put_int i)" using c number_first [OF c(2)] by (simp_all add: not_null)
  show ?thesis using sint64_range [of i] d(2) by (simp add: get_int_def w o g read_show_nat Let_def) 
qed

end
