(* ===== verification/Wire.thy ===== *)
theory Wire
  imports AgentLink JsonNumber
begin

text \<open>
  The messages of the program as texts: what \<open>internal/saas/instance/manager.go\<close>,
  \<open>internal/saas/ws/hub.go\<close>, \<open>internal/saas/ws/portfolio.go\<close> and \<open>internal/agent/ws/client.go\<close> write
  and read with \<open>encoding/json\<close>, by the tags of their structs. The codecs that the other theories take as
  parameters are defined here, and the two ends of each message are compared.
\<close>

section \<open>The back end writes\<close>

definition trade_json :: "TradeCommand \<Rightarrow> string" where
  "trade_json c = put_object ([(''client_order_id'', put_string (TcClientOrderID c)), (''action'', put_string (TcAction c)),
     (''engine'', put_string (TcEngine c)), (''symbol'', put_string (TcSymbol c))] @
     (if TcAmountUSDT c = [] then [] else [(''amount_usdt'', put_string (TcAmountUSDT c))]) @
     (if TcQtyAsset c = [] then [] else [(''qty_asset'', put_string (TcQtyAsset c))]) @
     [(''lot_type'', put_string (TcLotType c))])"

definition command_json :: "TradeCommand \<Rightarrow> string" where
  "command_json c = put_object [(''type'', put_string ''command''), (''payload'', trade_json c)]"

definition envelope_json :: "envelope \<Rightarrow> string" where
  "envelope_json e = put_object ((''type'', put_string (EvType e)) # (case EvPayload e of None \<Rightarrow> []
     | Some success \<Rightarrow> [(''payload'', put_object [(''success'', put_bool success)])]))"

section \<open>The back end reads\<close>

definition set_auth :: "authMsg \<Rightarrow> string \<Rightarrow> string \<Rightarrow> authMsg \<times> bool" where
  "set_auth m k raw = (if k = ''type'' then store m (\<lambda>s. m\<lparr>AmType := s\<rparr>) (get_string raw (AmType m))
     else if k = ''token'' then store m (\<lambda>s. m\<lparr>AmToken := s\<rparr>) (get_string raw (AmToken m)) else (m, True))"

definition auth_of :: "string \<Rightarrow> authMsg option" where
  "auth_of raw = checked (struct_of set_auth \<lparr>AmType = [], AmToken = []\<rparr> raw)"

definition set_msg :: "inboundMsg \<Rightarrow> string \<Rightarrow> string \<Rightarrow> inboundMsg \<times> bool" where
  "set_msg m k raw = (if k = ''type'' then store m (\<lambda>s. m\<lparr>ImType := s\<rparr>) (get_string raw (ImType m))
     else if k = ''payload'' then (m\<lparr>ImPayload := raw\<rparr>, True) else (m, True))"

definition msg_of :: "string \<Rightarrow> inboundMsg option" where
  "msg_of raw = checked (struct_of set_msg \<lparr>ImType = [], ImPayload = []\<rparr> raw)"

definition set_execution :: "executionMsg \<Rightarrow> string \<Rightarrow> string \<Rightarrow> executionMsg \<times> bool" where
  "set_execution m k raw = (if k = ''client_order_id'' then store m (\<lambda>s. m\<lparr>EmClientOrderID := s\<rparr>) (get_string raw (EmClientOrderID m))
     else if k = ''filled_qty'' then store m (\<lambda>x. m\<lparr>EmFilledQty := x\<rparr>) (get_float raw (EmFilledQty m))
     else if k = ''filled_price'' then store m (\<lambda>x. m\<lparr>EmFilledPrice := x\<rparr>) (get_float raw (EmFilledPrice m))
     else if k = ''fee'' then store m (\<lambda>x. m\<lparr>EmFee := x\<rparr>) (get_float raw (EmFee m)) else (m, True))"

definition set_balance_msg :: "balanceMsg \<Rightarrow> string \<Rightarrow> string \<Rightarrow> balanceMsg \<times> bool" where
  "set_balance_msg m k raw = (if k = ''asset'' then store m (\<lambda>s. m\<lparr>BmAsset := s\<rparr>) (get_string raw (BmAsset m))
     else if k = ''available'' then store m (\<lambda>x. m\<lparr>BmAvailable := x\<rparr>) (get_float raw (BmAvailable m))
     else if k = ''frozen'' then store m (\<lambda>x. m\<lparr>BmFrozen := x\<rparr>) (get_float raw (BmFrozen m)) else (m, True))"

definition zero_execution :: executionMsg where
  "zero_execution = \<lparr>EmClientOrderID = [], EmFilledQty = 0, EmFilledPrice = 0, EmFee = 0\<rparr>"

definition zero_balance :: balanceMsg where
  "zero_balance = \<lparr>BmAsset = [], BmAvailable = 0, BmFrozen = 0\<rparr>"

definition balance_msg_of :: "string \<Rightarrow> balanceMsg option" where
  "balance_msg_of raw = checked (struct_of set_balance_msg zero_balance raw)"

text \<open>A pointer is \<open>nil\<close> for \<open>null\<close>, and otherwise the struct it points to, or a new one, is filled. A failure
  anywhere discards the payload, so that the elements of a slice are decoded to all or nothing.\<close>

definition set_report :: "deltaReportPayload \<Rightarrow> string \<Rightarrow> string \<Rightarrow> deltaReportPayload \<times> bool" where
  "set_report p k raw = (if k = ''execution'' then
       (if is_null raw then (p\<lparr>DrExecution := None\<rparr>, True)
        else case struct_of set_execution (case DrExecution p of None \<Rightarrow> zero_execution | Some m \<Rightarrow> m) raw of (m, ok) \<Rightarrow>
          (p\<lparr>DrExecution := Some m\<rparr>, ok))
     else if k = ''balances'' then store p (\<lambda>bs. p\<lparr>DrBalances := bs\<rparr>) (list_of balance_msg_of raw) else (p, True))"

definition report_of :: "string \<Rightarrow> deltaReportPayload option" where
  "report_of raw = checked (struct_of set_report \<lparr>DrExecution = None, DrBalances = []\<rparr> raw)"

definition set_stored :: "storedCommand \<Rightarrow> string \<Rightarrow> string \<Rightarrow> storedCommand \<times> bool" where
  "set_stored c k raw = (if k = ''action'' then store c (\<lambda>s. c\<lparr>ScAction := s\<rparr>) (get_string raw (ScAction c))
     else if k = ''engine'' then store c (\<lambda>s. c\<lparr>ScEngine := s\<rparr>) (get_string raw (ScEngine c))
     else if k = ''symbol'' then store c (\<lambda>s. c\<lparr>ScSymbol := s\<rparr>) (get_string raw (ScSymbol c))
     else if k = ''lot_type'' then store c (\<lambda>s. c\<lparr>ScLotType := s\<rparr>) (get_string raw (ScLotType c)) else (c, True))"

definition stored_of :: "string \<Rightarrow> storedCommand option" where
  "stored_of raw = checked (struct_of set_stored \<lparr>ScAction = [], ScEngine = [], ScSymbol = [], ScLotType = []\<rparr> raw)"

section \<open>The audit trail\<close>

text \<open>A map is written with its keys in order, and not at all when a number is not finite.\<close>

definition text_or_empty :: "string option \<Rightarrow> string" where
  "text_or_empty t = (case t of None \<Rightarrow> [] | Some s \<Rightarrow> s)"

definition fill_audit :: "executionMsg \<Rightarrow> storedCommand \<Rightarrow> string" where
  "fill_audit m c = text_or_empty (put_fields [(''action'', Some (put_string (ScAction c))),
     (''client_order_id'', Some (put_string (EmClientOrderID m))), (''fee'', put_float (EmFee m)),
     (''filled_price'', put_float (EmFilledPrice m)), (''filled_qty'', put_float (EmFilledQty m)),
     (''lot_type'', Some (put_string (ScLotType c)))])"

definition release_audit :: "f64 \<Rightarrow> string" where
  "release_audit qty = text_or_empty (put_fields [(''action'', Some (put_string ''RELEASE'')), (''released_btc'', put_float qty)])"

section \<open>The agent writes\<close>

definition execution_json :: "AgentExecution \<Rightarrow> string option" where
  "execution_json ex = put_fields [(''client_order_id'', Some (put_string (AxClientOrderID ex))), (''filled_qty'', put_float (AxFilledQty ex)),
     (''filled_price'', put_float (AxFilledPrice ex)), (''fee'', put_float (AxFee ex))]"

definition balance_json :: "AgentBalance \<Rightarrow> string option" where
  "balance_json b = put_fields [(''asset'', Some (put_string (AbAsset b))), (''available'', put_float (AbAvailable b)),
     (''frozen'', put_float (AbFrozen b))]"

text \<open>Balances that could not be fetched are the \<open>nil\<close> slice, which is written as \<open>null\<close>: the flag tells it from
  an empty one.\<close>

definition report_json :: "bool \<Rightarrow> AgentExecution option \<Rightarrow> AgentBalance list \<Rightarrow> string option" where
  "report_json nil exec balances = put_fields [(''type'', Some (put_string ''delta_report'')),
     (''payload'', put_fields [(''execution'', case exec of None \<Rightarrow> Some ''null'' | Some ex \<Rightarrow> execution_json ex),
        (''balances'', if nil \<and> balances = [] then Some ''null'' else put_list balance_json balances)])]"

text \<open>\<open>mustMarshal\<close> ignores the error, and what is sent then is an empty message.\<close>

definition mustMarshal :: "string option \<Rightarrow> string" where
  "mustMarshal t = (case t of None \<Rightarrow> [] | Some s \<Rightarrow> s)"

definition auth_json :: "string \<Rightarrow> string" where
  "auth_json token = put_object [(''type'', put_string ''auth''), (''token'', put_string token)]"

definition basic_json :: "string \<Rightarrow> string" where
  "basic_json kind = put_object [(''type'', put_string kind)]"

definition ack_json :: "string \<Rightarrow> string" where
  "ack_json k = put_object [(''type'', put_string ''command_ack''), (''client_order_id'', put_string k)]"

definition message_json :: "bool \<Rightarrow> agent_message \<Rightarrow> string" where
  "message_json nil m = (case m of
     Auth token \<Rightarrow> auth_json token
   | Heartbeat \<Rightarrow> basic_json ''heartbeat''
   | CommandAck k \<Rightarrow> ack_json k
   | DeltaReportMsg exec balances \<Rightarrow> mustMarshal (report_json nil exec balances)
   | AgentClient.CloseFrame \<Rightarrow> [])"

lemmas message_json = message_json_def auth_json_def basic_json_def ack_json_def

definition login_json :: "string \<Rightarrow> string \<Rightarrow> string" where
  "login_json email password = put_object [(''email'', put_string email), (''password'', put_string password)]"

section \<open>The agent reads\<close>

definition set_auth_result :: "string \<times> bool \<Rightarrow> string \<Rightarrow> string \<Rightarrow> (string \<times> bool) \<times> bool" where
  "set_auth_result m k raw = (if k = ''type'' then store m (\<lambda>s. (s, snd m)) (get_string raw (fst m))
     else if k = ''success'' then store m (\<lambda>b. (fst m, b)) (get_bool raw (snd m)) else (m, True))"

definition auth_result_of :: "string \<Rightarrow> (string \<times> bool) option" where
  "auth_result_of raw = checked (struct_of set_auth_result ([], False) raw)"

definition set_inbound :: "string \<times> string \<Rightarrow> string \<Rightarrow> string \<Rightarrow> (string \<times> string) \<times> bool" where
  "set_inbound m k raw = (if k = ''type'' then store m (\<lambda>s. (s, snd m)) (get_string raw (fst m))
     else if k = ''payload'' then ((fst m, raw), True) else (m, True))"

definition inbound_of :: "string \<Rightarrow> (string \<times> string) option" where
  "inbound_of raw = checked (struct_of set_inbound ([], []) raw)"

definition set_command :: "AgentCommand \<Rightarrow> string \<Rightarrow> string \<Rightarrow> AgentCommand \<times> bool" where
  "set_command c k raw = (if k = ''client_order_id'' then store c (\<lambda>s. c\<lparr>AcClientOrderID := s\<rparr>) (get_string raw (AcClientOrderID c))
     else if k = ''action'' then store c (\<lambda>s. c\<lparr>AcAction := s\<rparr>) (get_string raw (AcAction c))
     else if k = ''engine'' then store c (\<lambda>s. c\<lparr>AcEngine := s\<rparr>) (get_string raw (AcEngine c))
     else if k = ''symbol'' then store c (\<lambda>s. c\<lparr>AcSymbol := s\<rparr>) (get_string raw (AcSymbol c))
     else if k = ''amount_usdt'' then store c (\<lambda>s. c\<lparr>AcAmountUSDT := s\<rparr>) (get_string raw (AcAmountUSDT c))
     else if k = ''qty_asset'' then store c (\<lambda>s. c\<lparr>AcQtyAsset := s\<rparr>) (get_string raw (AcQtyAsset c))
     else if k = ''lot_type'' then store c (\<lambda>s. c\<lparr>AcLotType := s\<rparr>) (get_string raw (AcLotType c)) else (c, True))"

definition zero_command :: AgentCommand where
  "zero_command = \<lparr>AcClientOrderID = [], AcAction = [], AcEngine = [], AcSymbol = [], AcAmountUSDT = [], AcQtyAsset = [], AcLotType = []\<rparr>"

definition command_of :: "string \<Rightarrow> AgentCommand option" where
  "command_of raw = checked (struct_of set_command zero_command raw)"

text \<open>\<open>json.Decoder\<close> reads the first value of the body and leaves the rest.\<close>

definition first_value :: "string \<Rightarrow> string option" where
  "first_value s = map_option (\<lambda>r. before r (ws s)) (value (length s) s)"

definition set_token :: "string \<Rightarrow> string \<Rightarrow> string \<Rightarrow> string \<times> bool" where
  "set_token t k raw = (if k = ''token'' then store t (\<lambda>s. s) (get_string raw t) else (t, True))"

definition token_of :: "string \<Rightarrow> string option" where
  "token_of body = (case first_value body of None \<Rightarrow> None | Some raw \<Rightarrow> checked (struct_of set_token [] raw))"

section \<open>Commands arrive\<close>

text \<open>The tags of the structs are their own folded names, and plain text.\<close>

lemma tags [simp]: "fold_name ''type'' = ''type''" "fold_name ''token'' = ''token''" "fold_name ''payload'' = ''payload''"
  "fold_name ''client_order_id'' = ''client_order_id''" "fold_name ''action'' = ''action''" "fold_name ''engine'' = ''engine''"
  "fold_name ''symbol'' = ''symbol''" "fold_name ''amount_usdt'' = ''amount_usdt''" "fold_name ''qty_asset'' = ''qty_asset''"
  "fold_name ''lot_type'' = ''lot_type''" "fold_name ''execution'' = ''execution''" "fold_name ''balances'' = ''balances''"
  "fold_name ''filled_qty'' = ''filled_qty''" "fold_name ''filled_price'' = ''filled_price''" "fold_name ''fee'' = ''fee''"
  "fold_name ''asset'' = ''asset''" "fold_name ''available'' = ''available''" "fold_name ''frozen'' = ''frozen''"
  "fold_name ''success'' = ''success''"
  by code_simp+

definition ascii :: "string \<Rightarrow> bool" where
  "ascii s \<longleftrightarrow> list_all (\<lambda>c. code c < 128) s"

lemma ascii_utf8: "ascii s \<Longrightarrow> utf8_ok s"
  by (simp add: ascii_def utf8_ascii)

lemma ascii_simps [simp]: "ascii []" "ascii (c # s) \<longleftrightarrow> code c < 128 \<and> ascii s"
  by (simp_all add: ascii_def)

lemma utf8_tags [simp]: "utf8_ok ''type''" "utf8_ok ''token''" "utf8_ok ''payload''" "utf8_ok ''client_order_id''" "utf8_ok ''action''"
  "utf8_ok ''engine''" "utf8_ok ''symbol''" "utf8_ok ''amount_usdt''" "utf8_ok ''qty_asset''" "utf8_ok ''lot_type''" "utf8_ok ''execution''"
  "utf8_ok ''balances''" "utf8_ok ''filled_qty''" "utf8_ok ''filled_price''" "utf8_ok ''fee''" "utf8_ok ''asset''" "utf8_ok ''available''"
  "utf8_ok ''frozen''" "utf8_ok ''success''" "utf8_ok ''command''" "utf8_ok ''delta_report''" "utf8_ok ''auth''" "utf8_ok ''auth_result''"
  "utf8_ok ''heartbeat''" "utf8_ok ''heartbeat_ack''" "utf8_ok ''report_ack''" "utf8_ok ''command_ack''"
  by (rule ascii_utf8, simp add: code_def)+

lemmas texts_ok [simp] = json_text_string json_text_literals json_text_int json_text_object

lemma trade_text [simp]: "json_text (trade_json c)"
  by (simp add: trade_json_def)

definition utf8_command :: "TradeCommand \<Rightarrow> bool" where
  "utf8_command c \<longleftrightarrow> utf8_ok (TcClientOrderID c) \<and> utf8_ok (TcAction c) \<and> utf8_ok (TcEngine c) \<and> utf8_ok (TcSymbol c) \<and>
     utf8_ok (TcAmountUSDT c) \<and> utf8_ok (TcQtyAsset c) \<and> utf8_ok (TcLotType c)"

text \<open>The same seven fields on the agent's side.\<close>

definition agent_command :: "TradeCommand \<Rightarrow> AgentCommand" where
  "agent_command c = \<lparr>AcClientOrderID = TcClientOrderID c, AcAction = TcAction c, AcEngine = TcEngine c, AcSymbol = TcSymbol c,
     AcAmountUSDT = TcAmountUSDT c, AcQtyAsset = TcQtyAsset c, AcLotType = TcLotType c\<rparr>"

lemma inbound_of_command: "inbound_of (command_json c) = Some (''command'', trade_json c)"
  by (simp add: inbound_of_def command_json_def struct_of_put set_inbound_def get_put_string)

lemma command_of_trade:
  assumes "utf8_command c"
  shows "command_of (trade_json c) = Some (agent_command c)"
  using assms unfolding utf8_command_def
  by (cases "TcAmountUSDT c = []"; cases "TcQtyAsset c = []")
    (simp_all add: command_of_def trade_json_def struct_of_put set_command_def get_put_string zero_command_def agent_command_def)

text \<open>The identifier arrives even when another field is not valid UTF-8.\<close>

lemma command_of_id:
  assumes "utf8_ok (TcClientOrderID c)"
  shows "map_option AcClientOrderID (command_of (trade_json c)) = Some (TcClientOrderID c)"
proof -
  obtain t1 t2 t3 t4 t5 t6 where "unquote (quoted (TcAction c)) = Some t1" "unquote (quoted (TcEngine c)) = Some t2"
    "unquote (quoted (TcSymbol c)) = Some t3" "unquote (quoted (TcAmountUSDT c)) = Some t4"
    "unquote (quoted (TcQtyAsset c)) = Some t5" "unquote (quoted (TcLotType c)) = Some t6"
    using unquote_quoted_total by meson
  then show ?thesis using assms
    by (cases "TcAmountUSDT c = []"; cases "TcQtyAsset c = []")
      (simp_all add: command_of_def trade_json_def struct_of_put set_command_def get_string_put unquote_quoted zero_command_def)
qed

lemma stored_of_trade:
  assumes "utf8_command c"
  shows "stored_of (trade_json c) = Some \<lparr>ScAction = TcAction c, ScEngine = TcEngine c, ScSymbol = TcSymbol c, ScLotType = TcLotType c\<rparr>"
  using assms unfolding utf8_command_def
  by (cases "TcAmountUSDT c = []"; cases "TcQtyAsset c = []")
    (simp_all add: stored_of_def trade_json_def struct_of_put set_stored_def get_put_string)

section \<open>Reports arrive\<close>

definition balance_of_agent :: "AgentBalance \<Rightarrow> balanceMsg" where
  "balance_of_agent b = \<lparr>BmAsset = AbAsset b, BmAvailable = AbAvailable b, BmFrozen = AbFrozen b\<rparr>"

lemma execution_cases:
  assumes "execution_json ex = Some t"
  obtains q p f where "put_float (AxFilledQty ex) = Some q" "put_float (AxFilledPrice ex) = Some p" "put_float (AxFee ex) = Some f"
    "t = put_object [(''client_order_id'', put_string (AxClientOrderID ex)), (''filled_qty'', q), (''filled_price'', p), (''fee'', f)]"
  using assms
  by (cases "put_float (AxFilledQty ex)"; cases "put_float (AxFilledPrice ex)"; cases "put_float (AxFee ex)")
    (simp_all add: execution_json_def put_fields_def)

lemma execution_text: "execution_json ex = Some t \<Longrightarrow> json_text t"
  by (erule execution_cases) (simp add: json_text_float)

lemma put_object_not_null [simp]: "\<not> is_null (put_object ms)"
  by (rule not_null) (simp_all add: put_object_def)

lemma execution_of_text:
  assumes "execution_json ex = Some t" "utf8_ok (AxClientOrderID ex)"
  shows "struct_of set_execution m t = (fill_of ex, True) \<and> \<not> is_null t"
  by (rule execution_cases [OF assms(1)])
    (simp add: assms(2) json_text_float struct_of_put set_execution_def get_put_string get_put_float fill_of_def)

lemma balance_cases:
  assumes "balance_json b = Some t"
  obtains a f where "put_float (AbAvailable b) = Some a" "put_float (AbFrozen b) = Some f"
    "t = put_object [(''asset'', put_string (AbAsset b)), (''available'', a), (''frozen'', f)]"
  using assms by (cases "put_float (AbAvailable b)"; cases "put_float (AbFrozen b)") (simp_all add: balance_json_def put_fields_def)

lemma balance_text: "balance_json b = Some t \<Longrightarrow> json_text t"
  by (erule balance_cases) (simp add: json_text_float)

lemma balance_of_text:
  assumes "balance_json b = Some t" "utf8_ok (AbAsset b)"
  shows "balance_msg_of t = Some (balance_of_agent b)"
  by (rule balance_cases [OF assms(1)])
    (simp add: assms(2) json_text_float balance_msg_of_def struct_of_put set_balance_msg_def get_put_string get_put_float balance_of_agent_def)

text \<open>What the exchange reports can be written: its numbers are finite and its names are UTF-8.\<close>

definition finite_execution :: "AgentExecution \<Rightarrow> bool" where
  "finite_execution ex \<longleftrightarrow> f_fin (AxFilledQty ex) \<and> f_fin (AxFilledPrice ex) \<and> f_fin (AxFee ex)"

definition finite_balance :: "AgentBalance \<Rightarrow> bool" where
  "finite_balance b \<longleftrightarrow> f_fin (AbAvailable b) \<and> f_fin (AbFrozen b)"

definition finite_report :: "AgentExecution option \<Rightarrow> AgentBalance list \<Rightarrow> bool" where
  "finite_report exec bs \<longleftrightarrow> (\<forall>ex \<in> set_option exec. finite_execution ex) \<and> (\<forall>b \<in> set bs. finite_balance b)"

lemma execution_json_None: "execution_json ex = None \<longleftrightarrow> \<not> finite_execution ex"
  by (auto simp: execution_json_def put_fields_None put_float_None finite_execution_def)

lemma balance_json_None: "balance_json b = None \<longleftrightarrow> \<not> finite_balance b"
  by (auto simp: balance_json_def put_fields_None put_float_None finite_balance_def)

lemma balances_text:
  assumes "put_list balance_json bs = Some t"
  shows "json_text t" "\<forall>b \<in> set bs. utf8_ok (AbAsset b) \<Longrightarrow> list_of balance_msg_of t = Some (map balance_of_agent bs)"
proof -
  show "json_text t" by (rule put_list_text [OF assms balance_text])
  assume u: "\<forall>b \<in> set bs. utf8_ok (AbAsset b)"
  obtain ts where ts: "list_all2 (\<lambda>b t. balance_json b = Some t) bs ts" "t = put_array ts"
    using assms by (auto simp: put_list_def those_map_Some)
  have j: "\<forall>t \<in> set ts. json_text t" using ts(1) balance_text by (fastforce simp: list_all2_conv_all_nth in_set_conv_nth)
  have "list_all2 (\<lambda>t m. balance_msg_of t = Some m) ts (map balance_of_agent bs)"
    using ts(1) u balance_of_text by (auto simp: list_all2_conv_all_nth)
  then have "those (map balance_msg_of ts) = Some (map balance_of_agent bs)" by (simp add: those_map_Some)
  then show "list_of balance_msg_of t = Some (map balance_of_agent bs)" by (simp add: list_of_def ts(2) array_of_put [OF j])
qed

text \<open>The text of a report: its payload is the member the hub keeps.\<close>

lemma report_cases_json:
  assumes "report_json nil exec bs = Some t"
  obtains e b where "t = put_object [(''type'', put_string ''delta_report''), (''payload'', put_object [(''execution'', e), (''balances'', b)])]"
    "(case exec of None \<Rightarrow> e = ''null'' | Some ex \<Rightarrow> execution_json ex = Some e)"
    "(if nil \<and> bs = [] then b = ''null'' else put_list balance_json bs = Some b)"
  using assms
  by (cases "case exec of None \<Rightarrow> Some ''null'' | Some ex \<Rightarrow> execution_json ex";
      cases "if nil \<and> bs = [] then Some ''null'' else put_list balance_json bs")
    (auto simp: report_json_def put_fields_def split: option.splits if_splits)

lemma report_json_None: "report_json nil exec bs = None \<longleftrightarrow> \<not> finite_report exec bs"
  using execution_json_None balance_json_None put_list_None [of balance_json bs]
  by (auto simp: report_json_def put_fields_None finite_report_def split: option.splits)

lemma report_arrives_lemma:
  assumes "finite_report exec bs" "\<forall>ex \<in> set_option exec. utf8_ok (AxClientOrderID ex)" "\<forall>b \<in> set bs. utf8_ok (AbAsset b)"
  obtains p where "msg_of (message_json nil (DeltaReportMsg exec bs)) = Some \<lparr>ImType = ''delta_report'', ImPayload = p\<rparr>"
    "report_of p = Some \<lparr>DrExecution = map_option fill_of exec, DrBalances = map balance_of_agent bs\<rparr>"
proof -
  obtain t where t: "report_json nil exec bs = Some t" using assms(1) report_json_None by fastforce
  then obtain e b where eb: "t = put_object [(''type'', put_string ''delta_report''), (''payload'', put_object [(''execution'', e), (''balances'', b)])]"
    "(case exec of None \<Rightarrow> e = ''null'' | Some ex \<Rightarrow> execution_json ex = Some e)"
    "(if nil \<and> bs = [] then b = ''null'' else put_list balance_json bs = Some b)" by (rule report_cases_json)
  have e: "json_text e" using eb(2) execution_text by (auto split: option.splits)
  have b: "json_text b" "list_of balance_msg_of b = Some (map balance_of_agent bs)"
    using eb(3) balances_text assms(3) by (auto split: if_splits)
  let ?p = "put_object [(''execution'', e), (''balances'', b)]"
  have "msg_of t = Some \<lparr>ImType = ''delta_report'', ImPayload = ?p\<rparr>"
    using e b(1) by (simp add: eb(1) msg_of_def struct_of_put set_msg_def get_put_string)
  moreover have "report_of ?p = Some \<lparr>DrExecution = map_option fill_of exec, DrBalances = map balance_of_agent bs\<rparr>"
    using eb(2) e b execution_of_text assms(2)
    by (cases exec) (auto simp: report_of_def struct_of_put set_report_def)
  ultimately show ?thesis by (intro that) (simp_all add: message_json mustMarshal_def t)
qed

lemma empty_message: "msg_of [] = None"
  by (simp add: msg_of_def struct_of_def object_of_def is_null_def literal_def at_end_def)

end
