(* ===== verification/StoredJson.thy ===== *)
theory StoredJson
  imports Wire
begin

text \<open>
  What the program keeps as JSON in its tables: the state of a strategy between two ticks
  (\<open>quant.RuntimeState\<close>, written and read by \<open>internal/saas/instance/manager.go\<close>) and the parameter packs of
  genes (\<open>sdcaParamPack\<close> in \<open>internal/saas/ga/sigmoid_dca_evolvable.go\<close>). The concrete codecs satisfy what the
  other theories ask of them.
\<close>

section \<open>The state of a strategy\<close>

text \<open>A slice that is \<open>nil\<close> is written as \<open>null\<close>.\<close>

definition slice_json :: "bool \<Rightarrow> ('a \<Rightarrow> string option) \<Rightarrow> 'a list \<Rightarrow> string option" where
  "slice_json nil put xs = (if nil \<and> xs = [] then Some ''null'' else put_list put xs)"

definition runtime_json :: "bool \<Rightarrow> bool \<Rightarrow> RuntimeState \<Rightarrow> string option" where
  "runtime_json nil nil' rt = put_fields [(''ema200'', put_float (EMA200 rt)), (''ema200_history'', slice_json nil put_float (EMA200History rt)),
     (''month_high'', put_float (MonthHigh rt)), (''month_str'', Some (put_string (MonthStr rt))),
     (''triggered_tiers'', slice_json nil' (\<lambda>i. Some (put_int i)) (TriggeredTiers rt)), (''stop_loss_hit'', Some (put_bool (StopLossHit rt)))]"

definition set_runtime :: "RuntimeState \<Rightarrow> string \<Rightarrow> string \<Rightarrow> RuntimeState \<times> bool" where
  "set_runtime rt k raw = (if k = ''ema200'' then store rt (\<lambda>x. rt\<lparr>EMA200 := x\<rparr>) (get_float raw (EMA200 rt))
     else if k = ''ema200_history'' then store rt (\<lambda>xs. rt\<lparr>EMA200History := xs\<rparr>) (list_of (\<lambda>t. get_float t 0) raw)
     else if k = ''month_high'' then store rt (\<lambda>x. rt\<lparr>MonthHigh := x\<rparr>) (get_float raw (MonthHigh rt))
     else if k = ''month_str'' then store rt (\<lambda>s. rt\<lparr>MonthStr := s\<rparr>) (get_string raw (MonthStr rt))
     else if k = ''triggered_tiers'' then store rt (\<lambda>xs. rt\<lparr>TriggeredTiers := xs\<rparr>) (list_of (\<lambda>t. get_int t 0) raw)
     else if k = ''stop_loss_hit'' then store rt (\<lambda>b. rt\<lparr>StopLossHit := b\<rparr>) (get_bool raw (StopLossHit rt)) else (rt, True))"

definition runtime_of :: "string \<Rightarrow> RuntimeState option" where
  "runtime_of raw = checked (struct_of set_runtime zero_runtime raw)"

lemma stored_tags [simp]: "fold_name ''ema200'' = ''ema200''" "fold_name ''ema200_history'' = ''ema200_history''"
  "fold_name ''month_high'' = ''month_high''" "fold_name ''month_str'' = ''month_str''" "fold_name ''triggered_tiers'' = ''triggered_tiers''"
  "fold_name ''stop_loss_hit'' = ''stop_loss_hit''" "fold_name ''spawn_point'' = ''spawn_point''"
  "fold_name ''sigmoid_dca_config'' = ''sigmoid_dca_config''" "fold_name ''dca_drop_pct'' = ''dca_drop_pct''"
  "fold_name ''sigmoid_sensitivity'' = ''sigmoid_sensitivity''" "fold_name ''stop_loss_threshold'' = ''stop_loss_threshold''"
  "fold_name ''base_currency'' = ''base_currency''" "fold_name ''trading_pair'' = ''trading_pair''"
  "fold_name ''initial_capital'' = ''initial_capital''" "fold_name ''reserve_floor'' = ''reserve_floor''"
  "fold_name ''roi_release_trigger'' = ''roi_release_trigger''" "fold_name ''release_ratio'' = ''release_ratio''"
  "fold_name ''monthly_inject'' = ''monthly_inject''"
  by code_simp+

lemma stored_utf8_tags [simp]: "utf8_ok ''ema200''" "utf8_ok ''ema200_history''" "utf8_ok ''month_high''" "utf8_ok ''month_str''"
  "utf8_ok ''triggered_tiers''" "utf8_ok ''stop_loss_hit''" "utf8_ok ''spawn_point''" "utf8_ok ''sigmoid_dca_config''"
  "utf8_ok ''dca_drop_pct''" "utf8_ok ''sigmoid_sensitivity''" "utf8_ok ''stop_loss_threshold''" "utf8_ok ''base_currency''"
  "utf8_ok ''trading_pair''" "utf8_ok ''initial_capital''" "utf8_ok ''reserve_floor''" "utf8_ok ''roi_release_trigger''"
  "utf8_ok ''release_ratio''" "utf8_ok ''monthly_inject''"
  by (rule ascii_utf8, simp add: code_def)+

definition finite_runtime :: "RuntimeState \<Rightarrow> bool" where
  "finite_runtime rt \<longleftrightarrow> f_fin (EMA200 rt) \<and> list_all f_fin (EMA200History rt) \<and> f_fin (MonthHigh rt)"

lemma slice_text:
  assumes "slice_json nil put xs = Some t" "\<And>x t. put x = Some t \<Longrightarrow> json_text t \<and> rd t = Some x"
  shows "json_text t \<and> list_of rd t = Some xs"
proof (cases "nil \<and> xs = []")
  case True
  then show ?thesis using assms(1) by (auto simp: slice_json_def)
next
  case False
  then have "put_list put xs = Some t" using assms(1) by (simp add: slice_json_def split: if_splits)
  then show ?thesis using put_list_text [of put xs t] list_of_put_list [of put xs t rd] assms(2) by blast
qed

lemma runtime_json_None: "runtime_json nil nil' rt = None \<longleftrightarrow> \<not> finite_runtime rt"
  by (auto simp: runtime_json_def put_fields_None put_float_None slice_json_def put_list_None finite_runtime_def list_all_iff)

text \<open>A finite state is read back as it was, from a text that is neither empty nor that of an empty object.\<close>

lemma runtime_of_json:
  assumes "runtime_json nil nil' rt = Some t" "utf8_ok (MonthStr rt)"
  shows "runtime_of t = Some rt \<and> t \<noteq> [] \<and> t \<noteq> ''{}''"
proof -
  obtain e h m n where e: "put_float (EMA200 rt) = Some e" "slice_json nil put_float (EMA200History rt) = Some h" "put_float (MonthHigh rt) = Some m"
    "slice_json nil' (\<lambda>i. Some (put_int i)) (TriggeredTiers rt) = Some n"
    "t = put_object [(''ema200'', e), (''ema200_history'', h), (''month_high'', m), (''month_str'', put_string (MonthStr rt)),
      (''triggered_tiers'', n), (''stop_loss_hit'', put_bool (StopLossHit rt))]"
    using assms(1)
    by (cases "put_float (EMA200 rt)"; cases "slice_json nil put_float (EMA200History rt)"; cases "put_float (MonthHigh rt)";
        cases "slice_json nil' (\<lambda>i. Some (put_int i)) (TriggeredTiers rt)") (simp_all add: runtime_json_def put_fields_def)
  have h: "json_text h \<and> list_of (\<lambda>t. get_float t 0) h = Some (EMA200History rt)"
    by (rule slice_text [OF e(2)]) (simp add: json_text_float get_put_float)
  have n: "json_text n \<and> list_of (\<lambda>t. get_int t 0) n = Some (TriggeredTiers rt)"
    by (rule slice_text [OF e(4)]) (auto simp: get_put_int)
  have "runtime_of t = Some rt"
    using e(1,3) h n assms(2)
    by (simp add: e(5) runtime_of_def struct_of_put json_text_float set_runtime_def get_put_float get_put_string get_put_bool)
  then show ?thesis by (simp add: e(5) put_object_def put_member_def put_string_def)
qed

section \<open>Parameter packs\<close>

definition set_spawn :: "SpawnPoint \<Rightarrow> string \<Rightarrow> string \<Rightarrow> SpawnPoint \<times> bool" where
  "set_spawn sp k raw = (if k = ''base_currency'' then store sp (\<lambda>s. sp\<lparr>BaseCurrency := s\<rparr>) (get_string raw (BaseCurrency sp))
     else if k = ''trading_pair'' then store sp (\<lambda>s. sp\<lparr>TradingPair := s\<rparr>) (get_string raw (TradingPair sp))
     else if k = ''initial_capital'' then store sp (\<lambda>x. sp\<lparr>InitialCapital := x\<rparr>) (get_float raw (InitialCapital sp))
     else if k = ''reserve_floor'' then store sp (\<lambda>x. sp\<lparr>SpReserveFloor := x\<rparr>) (get_float raw (SpReserveFloor sp))
     else if k = ''roi_release_trigger'' then store sp (\<lambda>x. sp\<lparr>ROIReleaseTrigger := x\<rparr>) (get_float raw (ROIReleaseTrigger sp))
     else if k = ''release_ratio'' then store sp (\<lambda>x. sp\<lparr>ReleaseRatio := x\<rparr>) (get_float raw (ReleaseRatio sp))
     else if k = ''monthly_inject'' then store sp (\<lambda>x. sp\<lparr>MonthlyInject := x\<rparr>) (get_float raw (MonthlyInject sp)) else (sp, True))"

definition set_config :: "Chromosome \<Rightarrow> string \<Rightarrow> string \<Rightarrow> Chromosome \<times> bool" where
  "set_config c k raw = (if k = ''dca_drop_pct'' then store c (\<lambda>x. c\<lparr>DCADropPct := x\<rparr>) (get_float raw (DCADropPct c))
     else if k = ''sigmoid_sensitivity'' then store c (\<lambda>x. c\<lparr>SigmoidSensitivity := x\<rparr>) (get_float raw (SigmoidSensitivity c))
     else if k = ''stop_loss_threshold'' then store c (\<lambda>x. c\<lparr>StopLossThreshold := x\<rparr>) (get_float raw (StopLossThreshold c)) else (c, True))"

definition set_pack :: "paramPack \<Rightarrow> string \<Rightarrow> string \<Rightarrow> paramPack \<times> bool" where
  "set_pack pp k raw = (if k = ''spawn_point'' then (case struct_of set_spawn (PpSpawnPoint pp) raw of (sp, ok) \<Rightarrow> (pp\<lparr>PpSpawnPoint := sp\<rparr>, ok))
     else if k = ''sigmoid_dca_config'' then (case struct_of set_config (PpConfig pp) raw of (c, ok) \<Rightarrow> (pp\<lparr>PpConfig := c\<rparr>, ok))
     else (pp, True))"

definition zero_pack :: paramPack where
  "zero_pack = \<lparr>PpSpawnPoint = zero_spawn, PpConfig = \<lparr>DCADropPct = 0, SigmoidSensitivity = 0, StopLossThreshold = 0\<rparr>\<rparr>"

definition spawn_json :: "SpawnPoint \<Rightarrow> string option" where
  "spawn_json sp = put_fields [(''base_currency'', Some (put_string (BaseCurrency sp))), (''trading_pair'', Some (put_string (TradingPair sp))),
     (''initial_capital'', put_float (InitialCapital sp)), (''reserve_floor'', put_float (SpReserveFloor sp)),
     (''roi_release_trigger'', put_float (ROIReleaseTrigger sp)), (''release_ratio'', put_float (ReleaseRatio sp)),
     (''monthly_inject'', put_float (MonthlyInject sp))]"

definition config_json :: "Chromosome \<Rightarrow> string option" where
  "config_json c = put_fields [(''dca_drop_pct'', put_float (DCADropPct c)), (''sigmoid_sensitivity'', put_float (SigmoidSensitivity c)),
     (''stop_loss_threshold'', put_float (StopLossThreshold c))]"

definition pack_codec :: json where
  "pack_codec = \<lparr>j_unmarshal = struct_of set_pack zero_pack,
     j_marshal = (\<lambda>pp. put_fields [(''spawn_point'', spawn_json (PpSpawnPoint pp)), (''sigmoid_dca_config'', config_json (PpConfig pp))])\<rparr>"

lemma put_float_fin:
  assumes "f_fin x"
  obtains t where "put_float x = Some t" "json_text t" "\<forall>old. get_float t old = Some x"
proof -
  obtain t where "put_float x = Some t" using assms put_float_None [of x] by auto
  then show ?thesis using json_text_float get_put_float by (intro that allI)
qed

definition finite_spawn :: "SpawnPoint \<Rightarrow> bool" where
  "finite_spawn sp \<longleftrightarrow> f_fin (InitialCapital sp) \<and> f_fin (SpReserveFloor sp) \<and> f_fin (ROIReleaseTrigger sp) \<and>
     f_fin (ReleaseRatio sp) \<and> f_fin (MonthlyInject sp) \<and> utf8_ok (BaseCurrency sp) \<and> utf8_ok (TradingPair sp)"

definition finite_config :: "Chromosome \<Rightarrow> bool" where
  "finite_config c \<longleftrightarrow> f_fin (DCADropPct c) \<and> f_fin (SigmoidSensitivity c) \<and> f_fin (StopLossThreshold c)"

lemma spawn_text:
  assumes "finite_spawn sp"
  obtains t where "spawn_json sp = Some t" "json_text t" "\<forall>old. struct_of set_spawn old t = (sp, True)"
proof -
  have f: "f_fin (InitialCapital sp)" "f_fin (SpReserveFloor sp)" "f_fin (ROIReleaseTrigger sp)" "f_fin (ReleaseRatio sp)" "f_fin (MonthlyInject sp)"
    and u: "utf8_ok (BaseCurrency sp)" "utf8_ok (TradingPair sp)" using assms by (simp_all add: finite_spawn_def)
  obtain a where a: "put_float (InitialCapital sp) = Some a" "json_text a" "\<forall>old. get_float a old = Some (InitialCapital sp)" by (rule put_float_fin [OF f(1)])
  obtain b where b: "put_float (SpReserveFloor sp) = Some b" "json_text b" "\<forall>old. get_float b old = Some (SpReserveFloor sp)" by (rule put_float_fin [OF f(2)])
  obtain c where c: "put_float (ROIReleaseTrigger sp) = Some c" "json_text c" "\<forall>old. get_float c old = Some (ROIReleaseTrigger sp)" by (rule put_float_fin [OF f(3)])
  obtain d where d: "put_float (ReleaseRatio sp) = Some d" "json_text d" "\<forall>old. get_float d old = Some (ReleaseRatio sp)" by (rule put_float_fin [OF f(4)])
  obtain e where e: "put_float (MonthlyInject sp) = Some e" "json_text e" "\<forall>old. get_float e old = Some (MonthlyInject sp)" by (rule put_float_fin [OF f(5)])
  let ?ms = "[(''base_currency'', put_string (BaseCurrency sp)), (''trading_pair'', put_string (TradingPair sp)), (''initial_capital'', a),
    (''reserve_floor'', b), (''roi_release_trigger'', c), (''release_ratio'', d), (''monthly_inject'', e)]"
  have m: "members_ok ?ms" using a(2) b(2) c(2) d(2) e(2) by simp
  have "spawn_json sp = Some (put_object ?ms)" using a(1) b(1) c(1) d(1) e(1) by (simp add: spawn_json_def put_fields_def)
  moreover have "struct_of set_spawn old (put_object ?ms) = (sp, True)" for old
    using a(3) b(3) c(3) d(3) e(3) u by (simp add: struct_of_put [OF m] set_spawn_def get_put_string)
  ultimately show ?thesis using json_text_object [OF m] by (intro that allI)
qed

lemma config_text:
  assumes "finite_config c"
  obtains t where "config_json c = Some t" "json_text t" "\<forall>old. struct_of set_config old t = (c, True)"
proof -
  have f: "f_fin (DCADropPct c)" "f_fin (SigmoidSensitivity c)" "f_fin (StopLossThreshold c)" using assms by (simp_all add: finite_config_def)
  obtain a where a: "put_float (DCADropPct c) = Some a" "json_text a" "\<forall>old. get_float a old = Some (DCADropPct c)" by (rule put_float_fin [OF f(1)])
  obtain b where b: "put_float (SigmoidSensitivity c) = Some b" "json_text b" "\<forall>old. get_float b old = Some (SigmoidSensitivity c)" by (rule put_float_fin [OF f(2)])
  obtain d where d: "put_float (StopLossThreshold c) = Some d" "json_text d" "\<forall>old. get_float d old = Some (StopLossThreshold c)" by (rule put_float_fin [OF f(3)])
  let ?ms = "[(''dca_drop_pct'', a), (''sigmoid_sensitivity'', b), (''stop_loss_threshold'', d)]"
  have m: "members_ok ?ms" using a(2) b(2) d(2) by simp
  have "config_json c = Some (put_object ?ms)" using a(1) b(1) d(1) by (simp add: config_json_def put_fields_def)
  moreover have "struct_of set_config old (put_object ?ms) = (c, True)" for old
    using a(3) b(3) d(3) by (simp add: struct_of_put [OF m] set_config_def)
  ultimately show ?thesis using json_text_object [OF m] by (intro that allI)
qed

lemma pack_text:
  assumes "finite_spawn (PpSpawnPoint pp)" "finite_config (PpConfig pp)"
  shows "\<exists>t. j_marshal pack_codec pp = Some t \<and> t \<noteq> [] \<and> j_unmarshal pack_codec t = (pp, True)"
proof -
  obtain s where s: "spawn_json (PpSpawnPoint pp) = Some s" "json_text s" "\<forall>old. struct_of set_spawn old s = (PpSpawnPoint pp, True)"
    by (rule spawn_text [OF assms(1)])
  obtain c where c: "config_json (PpConfig pp) = Some c" "json_text c" "\<forall>old. struct_of set_config old c = (PpConfig pp, True)"
    by (rule config_text [OF assms(2)])
  let ?ms = "[(''spawn_point'', s), (''sigmoid_dca_config'', c)]"
  have m: "members_ok ?ms" using s(2) c(2) by simp
  have "j_marshal pack_codec pp = Some (put_object ?ms)" using s(1) c(1) by (simp add: pack_codec_def put_fields_def)
  moreover have "j_unmarshal pack_codec (put_object ?ms) = (pp, True)"
    using s(3) c(3) by (simp add: pack_codec_def struct_of_put [OF m] set_pack_def)
  moreover have "put_object ?ms \<noteq> []" by (simp add: put_object_def)
  ultimately show ?thesis by blast
qed

text \<open>Numbers that are read are finite, whatever the text.\<close>

lemma fields_of_inv: "(\<And>r k t. P r \<Longrightarrow> P (fst (f r k t))) \<Longrightarrow> P r \<Longrightarrow> P (fst (fields_of f ms r))"
  by (induction ms arbitrary: r) (simp_all add: split_beta)

lemma struct_of_inv: "(\<And>r k t. P r \<Longrightarrow> P (fst (f r k t))) \<Longrightarrow> P r \<Longrightarrow> P (fst (struct_of f r s))"
  using fields_of_inv [of P f r] by (cases "object_of s") (simp_all add: struct_of_def)

lemma get_float_fin: "get_float t old = Some x \<Longrightarrow> f_fin old \<Longrightarrow> f_fin x"
proof -
  assume a: "get_float t old = Some x" "f_fin old"
  have p: "parse_float nm = Some x \<Longrightarrow> f_fin x" for nm
    using f_nan_cases [of "rnd (num_val nm)"] by (auto simp: parse_float_def Let_def split: if_splits)
  from a show "f_fin x" unfolding get_float_def by (cases "is_null t") (auto simp: bind_eq_Some_conv intro: p)
qed

lemma set_config_fin: "finite_config c \<Longrightarrow> finite_config (fst (set_config c k t))"
  using get_float_fin by (auto simp: set_config_def finite_config_def store_def split: option.split)

lemma set_pack_fin: "finite_config (PpConfig pp) \<Longrightarrow> finite_config (PpConfig (fst (set_pack pp k t)))"
  using struct_of_inv [of finite_config set_config "PpConfig pp" t, OF set_config_fin] by (simp add: set_pack_def split_beta)

lemma pack_codec_ok: "json_ok pack_codec"
  unfolding json_ok_def
proof (intro conjI allI impI)
  fix pp
  assume "pack_plain pp"
  then have p: "finite_config (PpConfig pp)" "finite_spawn (PpSpawnPoint pp)"
    using utf8_ascii by (auto simp: pack_plain_def Let_def finite_config_def finite_spawn_def list_all_iff code_def)
  show "\<exists>s. j_marshal pack_codec pp = Some s \<and> s \<noteq> [] \<and> j_unmarshal pack_codec s = (pp, True)" by (rule pack_text [OF p(2,1)])
next
  fix s
  have "finite_config (PpConfig (fst (struct_of set_pack zero_pack s)))"
    by (rule struct_of_inv [where P = "\<lambda>pp. finite_config (PpConfig pp)", OF set_pack_fin]) (simp_all add: zero_pack_def finite_config_def)
  then show "nan_free (PpConfig (fst (j_unmarshal pack_codec s)))"
    by (simp add: pack_codec_def finite_config_def nan_free_def f_fin_not)
qed

end
