(* ===== verification/WireProps.thy ===== *)
theory WireProps
  imports StoredJson
begin

text \<open>
  The program with its own JSON: the environments of the hub, the manager and the agent with the codecs of
  \<open>Wire\<close> and \<open>StoredJson\<close> in place of parameters, and what holds of the messages between them.
\<close>

section \<open>Environments\<close>

definition wire_hub :: "hub_env \<Rightarrow> hub_env" where
  "wire_hub env = env\<lparr>he_auth := auth_of, he_msg := msg_of, he_report := report_of, he_json := envelope_json,
     he_codec := \<lparr>dr_parse = stored_of, dr_audit = fill_audit\<rparr>\<rparr>"

definition wire_manager :: "bool \<Rightarrow> bool \<Rightarrow> im_env \<Rightarrow> im_env" where
  "wire_manager nil nil' env = env\<lparr>im_rt_marshal := runtime_json nil nil', im_rt_unmarshal := runtime_of,
     im_cmd := (\<lambda>c. Some (trade_json c)), im_envelope := command_json, im_audit := release_audit, im_json := pack_codec\<rparr>"

definition wire_agent :: "agent_env \<Rightarrow> agent_env" where
  "wire_agent env = env\<lparr>ae_login_body := login_json, ae_token := token_of, ae_auth_result := auth_result_of,
     ae_inbound := inbound_of, ae_command := command_of\<rparr>"

definition wire_link :: "link_env \<Rightarrow> link_env" where
  "wire_link L = L\<lparr>le_envelope := command_json, le_hub := wire_hub (le_hub L), le_agent := wire_agent (le_agent L)\<rparr>"

lemma wire_simps [simp]: "he_auth (wire_hub e) = auth_of" "he_msg (wire_hub e) = msg_of" "he_report (wire_hub e) = report_of"
  "he_json (wire_hub e) = envelope_json" "he_codec (wire_hub e) = \<lparr>dr_parse = stored_of, dr_audit = fill_audit\<rparr>"
  "he_token (wire_hub e) = he_token e"
  "im_rt_marshal (wire_manager n n' m) = runtime_json n n'" "im_rt_unmarshal (wire_manager n n' m) = runtime_of"
  "im_cmd (wire_manager n n' m) = (\<lambda>c. Some (trade_json c))" "im_envelope (wire_manager n n' m) = command_json"
  "ae_auth_result (wire_agent a) = auth_result_of" "ae_inbound (wire_agent a) = inbound_of" "ae_command (wire_agent a) = command_of"
  "ae_token (wire_agent a) = token_of" "ae_cfg (wire_agent a) = ae_cfg a" "ae_url_ok (wire_agent a) = ae_url_ok a"
  "ae_login (wire_agent a) = ae_login a" "ae_login_body (wire_agent a) = login_json" "ae_dial (wire_agent a) = ae_dial a"
  "le_user (wire_link L) = le_user L" "le_envelope (wire_link L) = command_json" "le_hub (wire_link L) = wire_hub (le_hub L)"
  "le_agent (wire_link L) = wire_agent (le_agent L)" "le_exchange (wire_link L) = le_exchange L"
  by (simp_all add: wire_hub_def wire_manager_def wire_agent_def wire_link_def)

section \<open>What the readers make of each message\<close>

lemma hub_envelopes_utf8: "e \<in> hub_envelopes \<Longrightarrow> utf8_ok (EvType e) \<and> EvType e \<noteq> ''command''"
  by (auto simp: hub_envelopes_def)

lemma inbound_of_envelope: "utf8_ok (EvType e) \<Longrightarrow> \<exists>p. inbound_of (envelope_json e) = Some (EvType e, p)"
  by (cases "EvPayload e") (simp_all add: inbound_of_def envelope_json_def struct_of_put set_inbound_def get_put_string)

text \<open>The hub puts the flag into a payload, the agent looks for it next to the type.\<close>

lemma auth_result_of_envelope: "utf8_ok (EvType e) \<Longrightarrow> auth_result_of (envelope_json e) = Some (EvType e, False)"
  by (cases "EvPayload e") (simp_all add: auth_result_of_def envelope_json_def struct_of_put set_auth_result_def get_put_string)

lemma auth_of_message: "utf8_ok token \<Longrightarrow> auth_of (message_json nil (Auth token)) = Some \<lparr>AmType = ''auth'', AmToken = token\<rparr>"
  by (simp add: auth_of_def message_json struct_of_put set_auth_def get_put_string)

lemma msg_of_message:
  "msg_of (message_json nil Heartbeat) = Some \<lparr>ImType = ''heartbeat'', ImPayload = []\<rparr>"
  "msg_of (message_json nil (CommandAck k)) = Some \<lparr>ImType = ''command_ack'', ImPayload = []\<rparr>"
  "\<exists>t. msg_of (message_json nil (Auth k)) = Some \<lparr>ImType = ''auth'', ImPayload = []\<rparr>"
  by (simp_all add: message_json msg_of_def struct_of_put set_msg_def get_put_string)

lemma report_of_empty: "report_of [] = None"
  by (simp add: report_of_def struct_of_def object_of_def is_null_def literal_def at_end_def)

lemma wire_codecs: "codecs_ok (wire_link L)"
  unfolding codecs_ok_def
proof (intro conjI allI impI ballI)
  fix c :: TradeCommand
  assume "utf8_ok (TcClientOrderID c)"
  then show "map_option AcClientOrderID (inbound_command (le_agent (wire_link L)) (le_envelope (wire_link L) c)) = Some (TcClientOrderID c)"
    by (simp add: inbound_command_def inbound_of_command command_of_id)
next
  fix e
  assume "e \<in> hub_envelopes"
  then show "inbound_command (le_agent (wire_link L)) (he_json (le_hub (wire_link L)) e) = None"
    using hub_envelopes_utf8 [of e] inbound_of_envelope [of e] by (auto simp: inbound_command_def)
qed

definition utf8_message :: "agent_message \<Rightarrow> bool" where
  "utf8_message m = (case m of DeltaReportMsg exec bs \<Rightarrow> (\<forall>ex \<in> set_option exec. utf8_ok (AxClientOrderID ex)) \<and>
     (\<forall>b \<in> set bs. utf8_ok (AbAsset b)) | _ \<Rightarrow> True)"

lemma lost_report: "\<not> finite_report exec bs \<Longrightarrow> message_json nil (DeltaReportMsg exec bs) = []"
  using report_json_None [of nil exec bs] by (simp add: message_json mustMarshal_def)

text \<open>What the agent has written counts, in the joint system, as a message of the agent.\<close>

lemma written_from_agent:
  assumes "m \<in> set (se_written s)" "utf8_message m"
  shows "from_agent (wire_link L) s (message_json nil m)"
proof (cases m)
  case (Auth token)
  then show ?thesis using msg_of_message(3) [of nil token] by (auto simp: from_agent_def report_of_empty)
next
  case (DeltaReportMsg exec bs)
  show ?thesis
  proof (cases "finite_report exec bs")
    case True
    obtain p where p: "msg_of (message_json nil m) = Some \<lparr>ImType = ''delta_report'', ImPayload = p\<rparr>"
      "report_of p = Some \<lparr>DrExecution = map_option fill_of exec, DrBalances = map balance_of_agent bs\<rparr>"
      unfolding DeltaReportMsg using assms(2) by (auto simp: utf8_message_def DeltaReportMsg intro: report_arrives_lemma [OF True])
    then show ?thesis using assms(1) DeltaReportMsg by (auto simp: from_agent_def)
  next
    case False
    then show ?thesis using lost_report [OF False, of nil] empty_message DeltaReportMsg by (simp add: from_agent_def)
  qed
next
  case CloseFrame
  then show ?thesis using empty_message by (simp add: from_agent_def message_json)
qed (simp_all add: from_agent_def msg_of_message report_of_empty)

text \<open>Rows found again.\<close>

lemma load_runtime_found: "load_runtime k w = (Inr row, u) \<Longrightarrow> find (\<lambda>y. SrInstanceID y = k) (tb_runtimes (w_db w)) = row \<and> w_db u = w_db w"
proof -
  assume l: "load_runtime k w = (Inr row, u)"
  obtain q v where q: "db_first tb_runtimes (\<lambda>y. SrInstanceID y = k) w = (q, v)" by fastforce
  show ?thesis
  proof (cases q)
    case (Inl e)
    then have "is_not_found e" "row = None" "u = v" using l by (auto simp: load_runtime_def q split: if_splits)
    then show ?thesis using db_first_not_found [OF q [unfolded Inl]] by simp
  next
    case (Inr y)
    then have "row = Some y" "u = v" using l by (auto simp: load_runtime_def q)
    then show ?thesis using db_first_ok [OF q [unfolded Inr]] by simp
  qed
qed

lemma find_append_none: "\<forall>x \<in> set xs. \<not> P x \<Longrightarrow> P y \<Longrightarrow> find P (xs @ [y]) = Some y"
  by (induction xs) simp_all

lemma find_update:
  "find P xs = Some y \<Longrightarrow> (\<And>x. P (f x) \<longleftrightarrow> P x) \<Longrightarrow> Q y \<Longrightarrow> find P (update_where Q f xs) = Some (f y)"
  by (induction xs) (auto simp: update_where_def split: if_splits)

lemma legal_finite:
  assumes "legal_chromosome c"
  shows "finite_config c"
proof -
  have b: "f_fin DCADropPctMin" "f_fin DCADropPctMax" "f_fin SigmoidSensitivityMin" "f_fin SigmoidSensitivityMax"
    "f_fin StopLossThresholdMin" "f_fin StopLossThresholdMax" by code_simp+
  have i: "f_fin x" if "f_fin a" "f_fin b" "a \<le> x" "x \<le> b" for a x b :: f64
    using that f_leD [of a x] f_leD [of x b] by (intro f_fin_between [of x a b]) auto
  show ?thesis
    using assms i [OF b(1,2)] i [OF b(3,4)] i [OF b(5,6)] by (simp add: legal_chromosome_def finite_config_def)
qed

section \<open>Properties\<close>

text \<open>C7. A command arrives as it was sent. The agent's reader decodes the envelope of a command, whose texts
  are UTF-8, to the command with the same seven fields, the two that are left out when empty included;
  and when the order is settled, the row written for it yields the same action, engine, symbol and lot
  type.\<close>

theorem command_arrives:
  assumes "utf8_command c"
  shows "inbound_command (wire_agent aenv) (im_envelope (wire_manager nil nil' menv) c) = Some (agent_command c) \<and>
    (\<exists>raw. im_cmd (wire_manager nil nil' menv) c = Some raw \<and> dr_parse (he_codec (wire_hub henv)) raw =
      Some \<lparr>ScAction = TcAction c, ScEngine = TcEngine c, ScSymbol = TcSymbol c, ScLotType = TcLotType c\<rparr>)"
  using command_of_trade [OF assms] stored_of_trade [OF assms] by (simp add: inbound_command_def inbound_of_command)

text \<open>C6. A report arrives bit for bit. When every number of a report is finite, the hub settles exactly the fill
  and the balances the agent sent, each float64 with its bits, and acknowledges it; when one is not, the
  agent sends an empty message, and the hub does nothing at all: the fill is lost.\<close>

theorem report_arrives:
  assumes "\<forall>ex \<in> set_option exec. utf8_ok (AxClientOrderID ex)" "\<forall>b \<in> set bs. utf8_ok (AbAsset b)"
  shows "on_message (wire_hub env) c (message_json nil (DeltaReportMsg exec bs)) (h, w) =
    (if finite_report exec bs then
       (reply (wire_hub env) c \<lparr>EvType = ''report_ack'', EvPayload = None\<rparr> h,
        snd (processDeltaReport (he_codec (wire_hub env)) (ac_userID (hb_all h ! c))
          \<lparr>DrExecution = map_option fill_of exec, DrBalances = map balance_of_agent bs\<rparr> w))
     else (h, w))"
proof (cases "finite_report exec bs")
  case True
  obtain p where "msg_of (message_json nil (DeltaReportMsg exec bs)) = Some \<lparr>ImType = ''delta_report'', ImPayload = p\<rparr>"
    "report_of p = Some \<lparr>DrExecution = map_option fill_of exec, DrBalances = map balance_of_agent bs\<rparr>"
    using report_arrives_lemma [OF True assms] by blast
  then show ?thesis using True by (simp add: on_message_def)
next
  case False
  then show ?thesis using lost_report [OF False, of nil] empty_message by (simp add: on_message_def)
qed

text \<open>C24. No session gets past the authentication. An agent with a token the hub accepts is registered and
  answered, and yet it ends its session with the error of a rejection: whatever text of this hub it reads
  as the answer, the flag is not where it looks for it.\<close>

theorem agent_rejects_acceptance:
  assumes "he_token env token = Some u" "utf8_ok token"
  shows "\<exists>h t. handshake (wire_hub env) (Some (message_json nil (Auth token))) (NewHub (\<lambda>_. False)) = h \<and>
    hb_conns h = [u \<mapsto> 0] \<and> hb_sent h = [(0, TextFrame t)] \<and>
    auth_error (wire_agent aenv) (Some t) = Some (Errorf ''SaaS rejected auth'') \<and>
    (\<forall>e \<in> hub_envelopes. auth_error (wire_agent aenv) (Some (envelope_json e)) \<noteq> None)"
proof -
  have a: "auth_error (wire_agent aenv) (Some (envelope_json e)) = Some (Errorf (if EvType e = ''auth_result'' then ''SaaS rejected auth''
      else ''unexpected message waiting for auth_result''))" if "e \<in> hub_envelopes" for e
    using auth_result_of_envelope [of e] hub_envelopes_utf8 [OF that] by (simp add: auth_error_def)
  let ?h = "handshake (wire_hub env) (Some (message_json nil (Auth token))) (NewHub (\<lambda>_. False))"
  have "hb_conns ?h = [u \<mapsto> 0] \<and> hb_sent ?h = [(0, TextFrame (envelope_json \<lparr>EvType = ''auth_result'', EvPayload = Some True\<rparr>))]"
    using assms by (simp add: handshake_def auth_of_message register_def reply_def writeRaw_def write_frame_def NewHub_def Let_def)
  then show ?thesis using a by (intro exI [of _ ?h] exI [of _ "envelope_json \<lparr>EvType = ''auth_result'', EvPayload = Some True\<rparr>"]) simp
qed

text \<open>C4. From the ledger to the exchange and back. However ticks, calls, connections, reports and the steps
  of the agent interleave, and whatever is lost, repeated or fails: the agent receives no order
  identifier twice and none without an execution row, so that the exchange gets at most one order
  per row of the ledger; and every trade that enters the ledger is for an order the agent
  received. The messages are the texts the two sides write and read.\<close>

theorem one_order_per_row:
  assumes "open_session (le_agent (wire_link L)) lg = Inr s0" "ledger_ok (w_db w)"
    "(link_step (wire_link L))\<^sup>*\<^sup>* \<lparr>lk_world = w, lk_hub = NewHub fails, lk_read = 0, lk_agent = s0\<rparr> l"
  shows "distinct (ids (se_received (lk_agent l))) \<and>
    set (ids (se_received (lk_agent l))) \<subseteq> SxClientOrderID ` set (tb_execs (w_db (lk_world l))) \<and>
    posted (se_world (lk_agent l)) \<le> posted lg + length (se_received (lk_agent l)) \<and>
    posted (se_world (lk_agent l)) \<le> posted lg + length (tb_execs (w_db (lk_world l))) \<and>
    TrClientOrderID ` set (tb_trades (w_db (lk_world l))) \<subseteq>
      TrClientOrderID ` set (tb_trades (w_db w)) \<union> set (ids (se_received (lk_agent l)))"
  by (rule link_orders [OF wire_codecs assms])

text \<open>C13. What one tick stores, the next one reads. A state with finite numbers that step 7 has written is the state
  that the next tick hands to the strategy, bit for bit, whether or not the instance had a row before; a
  state with a number that is not finite is not written, and the tick reports the error.\<close>

theorem runtime_survives_ticks:
  assumes "load_runtime k w0 = (Inr row, w)" "upsertRuntime (wire_manager nil nil' env) k rt row w = (r, u)" "utf8_ok (MonthStr rt)"
    "load_runtime k u = (Inr row', v)"
  shows "(\<forall>x. r = Inr x \<longrightarrow> tick_runtime (wire_manager nil nil' env) row' = rt) \<and>
    (\<not> finite_runtime rt \<longrightarrow> r = Inl (Errorf ''marshal runtime'') \<and> u = w)"
proof (intro conjI allI impI)
  assume "\<not> finite_runtime rt"
  then have "runtime_json nil nil' rt = None" by (simp add: runtime_json_None)
  then show "r = Inl (Errorf ''marshal runtime'')" "u = w" using assms(2) by (simp_all add: upsertRuntime_def)
next
  fix x
  assume r: "r = Inr x"
  let ?P = "\<lambda>y. SrInstanceID y = k"
  obtain t where t: "runtime_json nil nil' rt = Some t" using assms(2) r by (cases "runtime_json nil nil' rt") (simp_all add: upsertRuntime_def)
  note rd = runtime_of_json [OF t assms(3)]
  have "\<exists>y. find ?P (tb_runtimes (w_db u)) = Some y \<and> SrPayload y = t"
  proof (cases row)
    case None
    then have c: "create_runtime \<lparr>SrID = 0, SrInstanceID = k, SrPayload = t\<rparr> w = (Inr x, u)"
      using assms(2) r t by (simp add: upsertRuntime_def)
    have "k \<notin> SrInstanceID ` set (tb_runtimes (w_db w)) \<and> w_db u = add_runtime \<lparr>SrID = 0, SrInstanceID = k, SrPayload = t\<rparr> (w_db w)"
      using c unfolding create_runtime_def by (cases rule: statement_cases) (auto split: if_splits)
    then have d: "\<forall>y \<in> set (tb_runtimes (w_db w)). SrInstanceID y \<noteq> k"
      "w_db u = add_runtime \<lparr>SrID = 0, SrInstanceID = k, SrPayload = t\<rparr> (w_db w)" by auto
    show ?thesis using find_append_none [of _ ?P, OF d(1)] by (simp add: d(2) add_runtime_def)
  next
    case (Some y)
    then have c: "db_exec (\<lambda>d. d\<lparr>tb_runtimes := update_where (\<lambda>z. SrID z = SrID y) (\<lambda>z. z\<lparr>SrPayload := t\<rparr>) (tb_runtimes d)\<rparr>) w = (Inr x, u)"
      using assms(2) r t by (simp add: upsertRuntime_def)
    have f: "find ?P (tb_runtimes (w_db w)) = Some y" using load_runtime_found [OF assms(1)] Some by simp
    have "find ?P (update_where (\<lambda>z. SrID z = SrID y) (\<lambda>z. z\<lparr>SrPayload := t\<rparr>) (tb_runtimes (w_db w))) = Some (y\<lparr>SrPayload := t\<rparr>)"
      by (rule find_update [OF f]) simp_all
    then show ?thesis using db_exec_ok [OF c] by simp
  qed
  then obtain y where y: "find ?P (tb_runtimes (w_db u)) = Some y" "SrPayload y = t" by blast
  then have "row' = Some y" using load_runtime_found [OF assms(4)] by (cases row') auto
  then show "tick_runtime (wire_manager nil nil' env) row' = rt" using y(2) rd by (simp add: tick_runtime_def)
qed

text \<open>C14. A gene survives storage. The text \<open>EncodeResult\<close> writes for a legal gene and a finite spawn point is read
  back unchanged, bit for bit: \<open>DecodeElite\<close> recovers the gene (its clamping is the identity there) and
  \<open>DecodeSpawnFromParamPack\<close> the spawn point, so a challenger stored by an epoch re-enters the next
  population, and the live strategy, as the gene that won.\<close>

theorem stored_gene_survives:
  assumes "legal_chromosome c" "finite_spawn sp"
  shows "\<exists>s. EncodeResult pack_codec c (Some sp) = Some s \<and> DecodeElite pack_codec s = c \<and> DecodeSpawnFromParamPack pack_codec s = sp"
proof -
  have f: "finite_config c" using legal_finite [OF assms(1)] by simp
  obtain s where s: "j_marshal pack_codec \<lparr>PpSpawnPoint = sp, PpConfig = c\<rparr> = Some s" "s \<noteq> []"
      "j_unmarshal pack_codec s = (\<lparr>PpSpawnPoint = sp, PpConfig = c\<rparr>, True)"
    using pack_text [of "\<lparr>PpSpawnPoint = sp, PpConfig = c\<rparr>"] assms(2) f by auto
  then show ?thesis by (simp add: EncodeResult_def DecodeElite_def DecodeSpawnFromParamPack_def ClampChromosome_id assms(1))
qed

section \<open>A run\<close>

definition wired_agent :: agent_env where
  "wired_agent = demo_agent\<lparr>ae_login := (\<lambda>_ _. Some (200, put_object [(''token'', put_string ''jwt'')]))\<rparr>"

definition wired :: link_env where
  "wired = wire_link \<lparr>le_user = 9, le_envelope = command_json, le_hub = demo_hub, le_agent = wired_agent, le_exchange = demo_exchange\<rparr>"

definition wired_hub :: Hub where
  "wired_hub = handshake (wire_hub demo_hub) (Some (message_json False (Auth ''jwt''))) (NewHub (\<lambda>_. False))"

definition wired_tick :: "go_error option \<times> world \<times> Hub" where
  "wired_tick = Tick (wire_manager False True demo_env) demo_inst (demo_world, wired_hub)"

definition wired_command :: TradeCommand where
  "wired_command = \<lparr>TcClientOrderID = ''inst4-MACRO-5'', TcAction = ''BUY'', TcEngine = ''MACRO'', TcSymbol = ''BTC/USDT'',
     TcAmountUSDT = ''20.00'', TcQtyAsset = [], TcLotType = ''DEAD_STACK''\<rparr>"

lemma wired_texts: "delivered_to (snd (snd wired_tick)) 9 = [envelope_json \<lparr>EvType = ''auth_result'', EvPayload = Some True\<rparr>, command_json wired_command]"
  "stored_utf8 (w_db (fst (snd wired_tick)))"
  by code_simp+

lemma wired_utf8: "utf8_command wired_command"
  by code_simp

lemma wired_placed: "\<not> isl (fst (PlaceOrder demo_exchange (agent_command wired_command) [])) \<and>
    posted (snd (PlaceOrder demo_exchange (agent_command wired_command) [])) = 1"
  by code_simp

lemma wired_open: "open_session (wire_agent wired_agent) [] = Inr demo_start"
proof -
  have "login (wire_agent wired_agent) = Inr ''jwt'' \<and> ae_dial wired_agent (toWSURL (AgSaaSURL (ae_cfg wired_agent)) @ ''/ws/agent'')" by code_simp
  then show ?thesis by (simp add: open_session_def demo_start_def Let_def)
qed

lemma link_steps: "link_step L a b \<Longrightarrow> (link_step L)\<^sup>*\<^sup>* b c \<Longrightarrow> (link_step L)\<^sup>*\<^sup>* a c"
  by (rule converse_rtranclp_into_rtranclp)

text \<open>A tick, the agent's reading of the command it sends, and the order it places.\<close>

theorem one_order_per_row_witness:
  "\<exists>l. (link_step wired)\<^sup>*\<^sup>* \<lparr>lk_world = demo_world, lk_hub = NewHub (\<lambda>_. False), lk_read = 0, lk_agent = demo_start\<rparr> l \<and>
     posted (se_world (lk_agent l)) = 1 \<and> ids (se_received (lk_agent l)) = [''inst4-MACRO-5''] \<and>
     ''inst4-MACRO-5'' \<in> SxClientOrderID ` set (tb_execs (w_db (lk_world l)))"
proof -
  let ?env = "wire_manager False True demo_env"
  let ?order = "agent_command wired_command"
  have le [simp]: "le_agent wired = wire_agent wired_agent" "le_user wired = 9" "le_hub wired = wire_hub demo_hub" "le_exchange wired = demo_exchange"
    "le_envelope wired = command_json" by (simp_all add: wired_def)
  let ?step = "session_step (BitgetClient demo_exchange) (wire_agent wired_agent)"
  obtain r lg where p: "PlaceOrder demo_exchange ?order [] = (r, lg)" by fastforce
  with wired_placed obtain ex where r: "r = Inr ex" by (cases r) simp_all
  have posted: "posted lg = 1" using wired_placed p by simp
  let ?l0 = "\<lparr>lk_world = demo_world, lk_hub = NewHub (\<lambda>_. False), lk_read = 0, lk_agent = demo_start\<rparr>"
  let ?l1 = "?l0\<lparr>lk_hub := wired_hub\<rparr>"
  let ?l2 = "?l1\<lparr>lk_world := fst (snd wired_tick), lk_hub := snd (snd wired_tick)\<rparr>"
  let ?s1 = "demo_start\<lparr>se_reader := Authenticating, se_queue := [Auth ''jwt'']\<rparr>"
  let ?s2 = "?s1\<lparr>se_reader := Reading, se_jobs := [Snapshot]\<rparr>"
  let ?s3 = "?s2\<lparr>se_reader := Acking ?order, se_received := [?order]\<rparr>"
  let ?s4 = "?s3\<lparr>se_reader := Reading, se_queue := [Auth ''jwt'', CommandAck (AcClientOrderID ?order)], se_jobs := [Snapshot, Place ?order]\<rparr>"
  let ?s5 = "?s4\<lparr>se_jobs := [Snapshot, Placed (Some ex)], se_world := lg\<rparr>"
  let ?l5 = "?l2\<lparr>lk_read := 2, lk_agent := ?s5\<rparr>"
  have a: "?step demo_start ?s1" using session_step.auth_sent [of demo_start "''jwt''" "[Auth ''jwt'']"] safeSend.sent [of "[]"]
    by (simp add: demo_start_def)
  let ?ok = "put_object [(''type'', put_string ''auth_result''), (''success'', put_bool True)]"
  have "auth_error (wire_agent wired_agent) (Some ?ok) = None"
    by (simp add: auth_error_def auth_result_of_def struct_of_put set_auth_result_def get_put_string get_put_bool)
  then have b: "?step ?s1 ?s2" using session_step.authenticated [of ?s1 "wire_agent wired_agent" "Some ?ok"] by (simp add: demo_start_def)
  have cmd: "inbound_command (wire_agent wired_agent) (command_json wired_command) = Some ?order"
    by (simp add: inbound_command_def inbound_of_command command_of_trade [OF wired_utf8])
  have c: "?step ?s2 ?s3" using session_step.command [OF _ cmd, of ?s2] by (simp add: demo_start_def)
  have d: "?step ?s3 ?s4"
    using session_step.acked [of ?s3 ?order "[Auth ''jwt'', CommandAck (AcClientOrderID ?order)]"] safeSend.sent [of "[Auth ''jwt'']"]
    by (simp add: demo_start_def)
  have w: "executeAndReport (BitgetClient demo_exchange) (Place ?order) [] = (Placed (Some ex), lg)"
    by (simp add: executeAndReport_def BitgetClient_def p r)
  have e: "?step ?s4 ?s5"
    using session_step.worked [of ?s4 "[Snapshot]" "Place ?order" "[]" "BitgetClient demo_exchange" "Placed (Some ex)" lg] w
    by (simp add: demo_start_def)
  have 1: "link_step wired ?l0 ?l1"
    using link_step.connect [of wired ?l0 "Some (message_json False (Auth ''jwt''))"] by (simp add: wired_hub_def)
  have 2: "link_step wired ?l1 ?l2"
    using link_step.tick [of ?env wired demo_inst ?l1 "fst wired_tick" "fst (snd wired_tick)" "snd (snd wired_tick)"] wired_texts(2)
    by (simp add: wired_tick_def)
  have 3: "link_step wired ?l2 (?l2\<lparr>lk_agent := ?s1\<rparr>)" using link_step.agent [of wired ?l2 ?s1] a by simp
  have 4: "link_step wired (?l2\<lparr>lk_agent := ?s1\<rparr>) (?l2\<lparr>lk_agent := ?s2\<rparr>)"
    using link_step.agent [of wired "?l2\<lparr>lk_agent := ?s1\<rparr>" ?s2] b by simp
  have t: "texts wired (?l2\<lparr>lk_agent := ?s2\<rparr>) = [envelope_json \<lparr>EvType = ''auth_result'', EvPayload = Some True\<rparr>, command_json wired_command]"
    using wired_texts(1) by (simp add: texts_def)
  have 5: "link_step wired (?l2\<lparr>lk_agent := ?s2\<rparr>) (?l2\<lparr>lk_read := 2, lk_agent := ?s3\<rparr>)"
    using link_step.read [of "?l2\<lparr>lk_agent := ?s2\<rparr>" 1 wired ?order ?s3] c cmd t by (simp add: demo_start_def numeral_2_eq_2)
  have 6: "link_step wired (?l2\<lparr>lk_read := 2, lk_agent := ?s3\<rparr>) (?l2\<lparr>lk_read := 2, lk_agent := ?s4\<rparr>)"
    using link_step.agent [of wired "?l2\<lparr>lk_read := 2, lk_agent := ?s3\<rparr>" ?s4] d by simp
  have 7: "link_step wired (?l2\<lparr>lk_read := 2, lk_agent := ?s4\<rparr>) ?l5"
    using link_step.agent [of wired "?l2\<lparr>lk_read := 2, lk_agent := ?s4\<rparr>" ?s5] e by simp
  have run: "(link_step wired)\<^sup>*\<^sup>* ?l0 ?l5"
    by (rule link_steps [OF 1 link_steps [OF 2 link_steps [OF 3 link_steps [OF 4 link_steps [OF 5 link_steps [OF 6
      r_into_rtranclp [where r = "link_step wired", OF 7]]]]]]])
  have led: "ledger_ok (w_db demo_world)" using demo_ledger by (simp add: demo_world_def)
  have i: "ids (se_received (lk_agent ?l5)) = [''inst4-MACRO-5'']" by (simp add: ids_def agent_command_def wired_command_def)
  have o: "open_session (le_agent wired) [] = Inr demo_start" using wired_open by simp
  have wl: "wire_link wired = wired" by (simp add: wired_def wire_link_def wire_hub_def wire_agent_def)
  have "set (ids (se_received (lk_agent ?l5))) \<subseteq> SxClientOrderID ` set (tb_execs (w_db (lk_world ?l5)))"
    using one_order_per_row [where L = wired, unfolded wl, OF o led run] by (elim conjE)
  then have "''inst4-MACRO-5'' \<in> SxClientOrderID ` set (tb_execs (w_db (lk_world ?l5)))" unfolding i by simp
  moreover have "posted (se_world (lk_agent ?l5)) = 1" by (simp add: posted)
  ultimately show ?thesis using run i by blast
qed

theorem command_arrives_witness:
  "inbound_command (wire_agent wired_agent) (command_json wired_command) = Some (agent_command wired_command)"
  using command_arrives [OF wired_utf8, of wired_agent] by simp

theorem agent_rejects_acceptance_witness:
  "\<exists>t. hb_conns wired_hub = [9 \<mapsto> 0] \<and> hb_sent wired_hub = [(0, TextFrame t)] \<and>
     auth_error (wire_agent wired_agent) (Some t) = Some (Errorf ''SaaS rejected auth'')"
proof -
  have "he_token demo_hub ''jwt'' = Some 9" "utf8_ok ''jwt''" by code_simp+
  from agent_rejects_acceptance [OF this, where nil = False and aenv = wired_agent] show ?thesis unfolding wired_hub_def by blast
qed

theorem report_arrives_witness:
  "on_message (wire_hub demo_hub) 0 (message_json False (DeltaReportMsg
      (Some \<lparr>AxClientOrderID = ''inst4-MACRO-5'', AxFilledQty = lit 1 10, AxFilledPrice = lit 200 1, AxFee = f_NaN\<rparr>) [])) (wired_hub, demo_world) =
     (wired_hub, demo_world) \<and>
   report_of (put_object [(''execution'', ''null''), (''balances'', put_array [])]) = Some \<lparr>DrExecution = None, DrBalances = []\<rparr> \<and>
   on_message (wire_hub demo_hub) 0 (message_json True (DeltaReportMsg None [])) (wired_hub, demo_world) =
     (reply (wire_hub demo_hub) 0 \<lparr>EvType = ''report_ack'', EvPayload = None\<rparr> wired_hub,
      snd (processDeltaReport (he_codec (wire_hub demo_hub)) (ac_userID (hb_all wired_hub ! 0)) \<lparr>DrExecution = None, DrBalances = []\<rparr> demo_world))"
proof -
  let ?ex = "\<lparr>AxClientOrderID = ''inst4-MACRO-5'', AxFilledQty = lit 1 10, AxFilledPrice = lit 200 1, AxFee = f_NaN\<rparr>"
  have "utf8_ok ''inst4-MACRO-5''" by code_simp
  then have u: "\<forall>ex \<in> set_option (Some ?ex). utf8_ok (AxClientOrderID ex)" by simp
  have "\<not> finite_report (Some ?ex) []" using f_fin_not(1) [of f_NaN] by (auto simp: finite_report_def finite_execution_def)
  moreover have "finite_report None []" by (simp add: finite_report_def)
  moreover have "report_of (put_object [(''execution'', ''null''), (''balances'', put_array [])]) = Some \<lparr>DrExecution = None, DrBalances = []\<rparr>"
    by code_simp
  ultimately show ?thesis
    using report_arrives [OF u, where bs = "[]" and env = demo_hub] report_arrives [where exec = None and bs = "[]" and env = demo_hub] by simp
qed

theorem stored_gene_survives_witness:
  "\<exists>s. EncodeResult pack_codec DefaultSeedChromosome (Some zero_spawn) = Some s \<and>
     DecodeElite pack_codec s = DefaultSeedChromosome \<and> DecodeSpawnFromParamPack pack_codec s = zero_spawn"
proof (rule stored_gene_survives [OF legal_DefaultSeed])
  show "finite_spawn zero_spawn" by code_simp
qed

theorem runtime_survives_ticks_witness:
  "\<exists>w u v row. load_runtime 4 demo_world = (Inr None, w) \<and>
     upsertRuntime (wire_manager False True demo_env) 4 (StRuntime step_example) None w = (Inr (), u) \<and>
     load_runtime 4 u = (Inr row, v) \<and> tick_runtime (wire_manager False True demo_env) row = StRuntime step_example"
proof -
  let ?rt = "StRuntime step_example" and ?env = "wire_manager False True demo_env"
  let ?w = "snd (load_runtime 4 demo_world)"
  let ?u = "snd (upsertRuntime ?env 4 ?rt None ?w)"
  have e: "fst (load_runtime 4 demo_world) = Inr None" "utf8_ok (MonthStr ?rt)" "fst (upsertRuntime ?env 4 ?rt None ?w) = Inr ()"
    "\<not> isl (fst (load_runtime 4 ?u))" by code_simp+
  have w: "load_runtime 4 demo_world = (Inr None, ?w)" using e(1) by (simp add: prod_eq_iff)
  have u: "upsertRuntime ?env 4 ?rt None ?w = (Inr (), ?u)" using e(3) by (simp add: prod_eq_iff)
  obtain row where r: "load_runtime 4 ?u = (Inr row, snd (load_runtime 4 ?u))"
    using e(4) by (cases "fst (load_runtime 4 ?u)") (simp_all add: prod_eq_iff)
  show ?thesis using runtime_survives_ticks [OF w u e(2) r] w u r by blast
qed

end
