(* ===== verification/Scheduler.thy ===== *)
theory Scheduler
  imports TickProps
begin

text \<open>
  \<open>internal/saas/cron/scheduler.go\<close>: the minute loop that ticks every running instance. The ticks of one
  scan run concurrently in the program; here they run one after the other, in any order, each with
  the surroundings (clock, exchange, cache) it meets.
\<close>

section \<open>The loop\<close>

text \<open>\<open>sc_closes\<close> counts the calls of \<open>close\<close> on the stop channel: a second one would panic.\<close>

record Scheduler =
  sc_once :: bool
  sc_closes :: nat

definition NewScheduler :: Scheduler where
  "NewScheduler = \<lparr>sc_once = False, sc_closes = 0\<rparr>"

definition Stop_scheduler :: "Scheduler \<Rightarrow> Scheduler" where
  "Stop_scheduler s = (if sc_once s then s else s\<lparr>sc_once := True, sc_closes := sc_closes s + 1\<rparr>)"

definition scan :: "(StrategyInstance \<Rightarrow> im_env) \<Rightarrow> (StrategyInstance list \<Rightarrow> StrategyInstance list) \<Rightarrow> world \<times> Hub \<Rightarrow> world \<times> Hub" where
  "scan env order = (\<lambda>(w, h). case db_query (\<lambda>d. filter (\<lambda>i. SiStatus i = ''RUNNING'') (tb_instances d)) w of
     (Inl e, w) \<Rightarrow> (w, h)
   | (Inr instances, w) \<Rightarrow> foldl (\<lambda>s inst. snd (Tick (env inst) inst s)) (w, h) (order instances))"

text \<open>What wakes the loop: the ticker, or the closed channel, which ends it.\<close>

datatype wakeup = Ticker "StrategyInstance \<Rightarrow> im_env" "StrategyInstance list \<Rightarrow> StrategyInstance list" | Stopped

primrec scheduler_loop :: "wakeup list \<Rightarrow> world \<times> Hub \<Rightarrow> world \<times> Hub" where
  "scheduler_loop [] s = s"
| "scheduler_loop (w # ws) s = (case w of Ticker env order \<Rightarrow> scheduler_loop ws (scan env order s) | Stopped \<Rightarrow> s)"

lemma stop_closes_once: "0 < n \<Longrightarrow> sc_closes ((Stop_scheduler ^^ n) NewScheduler) = 1 \<and> sc_once ((Stop_scheduler ^^ n) NewScheduler)"
proof (induction n)
  case (Suc n)
  then show ?case by (cases n) (simp_all add: Stop_scheduler_def NewScheduler_def)
qed simp

section \<open>One scan\<close>

lemma tick_change_execs:
  "tick_change k d e \<Longrightarrow> x \<in> set (tb_execs e) \<Longrightarrow> x \<in> set (tb_execs d) \<or> SxInstanceID x = k \<and> SxStatus x = ''pending''"
  by (cases rule: tick_change.cases) (auto simp: add_portfolio_def add_audit_def put_portfolio_def add_exec_def)

lemma tick_changes_execs:
  "tick_changes k d e \<Longrightarrow> x \<in> set (tb_execs e) \<Longrightarrow> x \<in> set (tb_execs d) \<or> SxInstanceID x = k \<and> SxStatus x = ''pending''"
  by (induction rule: rtranclp_induct) (auto dest: tick_change_execs)

text \<open>What one tick may do for its instance, and what it cannot do for others.\<close>

definition served :: "StrategyInstance list \<Rightarrow> world \<times> Hub \<Rightarrow> world \<times> Hub \<Rightarrow> bool" where
  "served is s t \<longleftrightarrow> registry_ok (snd t) \<and> (ledger_ok (w_db (fst s)) \<longrightarrow> ledger_ok (w_db (fst t))) \<and>
     (\<forall>x \<in> set (tb_execs (w_db (fst t))). x \<in> set (tb_execs (w_db (fst s))) \<or>
       SxStatus x = ''pending'' \<and> SxInstanceID x \<in> SiID ` set is) \<and>
     (\<forall>k. k \<notin> SiUserID ` set is \<longrightarrow> delivered_to (snd t) k = delivered_to (snd s) k)"

lemma Tick_served:
  assumes "Tick env inst (w, h) = (r, u, g)" "registry_ok h"
  shows "served [inst] (w, h) (u, g)"
proof -
  from Tick_changes [OF assms(1)] obtain v where v: "tick_changes (SiID inst) (w_db w) (w_db v)"
    "u = v \<or> u = markError (SiID inst) v" by blast
  have e: "tb_execs (w_db u) = tb_execs (w_db v)" using v(2) markError_execs by auto
  have l: "ledger_ok (w_db u)" if "ledger_ok (w_db w)"
    using ledger_changes [OF v(1) that] v(2) set_status_ledger [OF markError_statement] by auto
  note s = Tick_sent [OF assms, unfolded sent_recorded_def]
  then have "delivered_to g k = delivered_to h k" if "k \<noteq> SiUserID inst" for k using that by auto
  then show ?thesis using s l tick_changes_execs [OF v(1)] by (auto simp: served_def e)
qed

lemma served_trans: "served xs s t \<Longrightarrow> served ys t u \<Longrightarrow> served (xs @ ys) s u"
  unfolding served_def by (auto simp: image_Un)

lemma ticks_served:
  "registry_ok (snd s) \<Longrightarrow> served is s (foldl (\<lambda>s inst. snd (Tick (env inst) inst s)) s is)"
proof (induction "is" arbitrary: s)
  case Nil
  then show ?case by (simp add: served_def)
next
  case (Cons i "is")
  obtain w h where s: "s = (w, h)" by fastforce
  obtain r u g where t: "Tick (env i) i (w, h) = (r, u, g)" by (metis prod.exhaust)
  have one: "served [i] (w, h) (u, g)" using Tick_served [OF t] Cons.prems s by simp
  then have "registry_ok (snd (u, g))" by (simp add: served_def)
  from served_trans [OF one Cons.IH [OF this]] show ?case by (simp add: s t)
qed

text \<open>C29. A scan works for running instances only. Whatever the order of the ticks, whatever each of them
  meets and whichever statements fail, every order row a scan adds is pending and belongs to an
  instance that was running when the scan read the table, every message it sends goes to the
  owner of such an instance, and the order ledger stays consistent.\<close>

theorem scan_serves_running:
  assumes "(saas_step henv)\<^sup>*\<^sup>* (w0, NewHub fails) (w, h)" "\<And>is. set (order is) \<subseteq> set is" "scan env order (w, h) = (u, g)"
  defines "running \<equiv> {i \<in> set (tb_instances (w_db w)). SiStatus i = ''RUNNING''}"
  shows "(\<forall>x \<in> set (tb_execs (w_db u)). x \<notin> set (tb_execs (w_db w)) \<longrightarrow> SxStatus x = ''pending'' \<and> SxInstanceID x \<in> SiID ` running) \<and>
    (\<forall>k. delivered_to g k \<noteq> delivered_to h k \<longrightarrow> k \<in> SiUserID ` running) \<and> (ledger_ok (w_db w) \<longrightarrow> ledger_ok (w_db u))"
proof -
  have h: "registry_ok h" using saas_registry [OF assms(1)] by (simp add: registry_ok_def NewHub_def)
  obtain q v where q: "db_query (\<lambda>d. filter (\<lambda>i. SiStatus i = ''RUNNING'') (tb_instances d)) w = (q, v)" by fastforce
  have v: "w_db v = w_db w" by (rule db_query_db [OF q])
  show ?thesis
  proof (cases q)
    case (Inl e)
    then have "u = v" "g = h" using assms(3) by (simp_all add: scan_def q)
    then show ?thesis using v by simp
  next
    case (Inr insts)
    have "set insts = running" using db_query_ok [OF q [unfolded Inr]] by (auto simp: running_def)
    then have o: "set (order insts) \<subseteq> running" using assms(2) [of insts] by simp
    have "served (order insts) (v, h) (u, g)"
      using ticks_served [of "(v, h)" "order insts" env] h assms(3) by (simp add: scan_def q Inr)
    then show ?thesis using o v unfolding served_def by fastforce
  qed
qed

theorem scan_serves_running_witness:
  "delivered_to (snd (scan (\<lambda>_. demo_env) rev (demo_world, online))) 8 = delivered_to online 8 \<and>
   ledger_ok (w_db (fst (scan (\<lambda>_. demo_env) rev (demo_world, online))))"
proof -
  have r: "(saas_step demo_hub)\<^sup>*\<^sup>* (demo_world, NewHub (\<lambda>_. False)) (demo_world, online)"
    using demo_online by (rule r_into_rtranclp)
  obtain u g where s: "scan (\<lambda>_. demo_env) rev (demo_world, online) = (u, g)" by fastforce
  have "8 \<notin> SiUserID ` {i \<in> set (tb_instances (w_db demo_world)). SiStatus i = ''RUNNING''}"
    by (auto simp: demo_world_def demo_db_def)
  moreover have "ledger_ok (w_db demo_world)" using demo_ledger by (simp add: demo_world_def)
  ultimately show ?thesis using scan_serves_running [OF r _ s] by (auto simp: s)
qed

end
