(* ===== verification/Auth.thy ===== *)
theory Auth
  imports Hub Bitget
begin

text \<open>
  \<open>internal/saas/config/config.go\<close>, \<open>internal/agent/config/config.go\<close> and \<open>internal/saas/auth/service.go\<close>:
  configuration with its overlay from the environment, and the tokens agents authenticate with.
  Reading files, the YAML decoder and the JWT library are parameters.
\<close>

section \<open>Configuration\<close>

record ServerConfig =
  SvHost :: string
  SvPort :: int

record DatabaseConfig =
  DbHost :: string
  DbPort :: int
  DbUser :: string
  DbPassword :: string
  DbName :: string
  DbSSLMode :: string

record RedisConfig =
  RdHost :: string
  RdPort :: int
  RdPassword :: string
  RdDB :: int

record JWTConfig =
  JwSecret :: string
  JwTTL :: int

record SaaSConfig =
  ScAppRole :: string
  ScServer :: ServerConfig
  ScDatabase :: DatabaseConfig
  ScRedis :: RedisConfig
  ScJWT :: JWTConfig

record loader =
  ld_file :: "string \<Rightarrow> string option"
  ld_saas :: "string \<Rightarrow> SaaSConfig option"
  ld_agent :: "string \<Rightarrow> AgentConfig option"
  ld_env :: "string \<Rightarrow> string"

text \<open>A duration in YAML is a text like \<open>24h\<close>; the decoder of the node and \<open>time.ParseDuration\<close> are parameters.
  A failure leaves the duration as it was.\<close>

definition UnmarshalYAML :: "('n \<Rightarrow> string option) \<Rightarrow> (string \<Rightarrow> int option) \<Rightarrow> 'n \<Rightarrow> int \<Rightarrow> go_error option \<times> int" where
  "UnmarshalYAML decode parse value d = (case decode value of None \<Rightarrow> (Some (Errorf ''decode''), d)
   | Some s \<Rightarrow> (case parse s of None \<Rightarrow> (Some (Errorf ''duration''), d) | Some dur \<Rightarrow> (None, dur)))"

definition overlay :: "(string \<Rightarrow> string) \<Rightarrow> SaaSConfig \<Rightarrow> SaaSConfig" where
  "overlay getenv cfg =
     (let v = getenv ''DB_PASSWORD''; cfg = (if v \<noteq> [] then cfg\<lparr>ScDatabase := (ScDatabase cfg)\<lparr>DbPassword := v\<rparr>\<rparr> else cfg);
          v = getenv ''REDIS_PASSWORD''; cfg = (if v \<noteq> [] then cfg\<lparr>ScRedis := (ScRedis cfg)\<lparr>RdPassword := v\<rparr>\<rparr> else cfg);
          v = getenv ''JWT_SECRET''
      in if v \<noteq> [] then cfg\<lparr>ScJWT := (ScJWT cfg)\<lparr>JwSecret := v\<rparr>\<rparr> else cfg)"

definition Load_saas :: "loader \<Rightarrow> string \<Rightarrow> go_error + SaaSConfig" where
  "Load_saas env path = (case ld_file env path of None \<Rightarrow> Inl (Errorf ''read'')
   | Some data \<Rightarrow> (case ld_saas env data of None \<Rightarrow> Inl (Errorf ''yaml'') | Some cfg \<Rightarrow> Inr (overlay (ld_env env) cfg)))"

definition Load_agent :: "loader \<Rightarrow> string \<Rightarrow> go_error + AgentConfig" where
  "Load_agent env path = (case ld_file env path of None \<Rightarrow> Inl (Errorf ''read'')
   | Some data \<Rightarrow> (case ld_agent env data of None \<Rightarrow> Inl (Errorf ''yaml'') | Some cfg \<Rightarrow> Inr cfg))"

text \<open>The environment wins where it is set, and touches nothing but the three secrets.\<close>

lemma Load_saas_secrets:
  assumes "Load_saas env path = Inr cfg"
  obtains raw where "JwSecret (ScJWT cfg) = (if ld_env env ''JWT_SECRET'' \<noteq> [] then ld_env env ''JWT_SECRET'' else JwSecret (ScJWT raw))"
    "DbPassword (ScDatabase cfg) = (if ld_env env ''DB_PASSWORD'' \<noteq> [] then ld_env env ''DB_PASSWORD'' else DbPassword (ScDatabase raw))"
    "RdPassword (ScRedis cfg) = (if ld_env env ''REDIS_PASSWORD'' \<noteq> [] then ld_env env ''REDIS_PASSWORD'' else RdPassword (ScRedis raw))"
    "cfg = raw\<lparr>ScDatabase := (ScDatabase raw)\<lparr>DbPassword := DbPassword (ScDatabase cfg)\<rparr>,
       ScRedis := (ScRedis raw)\<lparr>RdPassword := RdPassword (ScRedis cfg)\<rparr>, ScJWT := (ScJWT raw)\<lparr>JwSecret := JwSecret (ScJWT cfg)\<rparr>\<rparr>"
proof -
  obtain data raw where "cfg = overlay (ld_env env) raw" using assms by (auto simp: Load_saas_def split: option.splits)
  then show ?thesis by (intro that [of raw]) (simp_all add: overlay_def Let_def)
qed

section \<open>Tokens\<close>

record Claims =
  ClUserID :: nat
  ClRole :: string
  ClIssuedAt :: go_time
  ClExpiresAt :: go_time

text \<open>The library: signing with an algorithm and a key, and parsing at a time with a key function, which sees
  the algorithm of the token; the flag is \<open>Token.Valid\<close>.\<close>

record jwt =
  jw_sign :: "string \<Rightarrow> string \<Rightarrow> Claims \<Rightarrow> string option"
  jw_parse :: "go_time \<Rightarrow> (string \<Rightarrow> string option) \<Rightarrow> string \<Rightarrow> (Claims \<times> bool) option"

definition is_hmac :: "string \<Rightarrow> bool" where
  "is_hmac alg \<longleftrightarrow> alg \<in> set [''HS256'', ''HS384'', ''HS512'']"

text \<open>The clock is read twice.\<close>

definition SignToken :: "jwt \<Rightarrow> go_time \<Rightarrow> go_time \<Rightarrow> SaaSConfig \<Rightarrow> nat \<Rightarrow> string \<Rightarrow> string option" where
  "SignToken lib now now' cfg userID role = jw_sign lib ''HS256'' (JwSecret (ScJWT cfg))
     \<lparr>ClUserID = userID, ClRole = role, ClIssuedAt = now, ClExpiresAt = now' + JwTTL (ScJWT cfg)\<rparr>"

definition ParseToken :: "jwt \<Rightarrow> go_time \<Rightarrow> SaaSConfig \<Rightarrow> string \<Rightarrow> go_error + Claims" where
  "ParseToken lib now cfg tokenStr =
     (case jw_parse lib now (\<lambda>alg. if \<not> is_hmac alg then None else Some (JwSecret (ScJWT cfg))) tokenStr of
        None \<Rightarrow> Inl (Errorf ''jwt'')
      | Some (claims, valid) \<Rightarrow> if \<not> valid then Inl (Errorf ''invalid token'') else Inr claims)"

text \<open>What is used of the library: a signed token parses under the key it was signed with, to the claims
  signed, until it expires, and under no other key.\<close>

definition jwt_ok :: "jwt \<Rightarrow> bool" where
  "jwt_ok lib \<longleftrightarrow> (\<forall>alg key claims tok now keys. jw_sign lib alg key claims = Some tok \<longrightarrow>
     jw_parse lib now keys tok = (if keys alg = Some key \<and> now < ClExpiresAt claims then Some (claims, True) else None))"

lemma ParseToken_signed:
  assumes "jwt_ok lib" "SignToken lib now now' cfg userID role = Some tok"
  shows "ParseToken lib t cfg' tok = (if JwSecret (ScJWT cfg') = JwSecret (ScJWT cfg) \<and> t < now' + JwTTL (ScJWT cfg)
    then Inr \<lparr>ClUserID = userID, ClRole = role, ClIssuedAt = now, ClExpiresAt = now' + JwTTL (ScJWT cfg)\<rparr>
    else Inl (Errorf ''jwt''))"
  using assms by (simp add: ParseToken_def SignToken_def jwt_ok_def is_hmac_def)

text \<open>What the hub sees of a token: its user.\<close>

definition token_user :: "jwt \<Rightarrow> go_time \<Rightarrow> SaaSConfig \<Rightarrow> string \<Rightarrow> nat option" where
  "token_user lib now cfg tok = (case ParseToken lib now cfg tok of Inl e \<Rightarrow> None | Inr claims \<Rightarrow> Some (ClUserID claims))"

text \<open>An agent with a token the service signed is served as the token's user until the token expires; with
  another token signed under a different secret, or an expired one, nobody is registered.\<close>

lemma signed_token_registers:
  assumes "jwt_ok lib" "SignToken lib now now' cfg userID role = Some tok" "he_auth env raw = Some \<lparr>AmType = ''auth'', AmToken = tok\<rparr>"
    "he_token env = token_user lib t cfg'"
  defines "fresh \<equiv> JwSecret (ScJWT cfg') = JwSecret (ScJWT cfg) \<and> t < now' + JwTTL (ScJWT cfg)"
  shows "(fresh \<longrightarrow> hb_conns (handshake env (Some raw) (NewHub (\<lambda>_. False))) = [userID \<mapsto> 0]) \<and>
    (\<not> fresh \<longrightarrow> hb_conns (handshake env (Some raw) h) = hb_conns h)"
proof -
  have t: "he_token env tok = (if fresh then Some userID else None)"
    by (simp add: assms(4) token_user_def ParseToken_signed [OF assms(1,2)] fresh_def)
  show ?thesis
    by (simp add: handshake_def assms(3) t Let_def register_def reply_def writeRaw_def write_frame_def NewHub_def refuse_def)
qed

end
