(* ===== verification/Wiring.thy ===== *)
theory Wiring
  imports WireProps Scheduler Auth
begin

text \<open>
  The two programs: \<open>cmd/saas/main.go\<close> with \<open>store/db.go\<close> and \<open>store/redis.go\<close>, which it starts with, and
  \<open>cmd/agent/main.go\<close>. Opening and migrating the database, listening and the router of \<open>gin\<close> are
  parameters; what the two programs configure, start, register and stop, and in which order, is here.
\<close>

section \<open>Starting\<close>

text \<open>What starting comes to: an end with a logged message and its error, or the running program.\<close>

datatype 'a boot = Fatal string go_error | Up 'a

text \<open>The models of \<open>AutoMigrate\<close>.\<close>

datatype model = User | StrategyTemplate | StrategyInstance | PortfolioState | RuntimeState | SpotLot | TradeRecord
  | SpotExecution | AuditLog | GeneRecord | EvolutionTask | KLine

definition models :: "model list" where
  "models = [User, StrategyTemplate, StrategyInstance, PortfolioState, RuntimeState, SpotLot, TradeRecord,
     SpotExecution, AuditLog, GeneRecord, EvolutionTask, KLine]"

record 'h saas_env =
  sm_loader :: loader
  sm_open :: "string \<Rightarrow> go_error + 'h"
  sm_migrate :: "model list \<Rightarrow> 'h \<Rightarrow> go_error option"
  sm_wfails :: "nat \<Rightarrow> bool"

definition dsn :: "DatabaseConfig \<Rightarrow> string" where
  "dsn c = ''host='' @ DbHost c @ '' port='' @ show_int (DbPort c) @ '' user='' @ DbUser c @ '' password='' @ DbPassword c @
     '' dbname='' @ DbName c @ '' sslmode='' @ DbSSLMode c @ '' TimeZone=UTC''"

definition NewDB :: "'h saas_env \<Rightarrow> SaaSConfig \<Rightarrow> go_error + 'h" where
  "NewDB env cfg = (case sm_open env (dsn (ScDatabase cfg)) of
     Inl e \<Rightarrow> Inl (Wrapf ''open postgres'' e)
   | Inr db \<Rightarrow> (case sm_migrate env models db of
       Some e \<Rightarrow> Inl (Wrapf ''auto migrate'' e)
     | None \<Rightarrow> Inr db))"

record redis_options =
  RoAddr :: string
  RoPassword :: string
  RoDB :: int

definition host_port :: "string \<Rightarrow> int \<Rightarrow> string" where
  "host_port host port = host @ '':'' @ show_int port"

definition NewRedis :: "SaaSConfig \<Rightarrow> redis_options" where
  "NewRedis cfg = \<lparr>RoAddr = host_port (RdHost (ScRedis cfg)) (RdPort (ScRedis cfg)), RoPassword = RdPassword (ScRedis cfg),
     RoDB = RdDB (ScRedis cfg)\<rparr>"

text \<open>Routes are pairs of a verb and a path; timeouts are in nanoseconds.\<close>

record http_server =
  hs_addr :: string
  hs_routes :: "(string \<times> string) list"
  hs_read_timeout :: int
  hs_write_timeout :: int
  hs_idle_timeout :: int

definition saas_server :: "SaaSConfig \<Rightarrow> http_server" where
  "saas_server cfg = \<lparr>hs_addr = host_port (SvHost (ScServer cfg)) (SvPort (ScServer cfg)), hs_routes = [(''GET'', ''/ws/agent'')],
     hs_read_timeout = 60 * 10 ^ 9, hs_write_timeout = 0, hs_idle_timeout = 120 * 10 ^ 9\<rparr>"

text \<open>The process: \<open>pr_loop\<close> says that the goroutine of the scheduler runs. The main goroutine waits for a
  signal, has stopped the scheduler, shuts the server down, or the process has exited with a code.\<close>

datatype phase = Waiting | Stopping | Draining | Exited int

record 'h process =
  pr_cfg :: SaaSConfig
  pr_db :: 'h
  pr_redis :: redis_options
  pr_hub :: Hub
  pr_sched :: Scheduler
  pr_loop :: bool
  pr_server :: http_server
  pr_phase :: phase

definition saas_config_path :: "loader \<Rightarrow> string" where
  "saas_config_path env = (let p = ld_env env ''CONFIG_PATH'' in if p \<noteq> [] then p else ''config.yaml'')"

text \<open>The steps 1 to 6; \<open>Start\<close> of the scheduler starts its loop.\<close>

definition main_saas :: "'h saas_env \<Rightarrow> 'h process boot" where
  "main_saas env = (case Load_saas (sm_loader env) (saas_config_path (sm_loader env)) of
     Inl e \<Rightarrow> Fatal ''config load failed'' e
   | Inr cfg \<Rightarrow> (case NewDB env cfg of
       Inl e \<Rightarrow> Fatal ''database init failed'' e
     | Inr db \<Rightarrow> Up \<lparr>pr_cfg = cfg, pr_db = db, pr_redis = NewRedis cfg, pr_hub = NewHub (sm_wfails env),
         pr_sched = NewScheduler, pr_loop = True, pr_server = saas_server cfg, pr_phase = Waiting\<rparr>))"

section \<open>Running and stopping\<close>

text \<open>The goroutines of the process. The closed channel and the ticker may be ready together, so a last scan
  may follow \<open>Stop\<close>; connections taken over by the websocket outlive \<open>Shutdown\<close>; when the server fails
  before \<open>Shutdown\<close>, \<open>logger.Fatal\<close> ends the process with code 1.\<close>

inductive main_step :: "hub_env \<Rightarrow> 'h process \<times> world \<Rightarrow> 'h process \<times> world \<Rightarrow> bool" for henv where
  scanned: "\<forall>c. pr_phase p \<noteq> Exited c \<Longrightarrow> pr_loop p \<Longrightarrow> \<forall>is. set (order is) \<subseteq> set is \<Longrightarrow>
    scan env order (w, pr_hub p) = (u, g) \<Longrightarrow> main_step henv (p, w) (p\<lparr>pr_hub := g\<rparr>, u)"
| connected: "\<forall>c. pr_phase p \<noteq> Exited c \<Longrightarrow> hub_step henv (pr_hub p, w) (g, u) \<Longrightarrow> main_step henv (p, w) (p\<lparr>pr_hub := g\<rparr>, u)"
| loop_ended: "\<forall>c. pr_phase p \<noteq> Exited c \<Longrightarrow> sc_once (pr_sched p) \<Longrightarrow> main_step henv (p, w) (p\<lparr>pr_loop := False\<rparr>, w)"
| server_failed: "pr_phase p = Waiting \<or> pr_phase p = Stopping \<Longrightarrow> main_step henv (p, w) (p\<lparr>pr_phase := Exited 1\<rparr>, w)"
| signalled: "pr_phase p = Waiting \<Longrightarrow>
    main_step henv (p, w) (p\<lparr>pr_sched := Stop_scheduler (pr_sched p), pr_phase := Stopping\<rparr>, w)"
| shut_down: "pr_phase p = Stopping \<Longrightarrow> main_step henv (p, w) (p\<lparr>pr_phase := Draining\<rparr>, w)"
| returned: "pr_phase p = Draining \<Longrightarrow> main_step henv (p, w) (p\<lparr>pr_phase := Exited 0\<rparr>, w)"

inductive_cases main_stepE: "main_step henv s t"

section \<open>The agent\<close>

definition agent_config_path :: "string list \<Rightarrow> string" where
  "agent_config_path args = (if length args > 1 then args ! 1 else ''config.agent.yaml'')"

text \<open>\<open>Run\<close> with a session for the configuration read; \<open>n\<close> bounds the rounds that are looked at.\<close>

definition main_agent :: "loader \<Rightarrow> string list \<Rightarrow> (AgentConfig \<Rightarrow> nat \<Rightarrow> 'w \<Rightarrow> 'w) \<Rightarrow> (nat \<Rightarrow> bool) \<Rightarrow> nat \<Rightarrow> 'w \<Rightarrow>
    (i64 list \<times> 'w \<times> bool) boot" where
  "main_agent env args session ctx n w = (case Load_agent env (agent_config_path args) of
     Inl e \<Rightarrow> Fatal ''load config'' e
   | Inr cfg \<Rightarrow> Up (Run_agent ctx (session cfg) n w))"

text \<open>The sessions of the agent: one that does not open changes nothing, another one does what its steps do.\<close>

definition sessions :: "bitget_env \<Rightarrow> agent_env \<Rightarrow> (AgentConfig \<Rightarrow> nat \<Rightarrow> net \<Rightarrow> net) \<Rightarrow> bool" where
  "sessions xenv env session \<longleftrightarrow> (\<forall>cfg i w. case open_session (env\<lparr>ae_cfg := cfg\<rparr>) w of
     Inl e \<Rightarrow> session cfg i w = w
   | Inr s0 \<Rightarrow> \<exists>s. (session_step (BitgetClient (xenv\<lparr>bx_cfg := cfg\<rparr>)) (env\<lparr>ae_cfg := cfg\<rparr>))\<^sup>*\<^sup>* s0 s \<and> session cfg i w = se_world s)"

section \<open>What the process keeps\<close>

lemma main_saas_up:
  assumes "main_saas env = Up p"
  obtains cfg db where "NewDB env cfg = Inr db" "p = \<lparr>pr_cfg = cfg, pr_db = db, pr_redis = NewRedis cfg, pr_hub = NewHub (sm_wfails env),
    pr_sched = NewScheduler, pr_loop = True, pr_server = saas_server cfg, pr_phase = Waiting\<rparr>"
  using assms by (auto simp: main_saas_def split: sum.splits)

lemma scan_served:
  assumes "registry_ok h" "ledger_ok (w_db w)" "scan env order (w, h) = (u, g)"
  shows "registry_ok g \<and> ledger_ok (w_db u)"
proof -
  obtain q v where q: "db_query (\<lambda>d. filter (\<lambda>i. SiStatus i = ''RUNNING'') (tb_instances d)) w = (q, v)" by fastforce
  have v: "w_db v = w_db w" by (rule db_query_db [OF q])
  show ?thesis
  proof (cases q)
    case (Inl e)
    then show ?thesis using assms v by (simp add: scan_def q)
  next
    case (Inr insts)
    then show ?thesis using ticks_served [of "(v, h)" "order insts" env] assms v by (simp add: scan_def q served_def)
  qed
qed

text \<open>The scheduler is stopped exactly when the main goroutine has gone past the signal.\<close>

definition stopped_in_order :: "'h process \<Rightarrow> bool" where
  "stopped_in_order p \<longleftrightarrow> sc_closes (pr_sched p) = (if sc_once (pr_sched p) then 1 else 0) \<and> (pr_loop p \<or> sc_once (pr_sched p)) \<and>
     (case pr_phase p of Waiting \<Rightarrow> \<not> sc_once (pr_sched p) | Exited c \<Rightarrow> c = 0 \<and> sc_once (pr_sched p) \<or> c = 1 | _ \<Rightarrow> sc_once (pr_sched p))"

lemma main_step_keeps:
  assumes "main_step henv (p, w) (q, u)" "registry_ok (pr_hub p)" "ledger_ok (w_db w)" "stopped_in_order p"
  shows "registry_ok (pr_hub q) \<and> ledger_ok (w_db u) \<and> stopped_in_order q \<and> pr_server q = pr_server p \<and> pr_cfg q = pr_cfg p"
  using assms(1)
proof cases
  case (scanned order env g)
  then show ?thesis using scan_served [OF assms(2,3)] assms(4) by (cases "pr_phase p") (simp_all add: stopped_in_order_def)
next
  case (connected g)
  have "saas_step henv (w, pr_hub p) (u, g)" by (rule saas_step.hub [OF connected(3)])
  then show ?thesis
    using saas_step_ledger saas_step_registry assms connected(1)
    by (cases "pr_phase p") (auto simp: stopped_in_order_def)
qed (use assms in \<open>auto simp: stopped_in_order_def Stop_scheduler_def split: phase.splits if_splits\<close>)

section \<open>Properties\<close>


text \<open>The agent's log-in, when a server that does not know the verb answers it.\<close>

lemma login_refused:
  assumes "\<And>url body. ae_login env url body \<in> {None, Some (404, answer url body)}"
  shows "\<exists>e. open_session env w = Inl (Wrapf ''login'' e)"
proof -
  have "isl (login env)"
    using assms [of "AgSaaSURL (ae_cfg env) @ ''/api/v1/auth/login''" "ae_login_body env (AgEmail (ae_cfg env)) (AgPassword (ae_cfg env))"]
    by (auto simp: login_def Let_def)
  then show ?thesis by (cases "login env") (auto simp: open_session_def)
qed

lemma Run_loop_idle: "(\<And>i w. session i w = w) \<Longrightarrow> fst (snd (Run_loop ctx session n i b w)) = w"
  by (induction n arbitrary: i b) (simp_all add: Let_def split_beta)

text \<open>C23. The agent cannot log in to this server. The log-in is a \<open>POST\<close>, and the server of \<open>cmd/saas\<close> has no
  route of that HTTP verb: with a router that answers 404 where it has no route of the verb, and a
  network that delivers the answer or fails, no session of the agent opens, whatever configuration it
  is started with, and after any number of rounds the account at the exchange is as it was.\<close>

theorem agent_cannot_log_in:
  assumes "main_saas env = Up p"
    and gin: "\<And>routes verb url body. verb \<notin> fst ` set routes \<Longrightarrow> fst (serve routes verb url body) = (404 :: int)"
    and net: "\<And>url body. ae_login aenv url body \<in> {None, Some (serve (hs_routes (pr_server p)) ''POST'' url body)}"
    and "sessions xenv aenv session" "main_agent ld args session ctx n account = Up (waits, account', stopped)"
  shows "(\<forall>cfg w. \<exists>e. open_session (aenv\<lparr>ae_cfg := cfg\<rparr>) (w :: net) = Inl (Wrapf ''login'' e)) \<and> account' = account"
proof -
  have "hs_routes (pr_server p) = [(''GET'', ''/ws/agent'')]" using assms(1) by (rule main_saas_up) (simp add: saas_server_def)
  then have s: "serve (hs_routes (pr_server p)) ''POST'' url body = (404, snd (serve (hs_routes (pr_server p)) ''POST'' url body))" for url body
    using gin [of "''POST''" "hs_routes (pr_server p)" url body] by (simp add: prod_eq_iff)
  have o: "\<exists>e. open_session (aenv\<lparr>ae_cfg := cfg\<rparr>) w = Inl (Wrapf ''login'' e)" for cfg and w :: net
    using net s by (intro login_refused [where answer = "\<lambda>url body. snd (serve (hs_routes (pr_server p)) ''POST'' url body)"]) (metis agent_env.ext_inject agent_env.surjective agent_env.update_convs(1))
  have idle: "session cfg i w = w" for cfg i w
  proof -
    obtain e where "open_session (aenv\<lparr>ae_cfg := cfg\<rparr>) w = Inl (Wrapf ''login'' e)" using o by blast
    then show ?thesis using assms(4)[unfolded sessions_def, rule_format, of cfg i w] by simp
  qed
  have "account' = account"
    using assms(5) Run_loop_idle [of "session cfg" for cfg] idle
    by (auto simp: main_agent_def Run_agent_def split: sum.splits) (metis fst_conv snd_conv)
  then show ?thesis using o by blast
qed

section \<open>A run\<close>

definition demo_config :: SaaSConfig where
  "demo_config = \<lparr>ScAppRole = ''all'', ScServer = \<lparr>SvHost = ''0.0.0.0'', SvPort = 8080\<rparr>,
     ScDatabase = \<lparr>DbHost = ''db'', DbPort = 5432, DbUser = ''qs'', DbPassword = [], DbName = ''qs'', DbSSLMode = ''disable''\<rparr>,
     ScRedis = \<lparr>RdHost = ''redis'', RdPort = 6379, RdPassword = [], RdDB = 0\<rparr>, ScJWT = \<lparr>JwSecret = [], JwTTL = 0\<rparr>\<rparr>"

definition demo_loader :: loader where
  "demo_loader = \<lparr>ld_file = Some, ld_saas = (\<lambda>p. if p = ''config.yaml'' then Some demo_config else None),
     ld_agent = (\<lambda>p. if p = ''a.yaml'' then Some (bx_cfg demo_exchange) else None),
     ld_env = (\<lambda>v. if v = ''DB_PASSWORD'' then ''secret'' else [])\<rparr>"

definition demo_boot :: "string saas_env" where
  "demo_boot = \<lparr>sm_loader = demo_loader, sm_open = Inr, sm_migrate = (\<lambda>_ _. None), sm_wfails = (\<lambda>_. False)\<rparr>"

definition demo_process :: "string process" where
  "demo_process = (case main_saas demo_boot of Up p \<Rightarrow> p)"

lemma demo_up: "main_saas demo_boot = Up demo_process"
proof -
  have "case main_saas demo_boot of Up p \<Rightarrow> True | _ \<Rightarrow> False" by code_simp
  then show ?thesis by (auto simp: demo_process_def split: boot.splits)
qed

lemma demo_process: "hs_addr (pr_server demo_process) = ''0.0.0.0:8080''"
  "pr_db demo_process = ''host=db port=5432 user=qs password=secret dbname=qs sslmode=disable TimeZone=UTC''"
  "RoAddr (pr_redis demo_process) = ''redis:6379''" "pr_phase demo_process = Waiting"
  "hs_routes (pr_server demo_process) = [(''GET'', ''/ws/agent'')]"
  by code_simp+


text \<open>A server whose router and network answer, and an agent that tries three times.\<close>

definition demo_serve :: "(string \<times> string) list \<Rightarrow> string \<Rightarrow> string \<Rightarrow> string \<Rightarrow> int \<times> string" where
  "demo_serve routes verb url body = (if verb \<in> fst ` set routes then (200, []) else (404, ''404 page not found''))"

definition demo_caller :: agent_env where
  "demo_caller = demo_agent\<lparr>ae_login := (\<lambda>url body. Some (demo_serve (hs_routes (pr_server demo_process)) ''POST'' url body))\<rparr>"

definition demo_session :: "AgentConfig \<Rightarrow> nat \<Rightarrow> net \<Rightarrow> net" where
  "demo_session cfg i w = (case open_session (demo_caller\<lparr>ae_cfg := cfg\<rparr>) w of Inl _ \<Rightarrow> w | Inr s \<Rightarrow> se_world s)"

theorem agent_cannot_log_in_witness:
  "\<exists>waits stopped. main_agent demo_loader [''agent'', ''a.yaml''] demo_session (\<lambda>_. False) 3 [] = Up (waits, [], stopped) \<and> length waits = 3 \<and>
     login demo_caller = Inl (Errorf ''login 404: 404 page not found'')"
proof -
  have "case main_agent demo_loader [''agent'', ''a.yaml''] demo_session (\<lambda>_. False) 3 [] of Up (waits, account, stopped) \<Rightarrow> length waits = 3 | _ \<Rightarrow> False"
    "login demo_caller = Inl (Errorf ''login 404: 404 page not found'')"
    by code_simp+
  then obtain waits account stopped
    where r: "main_agent demo_loader [''agent'', ''a.yaml''] demo_session (\<lambda>_. False) 3 [] = Up (waits, account, stopped)" "length waits = 3"
      "login demo_caller = Inl (Errorf ''login 404: 404 page not found'')"
    by (auto split: boot.splits)
  have s: "sessions xenv demo_caller demo_session" for xenv
    unfolding sessions_def demo_session_def by (auto split: sum.split)
  have n: "ae_login demo_caller url body \<in> {None, Some (demo_serve (hs_routes (pr_server demo_process)) ''POST'' url body)}" for url body
    by (simp add: demo_caller_def)
  have g: "fst (demo_serve routes verb url body) = 404" if "verb \<notin> fst ` set routes" for routes verb url body
    using that by (simp add: demo_serve_def)
  have "account = []" using agent_cannot_log_in [OF demo_up, where serve = demo_serve, OF g n s r(1)] by simp
  then show ?thesis using r by simp
qed

end
