(* ===== verification/ExchangeWire.thy ===== *)
theory ExchangeWire
  imports WireProps
begin

text \<open>
  The texts between the program and the exchange: the body of an order and the three responses that
  \<open>internal/agent/exchange/bitget.go\<close> decodes, and the candles that
  \<open>internal/saas/instance/manager.go\<close> fetches; and an order followed from the intent of the strategy
  to the text the exchange receives.
\<close>

section \<open>Orders\<close>

text \<open>A map is written with its keys in order; these are all the keys an order has.\<close>

definition order_keys :: "string list" where
  "order_keys = [''clientOid'', ''force'', ''orderType'', ''side'', ''size'', ''symbol'']"

definition order_text :: "(string \<rightharpoonup> string) \<Rightarrow> string" where
  "order_text body = put_object (concat (map (\<lambda>k. case body k of None \<Rightarrow> [] | Some v \<Rightarrow> [(k, put_string v)]) order_keys))"

section \<open>Responses\<close>

text \<open>The names of the fields are those of the tags in lower case, as the decoder folds the names it reads.\<close>

definition set_place_data :: "placeResp \<Rightarrow> string \<Rightarrow> string \<Rightarrow> placeResp \<times> bool" where
  "set_place_data p k raw = (if k = ''orderid'' then store p (\<lambda>s. p\<lparr>PrOrderId := s\<rparr>) (get_string raw (PrOrderId p)) else (p, True))"

definition set_place :: "placeResp \<Rightarrow> string \<Rightarrow> string \<Rightarrow> placeResp \<times> bool" where
  "set_place p k raw = (if k = ''code'' then store p (\<lambda>s. p\<lparr>PrCode := s\<rparr>) (get_string raw (PrCode p))
     else if k = ''msg'' then store p (\<lambda>s. p\<lparr>PrMsg := s\<rparr>) (get_string raw (PrMsg p))
     else if k = ''data'' then struct_of set_place_data p raw else (p, True))"

definition place_of :: "string \<Rightarrow> placeResp option" where
  "place_of raw = checked (struct_of set_place \<lparr>PrCode = [], PrMsg = [], PrOrderId = []\<rparr> raw)"

definition set_fee :: "orderInfoResp \<Rightarrow> string \<Rightarrow> string \<Rightarrow> orderInfoResp \<times> bool" where
  "set_fee p k raw = (if k = ''totaldeductedfee'' then
     store p (\<lambda>s. p\<lparr>OrTotalDeductedFee := s\<rparr>) (get_string raw (OrTotalDeductedFee p)) else (p, True))"

definition set_info_data :: "orderInfoResp \<Rightarrow> string \<Rightarrow> string \<Rightarrow> orderInfoResp \<times> bool" where
  "set_info_data p k raw = (if k = ''status'' then store p (\<lambda>s. p\<lparr>OrStatus := s\<rparr>) (get_string raw (OrStatus p))
     else if k = ''basevolume'' then store p (\<lambda>s. p\<lparr>OrBaseVolume := s\<rparr>) (get_string raw (OrBaseVolume p))
     else if k = ''fillprice'' then store p (\<lambda>s. p\<lparr>OrFillPrice := s\<rparr>) (get_string raw (OrFillPrice p))
     else if k = ''feedetail'' then struct_of set_fee p raw else (p, True))"

definition set_info :: "orderInfoResp \<Rightarrow> string \<Rightarrow> string \<Rightarrow> orderInfoResp \<times> bool" where
  "set_info p k raw = (if k = ''code'' then store p (\<lambda>s. p\<lparr>OrCode := s\<rparr>) (get_string raw (OrCode p))
     else if k = ''msg'' then store p (\<lambda>s. p\<lparr>OrMsg := s\<rparr>) (get_string raw (OrMsg p))
     else if k = ''data'' then struct_of set_info_data p raw else (p, True))"

definition info_of :: "string \<Rightarrow> orderInfoResp option" where
  "info_of raw = checked (struct_of set_info \<lparr>OrCode = [], OrMsg = [], OrStatus = [], OrBaseVolume = [], OrFillPrice = [],
     OrTotalDeductedFee = []\<rparr> raw)"

definition set_asset :: "assetRow \<Rightarrow> string \<Rightarrow> string \<Rightarrow> assetRow \<times> bool" where
  "set_asset a k raw = (if k = ''coinname'' then store a (\<lambda>s. a\<lparr>AsCoinName := s\<rparr>) (get_string raw (AsCoinName a))
     else if k = ''available'' then store a (\<lambda>s. a\<lparr>AsAvailable := s\<rparr>) (get_string raw (AsAvailable a))
     else if k = ''frozen'' then store a (\<lambda>s. a\<lparr>AsFrozen := s\<rparr>) (get_string raw (AsFrozen a)) else (a, True))"

definition asset_of :: "string \<Rightarrow> assetRow option" where
  "asset_of raw = checked (struct_of set_asset \<lparr>AsCoinName = [], AsAvailable = [], AsFrozen = []\<rparr> raw)"

definition set_assets :: "assetsResp \<Rightarrow> string \<Rightarrow> string \<Rightarrow> assetsResp \<times> bool" where
  "set_assets p k raw = (if k = ''code'' then store p (\<lambda>s. p\<lparr>ArCode := s\<rparr>) (get_string raw (ArCode p))
     else if k = ''msg'' then store p (\<lambda>s. p\<lparr>ArMsg := s\<rparr>) (get_string raw (ArMsg p))
     else if k = ''data'' then store p (\<lambda>xs. p\<lparr>ArData := xs\<rparr>) (list_of asset_of raw) else (p, True))"

definition assets_of :: "string \<Rightarrow> assetsResp option" where
  "assets_of raw = checked (struct_of set_assets \<lparr>ArCode = [], ArMsg = [], ArData = []\<rparr> raw)"

definition set_candles :: "bitgetCandleResp \<Rightarrow> string \<Rightarrow> string \<Rightarrow> bitgetCandleResp \<times> bool" where
  "set_candles p k raw = (if k = ''code'' then store p (\<lambda>s. p\<lparr>BcCode := s\<rparr>) (get_string raw (BcCode p))
     else if k = ''msg'' then store p (\<lambda>s. p\<lparr>BcMsg := s\<rparr>) (get_string raw (BcMsg p))
     else if k = ''data'' then store p (\<lambda>rows. p\<lparr>BcData := rows\<rparr>) (list_of (list_of (\<lambda>t. get_string t [])) raw) else (p, True))"

definition candles_of :: "string \<Rightarrow> bitgetCandleResp option" where
  "candles_of raw = checked (struct_of set_candles \<lparr>BcCode = [], BcMsg = [], BcData = []\<rparr> raw)"

definition wire_bitget :: "bitget_env \<Rightarrow> bitget_env" where
  "wire_bitget env = env\<lparr>bx_body := order_text, bx_place := place_of, bx_info := info_of, bx_assets := assets_of\<rparr>"

section \<open>What the exchange reads\<close>

definition order_field :: "string \<Rightarrow> string \<Rightarrow> string option" where
  "order_field body k = do { ms \<leftarrow> object_of body; raw \<leftarrow> map_of ms k; get_string raw [] }"

lemma order_text_fields:
  assumes "order_body cmd = Some body"
  shows "object_of (order_text body) = Some [(''clientOid'', put_string (AcClientOrderID cmd)), (''force'', put_string ''gtc''),
    (''orderType'', put_string ''market''), (''side'', put_string (if AcAction cmd = ''BUY'' then ''buy'' else ''sell'')),
    (''size'', put_string (if AcAction cmd = ''BUY'' then AcAmountUSDT cmd else AcQtyAsset cmd)),
    (''symbol'', put_string (filter (\<lambda>c. c \<noteq> CHR ''/'') (AcSymbol cmd)))]"
proof -
  have k: "utf8_ok ''clientOid''" "utf8_ok ''force''" "utf8_ok ''orderType''" "utf8_ok ''side''" "utf8_ok ''size''" "utf8_ok ''symbol''"
    by (rule ascii_utf8, simp add: code_def)+
  have "AcAction cmd = ''BUY'' \<or> AcAction cmd = ''SELL''" using assms by (auto simp: order_body_def Let_def split: if_splits)
  then show ?thesis using assms k by (auto simp: order_body_def Let_def order_text_def order_keys_def object_of_put)
qed

lemma order_field_simps:
  assumes "order_body cmd = Some body" "utf8_ok (AcClientOrderID cmd)" "utf8_ok (AcAmountUSDT cmd)" "utf8_ok (AcQtyAsset cmd)"
    "ascii (AcSymbol cmd)"
  shows "order_field (order_text body) ''clientOid'' = Some (AcClientOrderID cmd)"
    "order_field (order_text body) ''orderType'' = Some ''market''"
    "order_field (order_text body) ''side'' = Some (if AcAction cmd = ''BUY'' then ''buy'' else ''sell'')"
    "order_field (order_text body) ''size'' = Some (if AcAction cmd = ''BUY'' then AcAmountUSDT cmd else AcQtyAsset cmd)"
    "order_field (order_text body) ''symbol'' = Some (filter (\<lambda>c. c \<noteq> CHR ''/'') (AcSymbol cmd))"
proof -
  have "list_all (\<lambda>c. code c < 128) (filter (\<lambda>c. c \<noteq> CHR ''/'') (AcSymbol cmd))"
    using assms(5) by (auto simp: ascii_def list_all_iff)
  then have s: "utf8_ok (filter (\<lambda>c. c \<noteq> CHR ''/'') (AcSymbol cmd))" by (rule utf8_ascii)
  have "ascii ''market''" "ascii ''buy''" "ascii ''sell''" by (simp_all add: code_def)
  note u = this [THEN ascii_utf8]
  note f = order_field_def order_text_fields [OF assms(1)] get_put_string
  show "order_field (order_text body) ''clientOid'' = Some (AcClientOrderID cmd)" using assms(2) by (simp add: f)
  show "order_field (order_text body) ''orderType'' = Some ''market''" using u by (simp add: f)
  show "order_field (order_text body) ''side'' = Some (if AcAction cmd = ''BUY'' then ''buy'' else ''sell'')" using u by (simp add: f)
  show "order_field (order_text body) ''size'' = Some (if AcAction cmd = ''BUY'' then AcAmountUSDT cmd else AcQtyAsset cmd)"
    using assms(3,4) by (simp add: f)
  show "order_field (order_text body) ''symbol'' = Some (filter (\<lambda>c. c \<noteq> CHR ''/'') (AcSymbol cmd))" using s by (simp add: f)
qed

section \<open>What the manager prints is plain text\<close>

lemma ascii_append [simp]: "ascii (xs @ ys) \<longleftrightarrow> ascii xs \<and> ascii ys"
  by (simp add: ascii_def)

lemma ascii_digits: "list_all is_digit s \<Longrightarrow> ascii s"
  by (auto simp: ascii_def is_digit_def list_all_iff)

lemma ascii_show_nat [simp]: "0 \<le> n \<Longrightarrow> ascii (show_nat n)"
  using show_nat_digits by (auto intro: ascii_digits)

lemma ascii_show_int [simp]: "ascii (show_int i)"
  by (simp add: show_int_def code_def)

lemma ascii_fixed_digits [simp]: "ascii (fixed_digits p n)"
  using digit_is by (intro ascii_digits) (simp add: fixed_digits_def list_all_iff)

lemma ascii_FormatFloat:
  assumes "f_fin x"
  shows "ascii (FormatFloat x p)"
proof -
  have "0 \<le> round_even (\<bar>f_val x\<bar> * 10 ^ p)" by (rule round_even_ge) simp
  then have "0 \<le> round_even (\<bar>f_val x\<bar> * 10 ^ p) div 10 ^ p" by (simp add: pos_imp_zdiv_nonneg_iff)
  then show ?thesis using f_fin_not [OF assms] by (simp add: FormatFloat_def Let_def code_def)
qed

lemma intent_command_utf8:
  assumes "f_fin (AmountUSDT i)" "f_fin (QtyAsset i)" "Engine i \<in> {''MACRO'', ''MICRO''}" "Action i \<in> {''BUY'', ''SELL''}"
    "utf8_ok (LotType i)" "ascii (SiSymbol inst)"
  shows "utf8_command (intentToCommand inst i t)"
proof -
  have "ascii (TcClientOrderID (intentToCommand inst i t))" "ascii (TcAction (intentToCommand inst i t))"
    "ascii (TcEngine (intentToCommand inst i t))" "ascii (TcAmountUSDT (intentToCommand inst i t))"
    "ascii (TcQtyAsset (intentToCommand inst i t))" "ascii (TcSymbol (intentToCommand inst i t))"
    using assms ascii_FormatFloat by (auto simp: intentToCommand_def Let_def code_def)
  moreover have "TcLotType (intentToCommand inst i t) = LotType i" by (simp add: intentToCommand_def Let_def)
  ultimately show ?thesis using assms(5) ascii_utf8 by (simp add: utf8_command_def)
qed

section \<open>Properties\<close>

text \<open>C5. An order is what the strategy decided, from the intent to the exchange. The command for a buy or a sell
  with finite numbers, written by the manager, read by the agent and placed, reaches the exchange in at
  most one request, and the text of that request has the identifier of the command, the symbol without
  the slash, the side, and as its size the amount of the buy to half a cent or the quantity of the
  sell to half a unit of the eighth place.\<close>

theorem order_carries_intent:
  assumes "f_fin (AmountUSDT i)" "f_fin (QtyAsset i)" "Engine i \<in> {''MACRO'', ''MICRO''}" "Action i \<in> {''BUY'', ''SELL''}"
    "utf8_ok (LotType i)" "ascii (SiSymbol inst)"
    and "inbound_command (wire_agent aenv) (im_envelope (wire_manager nil nil' menv) (intentToCommand inst i t)) = Some order"
      "PlaceOrder (wire_bitget xenv) order lg = (r, lg')"
  shows "\<exists>ps qs. lg' = lg @ ps @ qs \<and> length ps \<le> 1 \<and> (\<not> isl r \<longrightarrow> length ps = 1) \<and> (\<forall>q \<in> set qs. rq_method q = ''GET'') \<and>
    (\<forall>q \<in> set ps. order_field (rq_body q) ''clientOid'' = Some (TcClientOrderID (intentToCommand inst i t)) \<and>
      order_field (rq_body q) ''orderType'' = Some ''market'' \<and>
      order_field (rq_body q) ''symbol'' = Some (filter (\<lambda>c. c \<noteq> CHR ''/'') (SiSymbol inst)) \<and>
      order_field (rq_body q) ''side'' = Some (if Action i = ''BUY'' then ''buy'' else ''sell'') \<and>
      (\<exists>size. order_field (rq_body q) ''size'' = Some size \<and>
        (if Action i = ''BUY'' then \<bar>read_decimal size - f_val (AmountUSDT i)\<bar> \<le> 1 / 200
         else \<bar>read_decimal size - f_val (QtyAsset i)\<bar> \<le> 1 / 2 / 10 ^ 8)))"
proof -
  let ?c = "intentToCommand inst i t" and ?env = "wire_bitget xenv"
  have u: "utf8_command ?c" by (rule intent_command_utf8 [OF assms(1-6)])
  have o: "order = agent_command ?c" using assms(7) by (simp add: inbound_command_def inbound_of_command command_of_trade [OF u])
  have s: "TcSymbol ?c = SiSymbol inst" "TcAction ?c = Action i" by (simp_all add: intentToCommand_def Let_def)
  let ?size = "if Action i = ''BUY'' then TcAmountUSDT ?c else TcQtyAsset ?c"
  have size: "if Action i = ''BUY'' then \<bar>read_decimal ?size - f_val (AmountUSDT i)\<bar> \<le> 1 / 200
      else \<bar>read_decimal ?size - f_val (QtyAsset i)\<bar> \<le> 1 / 2 / 10 ^ 8"
    using FormatFloat_error [OF assms(1), of 2] FormatFloat_error [OF assms(2), of 8] assms(4) by (auto simp: intentToCommand_def Let_def)
  from PlaceOrder_log [OF assms(8), THEN conjunct2, THEN conjunct1] obtain ps qs where q: "lg' = lg @ ps @ qs" "length ps \<le> 1"
    "Bitget.reads ?env qs" "\<not> isl r \<longrightarrow> length ps = 1"
    and ps: "\<forall>q \<in> set ps. rq_method q = ''POST'' \<and> signed ?env q \<and> map_option (bx_body ?env) (order_body order) = Some (rq_body q)"
    by blast
  have "order_field (rq_body x) ''clientOid'' = Some (TcClientOrderID ?c) \<and> order_field (rq_body x) ''orderType'' = Some ''market'' \<and>
      order_field (rq_body x) ''symbol'' = Some (filter (\<lambda>c. c \<noteq> CHR ''/'') (SiSymbol inst)) \<and>
      order_field (rq_body x) ''side'' = Some (if Action i = ''BUY'' then ''buy'' else ''sell'') \<and>
      (\<exists>size. order_field (rq_body x) ''size'' = Some size \<and>
        (if Action i = ''BUY'' then \<bar>read_decimal size - f_val (AmountUSDT i)\<bar> \<le> 1 / 200
         else \<bar>read_decimal size - f_val (QtyAsset i)\<bar> \<le> 1 / 2 / 10 ^ 8))" if "x \<in> set ps" for x
  proof -
    have "map_option order_text (order_body order) = Some (rq_body x)" using ps that by (simp add: wire_bitget_def)
    then obtain body where b: "order_body order = Some body" "rq_body x = order_text body" by (cases "order_body order") auto
    have h: "utf8_ok (AcClientOrderID order)" "utf8_ok (AcAmountUSDT order)" "utf8_ok (AcQtyAsset order)" "ascii (AcSymbol order)"
      using u assms(6) s by (simp_all add: o agent_command_def utf8_command_def)
    have e: "AcClientOrderID order = TcClientOrderID ?c" "AcSymbol order = SiSymbol inst" "AcAction order = Action i"
      "AcAmountUSDT order = TcAmountUSDT ?c" "AcQtyAsset order = TcQtyAsset ?c" using s by (simp_all add: o agent_command_def)
    note f = order_field_simps [OF b(1) h, folded b(2), unfolded e]
    show ?thesis by (intro conjI exI [of _ ?size] f size)
  qed
  then show ?thesis using q by (intro exI [of _ ps] exI [of _ qs]) (auto simp: Bitget.reads_def)
qed

section \<open>A run\<close>

definition wired_bitget :: bitget_env where
  "wired_bitget = wire_bitget (demo_exchange\<lparr>bx_http := (\<lambda>n q. Some (if rq_method q = ''POST''
     then put_object [(''code'', put_string ''00000''), (''msg'', put_string ''success''), (''data'', put_object [(''orderId'', put_string ''77'')])]
     else put_object [(''code'', put_string ''00000''), (''data'', put_object [(''status'', put_string ''full_fill''),
       (''baseVolume'', put_string ''0.1''), (''fillPrice'', put_string ''200''),
       (''feeDetail'', put_object [(''totalDeductedFee'', put_string ''0.02'')])])]))\<rparr>)"

lemma wired_fill: "fst (PlaceOrder wired_bitget (agent_command wired_command) []) =
    Inr \<lparr>AxClientOrderID = ''inst4-MACRO-5'', AxFilledQty = 1, AxFilledPrice = 1, AxFee = 1\<rparr>"
  by code_simp

theorem order_carries_intent_witness:
  "\<exists>q size. hd (snd (PlaceOrder wired_bitget (agent_command (intentToCommand demo_inst (macro_buy (lit 20 1)) 5)) [])) = q \<and>
     order_field (rq_body q) ''side'' = Some ''buy'' \<and> order_field (rq_body q) ''size'' = Some size \<and> \<bar>read_decimal size - 20\<bar> \<le> 1 / 200"
proof -
  let ?i = "macro_buy (lit 20 1)"
  let ?c = "intentToCommand demo_inst ?i 5"
  have f: "f_fin (AmountUSDT ?i)" "f_fin (QtyAsset ?i)" "f_val (lit 20 1) = 20" "Engine ?i \<in> {''MACRO'', ''MICRO''}" "Action ?i \<in> {''BUY'', ''SELL''}"
    using lit_int [of 20] by (simp_all add: macro_buy_def)
  have a: "utf8_ok (LotType ?i)" "ascii (SiSymbol demo_inst)" by code_simp+
  have in_: "inbound_command (wire_agent wired_agent) (im_envelope (wire_manager False False demo_env) ?c) = Some (agent_command ?c)"
    using command_of_trade [OF intent_command_utf8 [OF f(1,2,4,5) a]] by (simp add: inbound_command_def inbound_of_command)
  obtain r lg where p: "PlaceOrder wired_bitget (agent_command ?c) [] = (r, lg)" by fastforce
  have "\<not> isl (fst (PlaceOrder wired_bitget (agent_command ?c) []))" by code_simp
  then have ok: "\<not> isl r" by (simp add: p)
  from order_carries_intent [OF f(1,2,4,5) a in_ p [unfolded wired_bitget_def]] ok
  obtain ps qs where "lg = [] @ ps @ qs" "length ps = 1" "\<forall>q \<in> set ps. order_field (rq_body q) ''side'' = Some ''buy'' \<and>
      (\<exists>size. order_field (rq_body q) ''size'' = Some size \<and> \<bar>read_decimal size - f_val (lit 20 1)\<bar> \<le> 1 / 200)"
    by (auto simp: macro_buy_def)
  then have "order_field (rq_body (hd lg)) ''side'' = Some ''buy'' \<and>
      (\<exists>size. order_field (rq_body (hd lg)) ''size'' = Some size \<and> \<bar>read_decimal size - 20\<bar> \<le> 1 / 200)"
    using f(3) by (cases ps) simp_all
  then show ?thesis by (simp add: p)
qed

end
