(* ===== verification/Spec2Isabelle.thy ===== *)
theory Spec2Isabelle
  imports GAEpoch EvolutionAPI Wiring ExchangeWire
begin

text \<open>
  Verification of quantsaas, a trading service in Go: a back end (\<open>cmd/saas\<close>) that ticks
  strategy instances and evolves their parameters, and an agent (\<open>cmd/agent\<close>) that runs at the
  user's side, holds the credentials of the exchange and executes the orders.


  \<^bold>\<open>The program.\<close> Once a minute the scheduler reads the running instances and calls \<open>Tick\<close> for
  each. A tick fetches candles, loads the portfolio and runtime rows and the parameters of the
  champion, calls the pure function \<open>Step\<close>, stores the new runtime state, moves coins between the
  stacks of the ledger, writes a pending execution row for each order and sends the order through
  the hub to the agent of the user. The agent acknowledges the command, places the order on the
  exchange, polls for the fill and answers with a delta report, which the back end settles in one
  transaction. Parameters come from a genetic algorithm: the epoch service runs one evolution at a
  time, whose engine evaluates populations of chromosomes by backtests of the same \<open>Step\<close>
  over four windows, and stores the best gene as a challenger; an operator promotes a challenger
  to champion through the API, and ticks read the champion through a Redis cache.


  \<^bold>\<open>The theories\<close>, in the order of their imports.

  \<^item> \<open>Prelude\<close>, \<open>Float64\<close>, \<open>Float64_Eval\<close>, \<open>GoLib\<close>: shared lemmas and the collections \<open>fval\<close> and
    \<open>fsafe\<close>; Go's float64 bit for bit with code equations on integers, so that concrete runs are
    evaluated by the kernel; 64-bit integers, decimal printing, the calendar.
  \<^item> \<open>QuantData\<close>, \<open>QuantMath\<close>, \<open>MarketState\<close>, \<open>MacroEngine\<close>, \<open>MicroEngine\<close>, \<open>Lot\<close>: the decision kernel
    \<open>internal/quant\<close> (data.go, genome.go, closes.go, math.go, market_state.go, macro_engine.go,
    micro_engine.go, lot.go). Go structs are records, functions keep their names.
  \<^item> \<open>SigmoidDCA\<close>: \<open>internal/strategy/step.go\<close> and \<open>internal/strategies/sigmoid_dca\<close>. The interface
    \<open>Strategy\<close> is the locale \<open>strategy\<close>, whose laws bound the orders of a step; \<open>Step\<close>
    interprets it.
  \<^item> \<open>GhostDCA\<close>, \<open>Crucible\<close>, \<open>Backtest\<close>, \<open>Execution\<close>: ghost_dca.go, crucible.go and
    \<open>internal/adapters/backtest/adapter.go\<close>: the baseline, the evaluation windows, the bar loop and
    what an order does to the simulated account. Theorems about the run are proved in the locale
    \<open>strategy\<close> and so hold for every strategy that meets its contract.
  \<^item> \<open>Evolvable\<close>, \<open>GAEngine\<close>, \<open>GAEpoch\<close>: \<open>internal/saas/ga\<close>. The engine is polymorphic in the gene; the
    verbs of \<open>EvolvableStrategy\<close> are a record and their laws the locale \<open>evolvable\<close>, interpreted on
    the sigmoid DCA strategy. The concurrent evaluation is a pool of workers that share a job queue
    and a cache, and the theorems hold for every order of their steps.
  \<^item> \<open>Store\<close>, \<open>Database\<close>: the tables of \<open>internal/saas/store/models.go\<close> and the verbs of gorm the
    handlers use: statements that may fail, queries, inserts under unique indexes, transactions.
  \<^item> \<open>DeltaReport\<close>, \<open>Hub\<close>: \<open>internal/saas/ws\<close>: the settlement of reports, and the registry of
    connections with the handlers as the step relation \<open>hub_step\<close>. What the instance manager
    expects of the hub is the locale \<open>agent_channel\<close>, interpreted on \<open>SendToAgent\<close>.
  \<^item> \<open>InstanceManager\<close>, \<open>InstanceLaws\<close>, \<open>TickLaws\<close>, \<open>TickProps\<close>: \<open>internal/saas/instance/manager.go\<close>: the
    life cycle, the ten steps of \<open>Tick\<close>, dispatch and release. \<open>saas_step\<close> is the step relation of the
    whole back end (operations of the manager, ticks, reports and connections in any order), and the
    relation \<open>tick_change\<close> lists the five kinds of change a tick makes to the database.
  \<^item> \<open>EpochService\<close>, \<open>EvolutionAPI\<close>, \<open>Scheduler\<close>: \<open>internal/saas/epoch/service.go\<close>,
    \<open>internal/saas/api/handler_evolution.go\<close> with \<open>store/redis.go\<close> (its contract is the locale \<open>cache\<close>),
    and \<open>internal/saas/cron/scheduler.go\<close>.
  \<^item> \<open>Auth\<close>: \<open>internal/saas/config/config.go\<close>, \<open>internal/agent/config/config.go\<close> and
    \<open>internal/saas/auth/service.go\<close>: configuration, its overlay from the environment, and tokens.
  \<^item> \<open>Bitget\<close>, \<open>AgentClient\<close>: \<open>internal/agent/exchange/bitget.go\<close> and \<open>internal/agent/ws/client.go\<close>: the
    requests of an order, and a session of the agent as the step relation \<open>session_step\<close>, over the
    interface \<open>exchange.Client\<close> (the locale \<open>exchange\<close>, interpreted on the Bitget client).
  \<^item> \<open>AgentLink\<close>: the back end and one agent together, with the texts between them, as the step relation
    \<open>link_step\<close>.
  \<^item> \<open>Json\<close>, \<open>JsonNumber\<close>: \<open>encoding/json\<close> of Go, as far as the program uses it: the scanner, strings with their
    escapes and the repair of invalid UTF-8, members matched to fields up to case, type errors that do not
    stop the decoding, \<open>omitempty\<close>, maps with sorted keys; and numbers: the shortest decimal that reads
    back as the same float64, for which 17 digits are shown to be enough, and integers.
  \<^item> \<open>Wire\<close>, \<open>StoredJson\<close>, \<open>ExchangeWire\<close>: the texts of the program by the tags of its structs: the messages
    between hub and agent in both directions, audit rows, the runtime state and the parameter packs in the
    database, orders and responses of the exchange. \<open>WireProps\<close> puts these codecs in the place of the parameters
    that the earlier theories have for them (\<open>wire_hub\<close>, \<open>wire_manager\<close>, \<open>wire_agent\<close>, \<open>wire_bitget\<close>).
  \<^item> \<open>Wiring\<close>: \<open>cmd/saas/main.go\<close>, \<open>cmd/agent/main.go\<close>, \<open>store/db.go\<close> and \<open>NewRedis\<close>: the start of both programs
    with its fatal errors, the server and its routes, and running and stopping as the relation \<open>main_step\<close>.


  \<^bold>\<open>What the theorems show.\<close> The decision kernel: the orders of a tick stay within the account and its
  regime, the macro engine buys at most three times a month, parsing always yields legal genes.
  The simulation: the account never goes negative, a buy stays within its amount, the average a run
  sees is that of the whole series, the windows and the baseline are what the comments say.
  Evolution: no epoch leaves the legal search space, each individual gets the fitness of a gene with its
  fingerprint under every interleaving, workers terminate, the best individual is never lost, a stalled run stops,
  a stored gene is read back bit for bit. The back end: the life cycle refines the documented automaton;
  the ledger invariant (unique identifiers, one trade per filled order) holds in every reachable
  state; a report is settled entirely or not at all and at most once; every command is recorded
  before it is sent and reaches only its owner's agent; a candle is traded once; scans touch only
  running instances; one evolution runs at a time and always releases its slot; a promotion leaves
  exactly one champion, which every reader sees as long as
  handlers do not overlap and the deletion of the cached one succeeds. The agent: at most one order per command,
  acknowledged first, reports only for commands received, pauses that double up to five minutes.
  Both together, on the texts they write and read: the exchange gets at most one order per execution row of
  the ledger, and only orders the agent received become trades (\<open>one_order_per_row\<close>); an order carries the
  amount the strategy decided from the intent to the exchange, commands, reports and the state between two
  ticks arrive as they were sent, and a report with a number that is not finite is lost. The processes: the
  scheduler is stopped once and before the server, and the ledger is consistent from start to exit; as the two
  programs are wired, an agent can neither log in (\<open>agent_cannot_log_in\<close>) nor accept the
  answer to its authentication (\<open>agent_rejects_acceptance\<close>).
  Some theorems and lemmas pin down behaviour that is surprising: \<open>warmup_bull_mutes_sells\<close>,
  \<open>buy_fee_not_charged\<close>, \<open>reconnect_goes_offline\<close>, \<open>release_repeats\<close>, \<open>ClampChromosome_nan\<close>,
  \<open>fingerprint_splits_close_genes\<close>.


  \<^bold>\<open>Conventions.\<close>

  \<^item> Floats are binary64 with one rounding per operation (amd64: no fused operations). There is one
    NaN pattern. The conversion of a float out of the range of int64 gives the least int64.
  \<^item> Timestamps, periods and durations that the code computes with are 64-bit words. Counters, sizes and
    generations (\<open>int\<close> fields far from their bounds) are \<open>int\<close> or \<open>nat\<close>; row identifiers are \<open>nat\<close>. A
    \<open>time.Time\<close> is its nanoseconds since the Unix epoch.
  \<^item> Nil and empty slices are identified. Of \<open>gorm.Model\<close> only the identifier and, where queries order by
    it, the creation time are kept. A new row gets an identifier not used in its table.
  \<^item> An error is a value: its message, possibly wrapped. Logging has no effect.
  \<^item> Any statement may fail, as an oracle over the number of the statement says; a failed statement
    aborts the transaction around it; a transaction that cannot commit leaves nothing.
  \<^item> What the code takes from outside is a parameter: \<open>math.Exp\<close> and \<open>math.Log\<close>, the random source,
    \<open>sort.Slice\<close>, \<open>ParseFloat\<close>, the YAML decoder, HTTP and websocket transport, the router, HMAC, JWT, Redis, the
    clock, the scheduling of goroutines and the points of cancellation. Hypotheses on them are
    documented facts (\<open>libm_ok\<close>, \<open>rand_ok\<close>, \<open>sort_ok\<close>, \<open>gene_json_ok\<close>), and each property that
    uses one has a witness with a concrete instance.
  \<^item> The theories of the components take their JSON codecs as parameters, so that their theorems hold for any; what
    they ask of them (\<open>json_ok\<close>, \<open>codecs_ok\<close>) is proved of the codecs of \<open>Wire\<close> and \<open>StoredJson\<close>
    (\<open>pack_codec_ok\<close>, \<open>wire_codecs\<close>). The cached champion (\<open>gene_json_ok\<close>) and the bodies of the API stay parameters.
  \<^item> Concurrency: steps that run under a mutex or in one transaction are atomic. The ticks of a scan
    run one after the other, in any order, each in surroundings of its own; a call of the exchange is one
    step of a session, a request to the API one step of the service.


  \<^bold>\<open>Bounds and fuel.\<close> All loops are structural or have termination proofs. \<open>evolve\<close> recurs on the number
  of generations, which the code's own loop counts; \<open>drain\<close> runs the worker pool by a measure of the work
  left, so that enough steps of any fair schedule end it (\<open>workers_terminate\<close>); \<open>poll\<close> recurs on the six
  polls of the code; the JSON scanner descends at most as deep as its text is long; \<open>Run_loop\<close> takes the number of rounds to observe, since the agent's loop ends
  only by cancellation, and \<open>reconnect_backoff\<close> says exactly when it does.


  \<^bold>\<open>Not modelled.\<close> The identity constants of manifest.go (names for the template table, which no code here
  reads); what third-party code does with the configuration it is handed (gorm, go-redis, gin, zap); the
  constructors that only assemble a struct (\<open>NewManager\<close>, \<open>NewAgentClient\<close>); timeouts and
  deadlines other than as failures that may happen at any time; log output.
\<close>

end
